(* ===== verification/Prelude.thy ===== *)
theory Prelude
  imports Main "HOL-Library.Word"
begin

text \<open>
  Shared vocabulary of the development: the machine types of the Rust source, its
  saturating and wrapping arithmetic, little-endian byte strings, the operations of
  \<^verbatim>\<open>std::collections::HashMap\<close> that the program uses, and two interfaces that several
  components implement: a fixed-length codec and an event-driven machine with an invariant.
\<close>

section \<open>Machine types\<close>

type_synonym u8 = "8 word"
type_synonym u16 = "16 word"
type_synonym u32 = "32 word"
type_synonym u64 = "64 word"
type_synonym i8 = "8 word"
type_synonym bytes = "u8 list"

text \<open>
  A 32-bit IEEE float is only ever copied by the modelled code, so it is represented by its
  bit pattern; the literal \<^verbatim>\<open>0.0\<close> is the pattern 0.
\<close>

type_synonym f32 = "32 word"

named_theorems arith_nat
  \<comment> \<open>saturating and wrapping operations read back as natural numbers\<close>

section \<open>Saturating arithmetic and absolute difference\<close>

definition saturating_sub :: "'a::len word \<Rightarrow> 'a word \<Rightarrow> 'a word" where
  "saturating_sub a b = (if b \<le> a then a - b else 0)"

definition saturating_add :: "'a::len word \<Rightarrow> 'a word \<Rightarrow> 'a word" where
  "saturating_add a b = (if unat a + unat b < 2 ^ LENGTH('a) then a + b else - 1)"

definition abs_diff :: "'a::len word \<Rightarrow> 'a word \<Rightarrow> 'a word" where
  "abs_diff a b = (if a < b then b - a else a - b)"

lemma unat_saturating_sub [arith_nat]: "unat (saturating_sub a b) = unat a - unat b"
  by (auto simp: saturating_sub_def unat_sub word_le_nat_alt)

lemma unat_saturating_add [arith_nat]:
  "unat (saturating_add a b) = min (unat a + unat b) (2 ^ LENGTH('a) - 1)"
  for a b :: "'a::len word"
  by (auto simp: saturating_add_def unat_word_ariths unsigned_minus_1_eq_mask mask_eq_exp_minus_1)

lemma unat_abs_diff [arith_nat]:
  "unat (abs_diff a b) = (if unat a < unat b then unat b - unat a else unat a - unat b)"
  by (auto simp: abs_diff_def unat_sub word_le_nat_alt word_less_nat_alt)

lemma abs_diff_le_iff:
  "abs_diff a b \<le> w \<longleftrightarrow> unat a \<le> unat b + unat w \<and> unat b \<le> unat a + unat w"
  by (auto simp: word_le_nat_alt unat_abs_diff split: if_splits)

lemma saturating_sub_less_iff:
  "saturating_sub a b < w \<longleftrightarrow> unat a - unat b < unat w"
  by (simp add: word_less_nat_alt unat_saturating_sub)

section \<open>Little-endian byte strings\<close>

definition to_le_bytes :: "nat \<Rightarrow> 'a::len word \<Rightarrow> bytes" where
  "to_le_bytes n w = map (\<lambda>i. ucast (drop_bit (8 * i) w)) [0..<n]"

fun from_le_bytes :: "bytes \<Rightarrow> 'a::len word" where
  "from_le_bytes [] = 0"
| "from_le_bytes (b # bs) = or (ucast b) (push_bit 8 (from_le_bytes bs))"

lemma length_to_le_bytes [simp]: "length (to_le_bytes n w) = n"
  by (simp add: to_le_bytes_def)

lemma bit_from_le_bytes:
  "bit (from_le_bytes bs :: 'a::len word) n \<longleftrightarrow>
     n < LENGTH('a) \<and> n < 8 * length bs \<and> bit (bs ! (n div 8)) (n mod 8)"
proof (induction bs arbitrary: n)
  case Nil
  then show ?case by simp
next
  case (Cons b bs)
  show ?case
  proof (cases "n < 8")
    case True
    then show ?thesis
      by (auto simp: bit_or_iff bit_push_bit_iff bit_ucast_iff dest: bit_imp_le_length)
  next
    case False
    then have "n div 8 = Suc ((n - 8) div 8)" and "n mod 8 = (n - 8) mod 8"
      by (auto simp: le_div_geq le_mod_geq)
    moreover have "\<not> bit b n"
      using False by (auto dest: bit_imp_le_length)
    ultimately show ?thesis
      using False by (auto simp: bit_or_iff bit_push_bit_iff bit_ucast_iff Cons.IH)
  qed
qed

lemma from_le_to_le_bytes:
  assumes "LENGTH('a::len) = 8 * n"
  shows "from_le_bytes (to_le_bytes n w) = (w :: 'a word)"
proof (rule bit_word_eqI)
  fix i assume i: "i < LENGTH('a)"
  then have "i div 8 < n" using assms by auto
  then show "bit (from_le_bytes (to_le_bytes n w) :: 'a word) i = bit w i"
    using i assms
    by (auto simp: bit_from_le_bytes to_le_bytes_def bit_ucast_iff bit_drop_bit_eq)
qed

lemma to_le_from_le_bytes:
  assumes "length bs = n" and "8 * n \<le> LENGTH('a::len)"
  shows "to_le_bytes n (from_le_bytes bs :: 'a word) = bs"
proof (rule nth_equalityI)
  show "length (to_le_bytes n (from_le_bytes bs :: 'a word)) = length bs"
    using assms by simp
next
  fix i assume "i < length (to_le_bytes n (from_le_bytes bs :: 'a word))"
  then have i: "i < n" by simp
  have "ucast (drop_bit (8 * i) (from_le_bytes bs :: 'a word)) = bs ! i"
  proof (rule bit_word_eqI)
    fix j assume "j < LENGTH(8)"
    then have j: "j < 8" by simp
    have "8 * i + j < 8 * n" using i j by simp
    then show "bit (ucast (drop_bit (8 * i) (from_le_bytes bs :: 'a word)) :: u8) j = bit (bs ! i) j"
      using assms i j by (simp add: bit_ucast_iff bit_drop_bit_eq bit_from_le_bytes)
  qed
  then show "to_le_bytes n (from_le_bytes bs :: 'a word) ! i = bs ! i"
    using i by (simp add: to_le_bytes_def)
qed

text \<open>Truncating casts: \<^verbatim>\<open>n as u8\<close> and \<^verbatim>\<open>n as u16\<close> on a \<^verbatim>\<open>usize\<close>.\<close>

lemma unat_of_nat_small [simp]:
  "n < 2 ^ LENGTH('a) \<Longrightarrow> unat (of_nat n :: 'a::len word) = n"
  by (simp add: unat_of_nat take_bit_nat_eq_self)

text \<open>The slice \<^verbatim>\<open>buf[i..i+n]\<close>.\<close>

definition slice :: "nat \<Rightarrow> nat \<Rightarrow> 'a list \<Rightarrow> 'a list" where
  "slice i n xs = take n (drop i xs)"

lemma length_slice [simp]: "i + n \<le> length xs \<Longrightarrow> length (slice i n xs) = n"
  by (simp add: slice_def)

lemma take_slice: "take (i + n) xs = take i xs @ slice i n xs"
  by (simp add: slice_def take_add)

lemma slice_one: "i < length xs \<Longrightarrow> slice i 1 xs = [xs ! i]"
  by (simp add: slice_def take_Suc_conv_app_nth hd_drop_conv_nth take_Suc)

lemma slice_4:
  assumes "i + 4 \<le> length xs"
  shows "slice i 4 xs = [xs ! i, xs ! (i + 1), xs ! (i + 2), xs ! (i + 3)]"
  using assms by (simp add: slice_def numeral_eq_Suc Cons_nth_drop_Suc [symmetric])

lemma take_4: "4 \<le> length xs \<Longrightarrow> take 4 xs = [xs ! 0, xs ! 1, xs ! 2, xs ! 3]"
  using slice_4 [of 0 xs] by (simp add: slice_def numeral_2_eq_2)

lemma slice_append_left [simp]: "i + n \<le> length xs \<Longrightarrow> slice i n (xs @ ys) = slice i n xs"
  by (simp add: slice_def)

lemma slice_append_right: "length xs \<le> i \<Longrightarrow> slice i n (xs @ ys) = slice (i - length xs) n ys"
  by (simp add: slice_def)

lemma slice_all [simp]: "length xs = n \<Longrightarrow> slice 0 n xs = xs"
  by (simp add: slice_def)

text \<open>\<^verbatim>\<open>chunks(n)\<close> of a slice, for a positive chunk size.\<close>

function chunks :: "nat \<Rightarrow> 'a list \<Rightarrow> 'a list list" where
  "chunks n xs = (if n = 0 \<or> xs = [] then [] else take n xs # chunks n (drop n xs))"
  by pat_completeness auto
termination
  by (relation "measure (\<lambda>(n, xs). length xs)") auto

declare chunks.simps [simp del]

lemma chunks_Nil [simp]: "chunks n [] = []"
  by (simp add: chunks.simps)

lemma chunks_step: "0 < n \<Longrightarrow> xs \<noteq> [] \<Longrightarrow> chunks n xs = take n xs # chunks n (drop n xs)"
  by (subst chunks.simps) simp

lemma concat_chunks: "0 < n \<Longrightarrow> concat (chunks n xs) = xs"
proof (induction n xs rule: chunks.induct)
  case (1 n xs)
  then show ?case
    by (cases "xs = []") (auto simp: chunks_step)
qed

lemma chunks_nonempty: "0 < n \<Longrightarrow> c \<in> set (chunks n xs) \<Longrightarrow> c \<noteq> [] \<and> length c \<le> n"
proof (induction n xs rule: chunks.induct)
  case (1 n xs)
  then show ?case
    by (cases "xs = []") (auto simp: chunks_step)
qed

lemma Suc_div_step:
  assumes "0 < n" and "0 < (l::nat)"
  shows "Suc ((l - n + n - 1) div n) = (l + n - 1) div n"
proof -
  obtain m where l: "l = Suc m" using assms(2) by (cases l) auto
  show ?thesis
  proof (cases "l \<le> n")
    case True
    with l assms(1) show ?thesis by (simp add: div_add_self2)
  next
    case False
    then have "l - n + n - 1 = m" using l by simp
    with l assms(1) show ?thesis by (simp add: div_add_self2)
  qed
qed

lemma length_chunks: "0 < n \<Longrightarrow> length (chunks n xs) = (length xs + n - 1) div n"
proof (induction n xs rule: chunks.induct)
  case (1 n xs)
  show ?case
  proof (cases "xs = []")
    case True
    with 1 show ?thesis by simp
  next
    case False
    then have len: "0 < length xs" by simp
    have "length (chunks n xs) = Suc ((length xs - n + n - 1) div n)"
      using 1 False by (simp add: chunks_step)
    also have "\<dots> = (length xs + n - 1) div n"
      using Suc_div_step [OF "1.prems" len] .
    finally show ?thesis .
  qed
qed

lemma chunks_exact:
  "0 < n \<Longrightarrow> length xs = n * k \<Longrightarrow> length (chunks n xs) = k \<and> (\<forall>c \<in> set (chunks n xs). length c = n)"
proof (induction k arbitrary: xs)
  case 0
  then show ?case by simp
next
  case (Suc k)
  then have ne: "xs \<noteq> []" and len: "length (drop n xs) = n * k" by auto
  have "length (take n xs) = n" using Suc.prems by simp
  with Suc.IH [OF Suc.prems(1) len] show ?case
    by (simp add: chunks_step [OF Suc.prems(1) ne])
qed

text \<open>A call that returns or panics.\<close>

datatype 'a rust = Ret 'a | Panic

text \<open>\<^verbatim>\<open>usize\<close> subtraction of the release profile wraps around.\<close>

definition usize_sub :: "nat \<Rightarrow> nat \<Rightarrow> nat" where
  "usize_sub a b = (a + 2 ^ 64 - b) mod 2 ^ 64"

lemma usize_sub_le: "b \<le> a \<Longrightarrow> a < 2 ^ 64 \<Longrightarrow> usize_sub a b = a - b"
proof -
  assume "b \<le> a" and "a < 2 ^ 64"
  then have "a + 2 ^ 64 - b = (a - b) + 2 ^ 64" and "a - b < 2 ^ 64" by auto
  then show ?thesis unfolding usize_sub_def by (metis mod_add_self2 mod_less)
qed

definition div_ceil :: "nat \<Rightarrow> nat \<Rightarrow> nat" where
  "div_ceil a b = (a + b - 1) div b"

lemma div_ceil_mult: "0 < b \<Longrightarrow> a \<le> div_ceil a b * b"
proof -
  assume b: "0 < b"
  have "a + b - 1 < Suc ((a + b - 1) div b) * b"
    using b by (metis div_mult_mod_eq add.commute add_less_cancel_left mod_less_divisor mult_Suc)
  then show ?thesis using b by (simp add: div_ceil_def)
qed

section \<open>The first element with a property\<close>

lemma find_snoc: "find P (xs @ [x]) = (case find P xs of Some y \<Rightarrow> Some y | None \<Rightarrow> if P x then Some x else None)"
  by (induction xs) auto

lemma find_filter: "find P xs = (case filter P xs of [] \<Rightarrow> None | x # _ \<Rightarrow> Some x)"
  by (induction xs) auto

lemma find_filter_Nil: "find P xs = None \<longleftrightarrow> filter P xs = []"
  by (simp add: find_filter split: list.splits)

section \<open>Decimal rendering\<close>

text \<open>\<^verbatim>\<open>format!("{n}")\<close> of an unsigned integer.\<close>

definition digit :: "nat \<Rightarrow> char" where
  "digit d = char_of (48 + d)"

fun show_nat :: "nat \<Rightarrow> string" where
  "show_nat n = (if n < 10 then [digit n] else show_nat (n div 10) @ [digit (n mod 10)])"

declare show_nat.simps [simp del]

section \<open>HashMap operations\<close>

text \<open>
  A \<^verbatim>\<open>HashMap\<close> is a partial function. \<^verbatim>\<open>retain\<close> filters it. The order in which the Rust
  map is iterated is unspecified, so iteration takes that order as an argument: a list of
  keys that has every key of the map exactly once.
\<close>

definition retain :: "('k \<Rightarrow> 'v \<Rightarrow> bool) \<Rightarrow> ('k \<rightharpoonup> 'v) \<Rightarrow> ('k \<rightharpoonup> 'v)" where
  "retain P m = (\<lambda>k. case m k of None \<Rightarrow> None | Some v \<Rightarrow> if P k v then Some v else None)"

definition entries :: "'k list \<Rightarrow> ('k \<rightharpoonup> 'v) \<Rightarrow> ('k \<times> 'v) list" where
  "entries ks m = List.map_filter (\<lambda>k. map_option (Pair k) (m k)) ks"

definition unwrap_or :: "'a option \<Rightarrow> 'a \<Rightarrow> 'a" where
  "unwrap_or x d = (case x of None \<Rightarrow> d | Some v \<Rightarrow> v)"

text \<open>\<^verbatim>\<open>iter().flatten()\<close> on a list of options.\<close>

fun somes :: "'a option list \<Rightarrow> 'a list" where
  "somes [] = []"
| "somes (None # xs) = somes xs"
| "somes (Some x # xs) = x # somes xs"

lemma set_somes: "s \<in> set (somes xs) \<longleftrightarrow> Some s \<in> set xs"
  by (induction xs rule: somes.induct) auto

lemma somes_map_Some [simp]: "somes (map Some xs) = xs"
  by (induction xs) auto

lemma length_somes_le: "length (somes xs) \<le> length xs"
  by (induction xs rule: somes.induct) auto

lemma somes_full: "length (somes xs) = length xs \<Longrightarrow> xs = map Some (somes xs)"
proof (induction xs rule: somes.induct)
  case (2 xs)
  then show ?case using length_somes_le [of xs] by simp
qed auto

lemma unwrap_or_simps [simp]: "unwrap_or None d = d" "unwrap_or (Some v) d = v"
  by (simp_all add: unwrap_or_def)

lemma retain_Some [simp]: "retain P m k = Some v \<longleftrightarrow> m k = Some v \<and> P k v"
  by (auto simp: retain_def split: option.splits)

lemma retain_None [simp]: "retain P m k = None \<longleftrightarrow> (\<forall>v. m k = Some v \<longrightarrow> \<not> P k v)"
  by (auto simp: retain_def split: option.splits)

lemma dom_retain_subset: "dom (retain P m) \<subseteq> dom m"
  by auto

lemma retain_True [simp]: "retain (\<lambda>_ _. True) m = m"
  by (rule ext) (simp add: retain_def split: option.splits)

lemma set_entries: "set (entries ks m) = {(k, v). k \<in> set ks \<and> m k = Some v}"
  by (induction ks) (auto simp: entries_def split: option.splits)

lemma entries_Nil [simp]: "entries [] m = []"
  by (simp add: entries_def)

lemma entries_Cons [simp]:
  "entries (k # ks) m = (case m k of None \<Rightarrow> entries ks m | Some v \<Rightarrow> (k, v) # entries ks m)"
  by (simp add: entries_def split: option.splits)

lemma distinct_fst_entries: "distinct ks \<Longrightarrow> distinct (map fst (entries ks m))"
  by (induction ks) (auto simp: set_entries split: option.splits)

lemma entries_complete: "dom m \<subseteq> set ks \<Longrightarrow> set (entries ks m) = {(k, v). m k = Some v}"
  by (auto simp: set_entries)

section \<open>Interfaces shared by several components\<close>

text \<open>
  A codec that writes a value as exactly \<open>n\<close> bytes and reads it back, ignoring what follows.
\<close>

locale fixed_codec =
  fixes n :: nat and enc :: "'a \<Rightarrow> bytes" and dec :: "bytes \<Rightarrow> 'e + 'a" and wf :: "'a \<Rightarrow> bool"
  assumes enc_length: "wf x \<Longrightarrow> length (enc x) = n"
    and dec_enc: "wf x \<Longrightarrow> dec (enc x @ rest) = Inr x"
    and enc_dec: "dec bs = Inr x \<Longrightarrow> enc x = take n bs \<and> wf x"
begin

lemma dec_enc_exact: "wf x \<Longrightarrow> dec (enc x) = Inr x"
  using dec_enc [of x "[]"] by simp

lemma enc_inj: "wf x \<Longrightarrow> wf y \<Longrightarrow> enc x = enc y \<Longrightarrow> x = y"
  using dec_enc_exact by (metis sum.inject(2))

lemma dec_take: "dec bs = Inr x \<Longrightarrow> dec (take n bs) = Inr x"
  using enc_dec dec_enc_exact by metis

end

text \<open>A field-less enum with explicit discriminants: \<open>as u8\<close> and \<open>from_u8\<close>.\<close>

locale u8_enum =
  fixes as_u8 :: "'a \<Rightarrow> u8" and from_u8 :: "u8 \<Rightarrow> 'a option"
  assumes from_as: "from_u8 (as_u8 x) = Some x"
    and as_from: "from_u8 v = Some x \<Longrightarrow> as_u8 x = v"
begin

lemma as_inject: "as_u8 x = as_u8 y \<longleftrightarrow> x = y"
  by (metis from_as option.inject)

lemma from_iff: "from_u8 v = Some x \<longleftrightarrow> v = as_u8 x"
  using from_as as_from by metis

lemma from_None_iff: "from_u8 v = None \<longleftrightarrow> v \<notin> range as_u8"
  using from_as as_from by (metis option.exhaust rangeE rangeI option.distinct(1))

end

text \<open>
  A component driven by events whose invariant every event keeps: then it holds after any
  sequence of events.
\<close>

locale event_machine =
  fixes step :: "'s \<Rightarrow> 'e \<Rightarrow> 's" and inv :: "'s \<Rightarrow> bool"
  assumes step_inv: "inv s \<Longrightarrow> inv (step s e)"
begin

lemma run_inv: "inv s \<Longrightarrow> inv (foldl step s es)"
  by (induction es arbitrary: s) (auto intro: step_inv)

end

end
