(* ===== verification/Link.thy ===== *)
theory Link
  imports Prelude
begin

text \<open>
  The radio layer, \<^verbatim>\<open>tacticalmesh-link/src/lib.rs\<close>: the four priorities, the derivation of
  stream identifiers, the UDP broadcast backend (packet format and receive loop), the reader
  thread with its self-reception and allow-list filters, and the \<^verbatim>\<open>LinkAdapter\<close> with its
  sequence counter, bounded receive channels and epoch rotation. BLAKE3 is a parameter
  \<open>blake3\<close>; whether a socket operation succeeds is an argument of the operation that performs
  it. The arrays \<open>[T; 4]\<close> that the code indexes with \<open>prio as usize\<close> are functions on
  \<open>Priority\<close>.
\<close>

section \<open>Priorities\<close>

datatype Priority = Emergency | Critical | High | Bulk

fun Priority_as_u8 :: "Priority \<Rightarrow> u8" where
  "Priority_as_u8 Emergency = 0"
| "Priority_as_u8 Critical = 1"
| "Priority_as_u8 High = 2"
| "Priority_as_u8 Bulk = 3"

definition Priority_from_u8 :: "u8 \<Rightarrow> Priority option" where
  "Priority_from_u8 v =
     (if v = 0 then Some Emergency
      else if v = 1 then Some Critical
      else if v = 2 then Some High
      else if v = 3 then Some Bulk
      else None)"

definition PRIORITIES :: "Priority list" where
  "PRIORITIES = [Emergency, Critical, High, Bulk]"

lemma Priority_from_as_u8 [simp]: "Priority_from_u8 (Priority_as_u8 p) = Some p"
  by (cases p) (simp_all add: Priority_from_u8_def)

lemma Priority_as_u8_inject [simp]: "Priority_as_u8 p = Priority_as_u8 q \<longleftrightarrow> p = q"
  by (metis Priority_from_as_u8 option.inject)

text \<open>The derived \<open>Ord\<close> compares discriminants: emergency traffic is least.\<close>

instantiation Priority :: linorder
begin

definition less_eq_Priority :: "Priority \<Rightarrow> Priority \<Rightarrow> bool" where
  "less_eq_Priority p q \<longleftrightarrow> Priority_as_u8 p \<le> Priority_as_u8 q"

definition less_Priority :: "Priority \<Rightarrow> Priority \<Rightarrow> bool" where
  "less_Priority p q \<longleftrightarrow> Priority_as_u8 p < Priority_as_u8 q"

instance
  by standard (auto simp: less_eq_Priority_def less_Priority_def order.strict_iff_order)

end

lemma set_PRIORITIES: "set PRIORITIES = UNIV"
proof -
  have "p \<in> set PRIORITIES" for p
    by (cases p) (simp_all add: PRIORITIES_def)
  then show ?thesis by auto
qed

lemma all_Priority: "(\<forall>p. P p) \<longleftrightarrow> P Emergency \<and> P Critical \<and> P High \<and> P Bulk"
  by (metis Priority.exhaust)

lemma below_Priority:
  "(\<forall>p' < p. P p') \<longleftrightarrow>
     (case p of Emergency \<Rightarrow> True | Critical \<Rightarrow> P Emergency | High \<Rightarrow> P Emergency \<and> P Critical
      | Bulk \<Rightarrow> P Emergency \<and> P Critical \<and> P High)"
  by (cases p) (simp_all add: all_Priority less_Priority_def)

lemma upto_Priority: "(\<forall>p' \<le> (p :: Priority). P p') \<longleftrightarrow> (\<forall>p' < p. P p') \<and> P p"
  unfolding order_le_less by blast

interpretation prio_enum: u8_enum Priority_as_u8 Priority_from_u8
proof
  show "Priority_from_u8 (Priority_as_u8 p) = Some p" for p
    by simp
  show "Priority_from_u8 v = Some p \<Longrightarrow> Priority_as_u8 p = v" for v p
    by (auto simp: Priority_from_u8_def split: if_splits)
qed

section \<open>Constants\<close>

definition BROADCAST :: u8 where "BROADCAST = 0xFF"
definition MAX_FRAME_BYTES :: nat where "MAX_FRAME_BYTES = 1500"
definition EPOCH_ROTATION_SECS :: nat where "EPOCH_ROTATION_SECS = 300"
definition OVERLAP_MS :: nat where "OVERLAP_MS = 1000"
definition UDP_BASE_PORT :: u16 where "UDP_BASE_PORT = 42800"
definition RX_CHAN_DEPTH :: nat where "RX_CHAN_DEPTH = 2048"
definition SRC_NODE_OFFSET :: nat where "SRC_NODE_OFFSET = 4"

text \<open>The port of a priority stream: the base port plus the priority index.\<close>

definition stream_port :: "Priority \<Rightarrow> u16" where
  "stream_port p = UDP_BASE_PORT + ucast (Priority_as_u8 p)"

section \<open>Stream identifiers\<close>

definition ascii :: "string \<Rightarrow> bytes" where
  "ascii s = map of_char s"

fun prio_label :: "Priority \<Rightarrow> bytes" where
  "prio_label Emergency = ascii ''emergency''"
| "prio_label Critical = ascii ''critical''"
| "prio_label High = ascii ''high''"
| "prio_label Bulk = ascii ''bulk''"

definition derive_stream_id :: "(bytes \<Rightarrow> bytes) \<Rightarrow> bytes \<Rightarrow> u32 \<Rightarrow> Priority \<Rightarrow> u32" where
  "derive_stream_id blake3 session_key epoch prio =
     from_le_bytes (take 4 (blake3 (session_key @ to_le_bytes 4 epoch @ prio_label prio)))"

section \<open>The UDP radio backend\<close>

datatype link_error = IoError | ChannelClosed | CommandFailed

record RxFrame =
  frame_data :: bytes
  frame_rssi_dbm :: i8
  frame_stream_id :: u32
  frame_seq :: u32

record Tx =
  tx_stream_id :: u32
  tx_port :: u16
  tx_seq :: u32

record Rx =
  rx_stream_id :: u32
  rx_port :: u16

definition Tx_new :: "bool \<Rightarrow> u32 \<Rightarrow> u16 \<Rightarrow> link_error + Tx" where
  "Tx_new ok sid port =
     (if ok then Inr \<lparr>tx_stream_id = sid, tx_port = port, tx_seq = 0\<rparr> else Inl IoError)"

definition Rx_new :: "bool \<Rightarrow> u32 \<Rightarrow> u16 \<Rightarrow> link_error + Rx" where
  "Rx_new ok sid port = (if ok then Inr \<lparr>rx_stream_id = sid, rx_port = port\<rparr> else Inl IoError)"

text \<open>
  \<open>Tx_send\<close> returns the datagram handed to the socket, the outcome and the handle: the
  handle's own counter advances before the socket is written, whatever the outcome.
\<close>

definition Tx_packet :: "Tx \<Rightarrow> bytes \<Rightarrow> bytes" where
  "Tx_packet tx data = to_le_bytes 4 (tx_stream_id tx) @ to_le_bytes 4 (tx_seq tx) @ data"

definition Tx_send :: "bool \<Rightarrow> Tx \<Rightarrow> bytes \<Rightarrow> u32 \<Rightarrow> bytes \<times> (link_error + unit) \<times> Tx" where
  "Tx_send ok tx data seq =
     (Tx_packet tx data,
      if ok then Inr () else Inl IoError,
      tx\<lparr>tx_seq := tx_seq tx + 1\<rparr>)"

text \<open>
  One result of the non-blocking socket: a datagram, nothing to read (with whether the
  deadline has passed), or an error. \<open>recv_timeout\<close> consumes results until it returns; \<open>None\<close>
  says that it is still waiting when the given results are used up.
\<close>

datatype sock_result = Datagram bytes | WouldBlock bool | SockError

fun recv_timeout ::
  "Rx \<Rightarrow> sock_result list \<Rightarrow> ((link_error + RxFrame option) \<times> sock_result list) option" where
  "recv_timeout rx [] = None"
| "recv_timeout rx (Datagram buf # rs) =
     (if 8 \<le> length buf then
        (let sid = from_le_bytes (take 4 buf) in
         if sid \<noteq> rx_stream_id rx then recv_timeout rx rs
         else Some (Inr (Some \<lparr>frame_data = drop 8 buf, frame_rssi_dbm = - 60,
                              frame_stream_id = sid,
                              frame_seq = from_le_bytes (take 4 (drop 4 buf))\<rparr>), rs))
      else recv_timeout rx rs)"
| "recv_timeout rx (WouldBlock expired # rs) =
     (if expired then Some (Inr None, rs) else recv_timeout rx rs)"
| "recv_timeout rx (SockError # rs) = Some (Inl IoError, rs)"

section \<open>The reader thread\<close>

record RxMeta =
  rssi_dbm :: i8
  stream_id :: u32
  seq :: u32

definition own_frame :: "u8 \<Rightarrow> bytes \<Rightarrow> bool" where
  "own_frame node_id data \<longleftrightarrow> SRC_NODE_OFFSET < length data \<and> data ! SRC_NODE_OFFSET = node_id"

definition filtered_out :: "u8 list option \<Rightarrow> bytes \<Rightarrow> bool" where
  "filtered_out allow_list data \<longleftrightarrow>
     (case allow_list of
        None \<Rightarrow> False
      | Some xs \<Rightarrow> SRC_NODE_OFFSET < length data \<and> data ! SRC_NODE_OFFSET \<notin> set xs)"

text \<open>\<open>try_send\<close> on the bounded channel: a full channel drops the frame.\<close>

definition try_send :: "'a list \<Rightarrow> 'a \<Rightarrow> 'a list" where
  "try_send chan x = (if length chan < RX_CHAN_DEPTH then chan @ [x] else chan)"

definition reader_deliver ::
  "u8 \<Rightarrow> u8 list option \<Rightarrow> (bytes \<times> RxMeta) list \<Rightarrow> RxFrame \<Rightarrow> (bytes \<times> RxMeta) list" where
  "reader_deliver node_id allow_list chan frame =
     (if own_frame node_id (frame_data frame) then chan
      else if filtered_out allow_list (frame_data frame) then chan
      else try_send chan
             (frame_data frame,
              \<lparr>rssi_dbm = frame_rssi_dbm frame, stream_id = frame_stream_id frame,
               seq = frame_seq frame\<rparr>))"

section \<open>The link adapter\<close>

text \<open>
  A reader thread is its receive handle and its stop flag. A rotation schedules the flag of
  the old reader to be raised after the overlap window; \<open>reader_stopping\<close> records that.
\<close>

record reader =
  reader_rx :: Rx
  reader_stopping :: bool
  reader_stop :: bool

record LinkAdapter =
  node_id :: u8
  tx :: "Priority \<Rightarrow> Tx"
  rx_chans :: "Priority \<Rightarrow> (bytes \<times> RxMeta) list"
  readers :: "Priority \<Rightarrow> reader list"
  epoch :: u32
  session_key :: bytes
  link_seq :: u64
  allow_list :: "u8 list option"

definition new_reader :: "Rx \<Rightarrow> reader" where
  "new_reader rx = \<lparr>reader_rx = rx, reader_stopping = False, reader_stop = False\<rparr>"

definition LinkAdapter_new ::
  "(bytes \<Rightarrow> bytes) \<Rightarrow> (Priority \<Rightarrow> bool) \<Rightarrow> (Priority \<Rightarrow> bool) \<Rightarrow> u8 \<Rightarrow> bytes
    \<Rightarrow> link_error + LinkAdapter" where
  "LinkAdapter_new blake3 tx_ok rx_ok nid key =
     (if \<not> list_all tx_ok PRIORITIES then Inl IoError
      else if \<not> list_all rx_ok PRIORITIES then Inl IoError
      else Inr \<lparr>node_id = nid,
                tx = (\<lambda>p. \<lparr>tx_stream_id = derive_stream_id blake3 key 0 p,
                           tx_port = stream_port p, tx_seq = 0\<rparr>),
                rx_chans = (\<lambda>_. []),
                readers = (\<lambda>p. [new_reader \<lparr>rx_stream_id = derive_stream_id blake3 key 0 p,
                                            rx_port = stream_port p\<rparr>]),
                epoch = 0,
                session_key = key,
                link_seq = 0,
                allow_list = None\<rparr>)"

definition LinkAdapter_send ::
  "bool \<Rightarrow> LinkAdapter \<Rightarrow> bytes \<Rightarrow> Priority \<Rightarrow> bytes \<times> (link_error + u64) \<times> LinkAdapter" where
  "LinkAdapter_send ok l payload prio =
     (let s = link_seq l;
          (pkt, res, tx') = Tx_send ok (tx l prio) payload (ucast (and s 0xFFFFFFFF))
      in (pkt,
          (case res of Inl e \<Rightarrow> Inl e | Inr _ \<Rightarrow> Inr s),
          l\<lparr>link_seq := s + 1, tx := (tx l)(prio := tx')\<rparr>))"

text \<open>\<open>recv\<close> blocks on an empty channel: \<open>None\<close>.\<close>

definition LinkAdapter_recv ::
  "LinkAdapter \<Rightarrow> Priority \<Rightarrow> ((bytes \<times> RxMeta) \<times> LinkAdapter) option" where
  "LinkAdapter_recv l prio =
     (case rx_chans l prio of
        [] \<Rightarrow> None
      | x # xs \<Rightarrow> Some (x, l\<lparr>rx_chans := (rx_chans l)(prio := xs)\<rparr>))"

text \<open>A frame that a running reader of \<open>prio\<close> got from its radio handle.\<close>

definition LinkAdapter_deliver :: "LinkAdapter \<Rightarrow> Priority \<Rightarrow> RxFrame \<Rightarrow> LinkAdapter" where
  "LinkAdapter_deliver l prio frame =
     l\<lparr>rx_chans := (rx_chans l)(prio :=
          reader_deliver (node_id l) (allow_list l) (rx_chans l prio) frame)\<rparr>"

text \<open>
  The body of the rotation loop for one priority. The current reader is the head of the list.
  An error returns early and keeps what has been changed so far.
\<close>

definition rotate_one ::
  "(bytes \<Rightarrow> bytes) \<Rightarrow> bool \<Rightarrow> bool \<Rightarrow> u32 \<Rightarrow> Priority \<Rightarrow> LinkAdapter
    \<Rightarrow> (link_error + unit) \<times> LinkAdapter" where
  "rotate_one blake3 tx_ok rx_ok new_epoch prio l =
     (let new_sid = derive_stream_id blake3 (session_key l) new_epoch prio in
      case Tx_new tx_ok new_sid (stream_port prio) of
        Inl e \<Rightarrow> (Inl e, l)
      | Inr t \<Rightarrow>
          let l1 = l\<lparr>tx := (tx l)(prio := t)\<rparr>;
              old = (case readers l1 prio of
                       [] \<Rightarrow> []
                     | r # rs \<Rightarrow> r\<lparr>reader_stopping := True\<rparr> # rs);
              l2 = l1\<lparr>readers := (readers l1)(prio := old)\<rparr>
          in case Rx_new rx_ok new_sid (stream_port prio) of
               Inl e \<Rightarrow> (Inl e, l2)
             | Inr rx \<Rightarrow> (Inr (), l2\<lparr>readers := (readers l2)(prio := new_reader rx # old)\<rparr>))"

fun rotate_all ::
  "(bytes \<Rightarrow> bytes) \<Rightarrow> (Priority \<Rightarrow> bool) \<Rightarrow> (Priority \<Rightarrow> bool) \<Rightarrow> u32 \<Rightarrow> Priority list
    \<Rightarrow> LinkAdapter \<Rightarrow> (link_error + unit) \<times> LinkAdapter" where
  "rotate_all blake3 tx_ok rx_ok new_epoch [] l = (Inr (), l)"
| "rotate_all blake3 tx_ok rx_ok new_epoch (p # ps) l =
     (case rotate_one blake3 (tx_ok p) (rx_ok p) new_epoch p l of
        (Inl e, l') \<Rightarrow> (Inl e, l')
      | (Inr _, l') \<Rightarrow> rotate_all blake3 tx_ok rx_ok new_epoch ps l')"

definition rotate_epoch ::
  "(bytes \<Rightarrow> bytes) \<Rightarrow> (Priority \<Rightarrow> bool) \<Rightarrow> (Priority \<Rightarrow> bool) \<Rightarrow> LinkAdapter
    \<Rightarrow> (link_error + unit) \<times> LinkAdapter" where
  "rotate_epoch blake3 tx_ok rx_ok l =
     (let new_epoch = epoch l + 1
      in rotate_all blake3 tx_ok rx_ok new_epoch PRIORITIES (l\<lparr>epoch := new_epoch\<rparr>))"

text \<open>The overlap timers of \<open>rotate_epoch\<close> fire; dropping the adapter stops the current readers.\<close>

definition overlap_elapsed :: "LinkAdapter \<Rightarrow> LinkAdapter" where
  "overlap_elapsed l =
     l\<lparr>readers := (\<lambda>p. map (\<lambda>r. if reader_stopping r then r\<lparr>reader_stop := True\<rparr> else r)
                           (readers l p))\<rparr>"

definition LinkAdapter_drop :: "LinkAdapter \<Rightarrow> LinkAdapter" where
  "LinkAdapter_drop l =
     l\<lparr>readers := (\<lambda>p. case readers l p of
                          [] \<Rightarrow> [] | r # rs \<Rightarrow> r\<lparr>reader_stop := True\<rparr> # rs)\<rparr>"

definition set_allow_list :: "LinkAdapter \<Rightarrow> u8 list option \<Rightarrow> LinkAdapter" where
  "set_allow_list l nodes = l\<lparr>allow_list := nodes\<rparr>"

definition current_epoch :: "LinkAdapter \<Rightarrow> u32" where
  "current_epoch l = epoch l"

text \<open>
  \<open>set_channel\<close> runs \<open>iw\<close> on the adapter's interface: spawning it may fail and it may exit with an
  error status; otherwise it has tuned the interface. The channel of the interface is state of the
  system: \<open>radio\<close> is the channel the program has last tuned it to, if it ever has.
\<close>

definition set_channel ::
  "bool \<Rightarrow> bool \<Rightarrow> u8 option \<Rightarrow> u8 \<Rightarrow> (link_error + unit) \<times> u8 option" where
  "set_channel spawned success radio channel =
     (if \<not> spawned then (Inl IoError, radio)
      else if \<not> success then (Inl CommandFailed, radio)
      else (Inr (), Some channel))"

section \<open>Properties of the UDP backend\<close>

lemma length_Tx_packet: "length (Tx_packet t data) = 8 + length data"
  by (simp add: Tx_packet_def)

lemma recv_own_packet:
  assumes "rx_stream_id rx = tx_stream_id t"
  shows "recv_timeout rx (Datagram (Tx_packet t data) # rs) =
     Some (Inr (Some \<lparr>frame_data = data, frame_rssi_dbm = - 60,
                     frame_stream_id = tx_stream_id t, frame_seq = tx_seq t\<rparr>), rs)"
  using assms by (simp add: Tx_packet_def from_le_to_le_bytes)

lemma recv_foreign_packet:
  assumes "rx_stream_id rx \<noteq> tx_stream_id t"
  shows "recv_timeout rx (Datagram (Tx_packet t data) # rs) = recv_timeout rx rs"
  using assms by (simp add: Tx_packet_def from_le_to_le_bytes)

lemma recv_timeout_stream:
  "recv_timeout rx rs = Some (Inr (Some f), rs') \<Longrightarrow> frame_stream_id f = rx_stream_id rx"
  by (induction rx rs rule: recv_timeout.induct) (auto simp: Let_def split: if_splits)

lemma recv_timeout_suffix:
  "recv_timeout rx rs = Some (r, rs') \<Longrightarrow> \<exists>consumed. consumed \<noteq> [] \<and> rs = consumed @ rs'"
proof (induction rx rs rule: recv_timeout.induct)
  case (2 rx buf rs)
  then show ?case
    by (fastforce simp: Let_def Cons_eq_append_conv split: if_splits)
next
  case (3 rx expired rs)
  then show ?case
    by (fastforce simp: Cons_eq_append_conv split: if_splits)
qed auto

section \<open>The adapter as an event machine\<close>

datatype link_event =
    LinkSend bool bytes Priority
  | LinkRecv Priority
  | LinkDeliver Priority RxFrame
  | LinkRotate "Priority \<Rightarrow> bool" "Priority \<Rightarrow> bool"
  | LinkOverlap
  | LinkAllow "u8 list option"

fun link_step :: "(bytes \<Rightarrow> bytes) \<Rightarrow> LinkAdapter \<Rightarrow> link_event \<Rightarrow> LinkAdapter" where
  "link_step blake3 l (LinkSend ok payload p) = snd (snd (LinkAdapter_send ok l payload p))"
| "link_step blake3 l (LinkRecv p) =
     (case LinkAdapter_recv l p of None \<Rightarrow> l | Some (_, l') \<Rightarrow> l')"
| "link_step blake3 l (LinkDeliver p f) = LinkAdapter_deliver l p f"
| "link_step blake3 l (LinkRotate tx_ok rx_ok) = snd (rotate_epoch blake3 tx_ok rx_ok l)"
| "link_step blake3 l LinkOverlap = overlap_elapsed l"
| "link_step blake3 l (LinkAllow nodes) = set_allow_list l nodes"

text \<open>
  The invariant of the adapter: no channel holds more than \<open>RX_CHAN_DEPTH\<close> frames, none of
  them one the node sent itself, and every stream has a reader.
\<close>

definition chan_ok :: "u8 \<Rightarrow> (bytes \<times> RxMeta) list \<Rightarrow> bool" where
  "chan_ok n c \<longleftrightarrow> length c \<le> RX_CHAN_DEPTH \<and> list_all (\<lambda>(d, m). \<not> own_frame n d) c"

definition link_inv :: "LinkAdapter \<Rightarrow> bool" where
  "link_inv l \<longleftrightarrow> (\<forall>p. chan_ok (node_id l) (rx_chans l p) \<and> readers l p \<noteq> [])"

lemma chan_ok_Nil [simp]: "chan_ok n []"
  by (simp add: chan_ok_def)

lemma chan_ok_Cons: "chan_ok n (x # c) \<Longrightarrow> chan_ok n c"
  by (simp add: chan_ok_def)

lemma chan_ok_deliver: "chan_ok n c \<Longrightarrow> chan_ok n (reader_deliver n al c f)"
  by (auto simp: chan_ok_def reader_deliver_def try_send_def)

lemma link_inv_recv:
  assumes "link_inv l" and "LinkAdapter_recv l p = Some (x, l')"
  shows "link_inv l'"
proof -
  from assms(2) obtain xs where "rx_chans l p = x # xs"
    and "l' = l\<lparr>rx_chans := (rx_chans l)(p := xs)\<rparr>"
    by (auto simp: LinkAdapter_recv_def split: list.splits)
  moreover from this(1) have "chan_ok (node_id l) xs"
    using assms(1) chan_ok_Cons unfolding link_inv_def by metis
  ultimately show ?thesis
    using assms(1) by (simp add: link_inv_def)
qed

lemma link_inv_deliver: "link_inv l \<Longrightarrow> link_inv (LinkAdapter_deliver l p f)"
  by (simp add: link_inv_def LinkAdapter_deliver_def chan_ok_deliver)

lemma rotate_one_frame:
  "rotate_one h a b e p l = (r, l') \<Longrightarrow>
     rx_chans l' = rx_chans l \<and> node_id l' = node_id l \<and> session_key l' = session_key l
     \<and> epoch l' = epoch l \<and> (\<forall>q. q \<noteq> p \<longrightarrow> tx l' q = tx l q \<and> readers l' q = readers l q)"
  by (auto simp: rotate_one_def Let_def split: sum.splits list.splits)

lemma rotate_one_inv: "link_inv l \<Longrightarrow> rotate_one h a b e p l = (r, l') \<Longrightarrow> link_inv l'"
  by (auto simp: rotate_one_def Let_def link_inv_def split: sum.splits list.splits if_splits)

lemma rotate_all_inv: "link_inv l \<Longrightarrow> link_inv (snd (rotate_all h a b e ps l))"
proof (induction ps arbitrary: l)
  case (Cons p ps)
  then show ?case
    using rotate_one_inv by (fastforce split: prod.splits sum.splits)
qed simp

lemma link_inv_frame:
  "node_id l' = node_id l \<Longrightarrow> rx_chans l' = rx_chans l \<Longrightarrow> (\<And>p. readers l' p = [] \<Longrightarrow> readers l p = [])
    \<Longrightarrow> link_inv l \<Longrightarrow> link_inv l'"
  by (auto simp: link_inv_def)

lemma link_step_inv: "link_inv l \<Longrightarrow> link_inv (link_step h l e)"
proof (cases e)
  case (LinkSend ok d p)
  then show "link_inv l \<Longrightarrow> ?thesis"
    by (elim link_inv_frame [rotated 3]) (simp_all add: LinkAdapter_send_def Tx_send_def Let_def)
next
  case (LinkRecv p)
  then show "link_inv l \<Longrightarrow> ?thesis"
    using link_inv_recv by (auto split: option.splits)
next
  case (LinkDeliver p f)
  then show "link_inv l \<Longrightarrow> ?thesis" by (simp add: link_inv_deliver)
next
  case (LinkRotate a b)
  assume "link_inv l"
  then have "link_inv (l\<lparr>epoch := epoch l + 1\<rparr>)" by (simp add: link_inv_def)
  with LinkRotate show ?thesis by (simp add: rotate_epoch_def Let_def rotate_all_inv)
next
  case LinkOverlap
  then show "link_inv l \<Longrightarrow> ?thesis"
    by (elim link_inv_frame [rotated 3]) (simp_all add: overlap_elapsed_def)
next
  case (LinkAllow nodes)
  then show "link_inv l \<Longrightarrow> ?thesis"
    by (elim link_inv_frame [rotated 3]) (simp_all add: set_allow_list_def)
qed

interpretation link_machine: event_machine "link_step h" link_inv
  by unfold_locales (rule link_step_inv)

lemma LinkAdapter_new_inv: "LinkAdapter_new h a b n k = Inr l \<Longrightarrow> link_inv l"
  by (auto simp: LinkAdapter_new_def link_inv_def split: if_splits)

section \<open>Epoch rotation\<close>

lemma rotate_one_ok:
  assumes "rotate_one h True True e p l = (r, l')" and "readers l p = r0 # rs"
  shows "r = Inr ()
    \<and> tx l' p = \<lparr>tx_stream_id = derive_stream_id h (session_key l) e p,
                 tx_port = stream_port p, tx_seq = 0\<rparr>
    \<and> readers l' p = new_reader \<lparr>rx_stream_id = derive_stream_id h (session_key l) e p,
                                 rx_port = stream_port p\<rparr> # r0\<lparr>reader_stopping := True\<rparr> # rs"
  using assms by (auto simp: rotate_one_def Tx_new_def Rx_new_def Let_def)

text \<open>What one successful pass of the rotation loop leaves for the priorities it has visited.\<close>

definition rotated :: "(bytes \<Rightarrow> bytes) \<Rightarrow> u32 \<Rightarrow> LinkAdapter \<Rightarrow> LinkAdapter \<Rightarrow> Priority \<Rightarrow> bool" where
  "rotated h e l l' p \<longleftrightarrow>
     tx_stream_id (tx l' p) = derive_stream_id h (session_key l) e p
     \<and> rx_stream_id (reader_rx (hd (readers l' p))) = derive_stream_id h (session_key l) e p
     \<and> \<not> reader_stop (hd (readers l' p)) \<and> \<not> reader_stopping (hd (readers l' p)) \<and> readers l' p \<noteq> []
     \<and> tl (readers l' p) = (hd (readers l p))\<lparr>reader_stopping := True\<rparr> # tl (readers l p)"

lemma rotate_all_ok:
  assumes "distinct ps" and "\<forall>p. readers l p \<noteq> []"
  shows "\<exists>l'. rotate_all h (\<lambda>_. True) (\<lambda>_. True) e ps l = (Inr (), l')
     \<and> epoch l' = epoch l \<and> rx_chans l' = rx_chans l \<and> session_key l' = session_key l
     \<and> (\<forall>p \<in> set ps. rotated h e l l' p)
     \<and> (\<forall>p. p \<notin> set ps \<longrightarrow> tx l' p = tx l p \<and> readers l' p = readers l p)"
  using assms
proof (induction ps arbitrary: l)
  case Nil
  then show ?case by simp
next
  case (Cons p ps)
  obtain r l1 where one: "rotate_one h True True e p l = (r, l1)" by fastforce
  obtain r0 rs where r0: "readers l p = r0 # rs"
    using Cons.prems(2) by (meson neq_Nil_conv)
  note ok = rotate_one_ok [OF one r0] and fr = rotate_one_frame [OF one]
  have ne: "\<forall>q. readers l1 q \<noteq> []"
    using ok fr Cons.prems(2) by (metis list.distinct(1))
  have "distinct ps" using Cons.prems(1) by simp
  from Cons.IH [OF this ne] obtain l' where
    all: "rotate_all h (\<lambda>_. True) (\<lambda>_. True) e ps l1 = (Inr (), l')"
    and l': "epoch l' = epoch l1" "rx_chans l' = rx_chans l1" "session_key l' = session_key l1"
      "\<forall>q \<in> set ps. rotated h e l1 l' q"
      "\<forall>q. q \<notin> set ps \<longrightarrow> tx l' q = tx l1 q \<and> readers l' q = readers l1 q"
    by blast
  have "rotated h e l l' p"
    using ok r0 l'(5) Cons.prems(1) by (auto simp: rotated_def new_reader_def)
  moreover have "rotated h e l l' q" if "q \<in> set ps" for q
  proof -
    have "q \<noteq> p" using that Cons.prems(1) by auto
    then have "readers l1 q = readers l q" and "session_key l1 = session_key l"
      using fr by auto
    then show ?thesis using l'(4) that by (simp add: rotated_def)
  qed
  ultimately show ?case
    using one ok all l' fr by auto
qed

text \<open>
  The streams an adapter sends and listens on are those of its key and epoch; readers of earlier
  epochs are on their way out.
\<close>

definition in_sync :: "(bytes \<Rightarrow> bytes) \<Rightarrow> LinkAdapter \<Rightarrow> bool" where
  "in_sync h l \<longleftrightarrow>
     (\<forall>p. tx_stream_id (tx l p) = derive_stream_id h (session_key l) (epoch l) p
        \<and> readers l p \<noteq> []
        \<and> rx_stream_id (reader_rx (hd (readers l p))) = derive_stream_id h (session_key l) (epoch l) p
        \<and> \<not> reader_stop (hd (readers l p)) \<and> \<not> reader_stopping (hd (readers l p))
        \<and> (\<forall>r \<in> set (tl (readers l p)). reader_stopping r))"

text \<open>Some running reader takes the payload \<open>d\<close> out of the datagram.\<close>

definition hears :: "LinkAdapter \<Rightarrow> Priority \<Rightarrow> bytes \<Rightarrow> bytes \<Rightarrow> bool" where
  "hears l p pkt d \<longleftrightarrow>
     (\<exists>r \<in> set (readers l p). \<not> reader_stop r
        \<and> (\<exists>f. recv_timeout (reader_rx r) [Datagram pkt] = Some (Inr (Some f), []) \<and> frame_data f = d))"

lemma hears_packet:
  "hears l p (Tx_packet t d) d \<longleftrightarrow>
     (\<exists>r \<in> set (readers l p). \<not> reader_stop r \<and> rx_stream_id (reader_rx r) = tx_stream_id t)"
proof -
  have "(\<exists>f. recv_timeout rx [Datagram (Tx_packet t d)] = Some (Inr (Some f), []) \<and> frame_data f = d)
      \<longleftrightarrow> rx_stream_id rx = tx_stream_id t" for rx
  proof (cases "rx_stream_id rx = tx_stream_id t")
    case True
    then show ?thesis unfolding recv_own_packet [OF True] by simp
  next
    case False
    then show ?thesis unfolding recv_foreign_packet [OF False] by simp
  qed
  then show ?thesis by (simp add: hears_def)
qed

lemma new_in_sync: "LinkAdapter_new h a b n k = Inr l \<Longrightarrow> in_sync h l"
  by (auto simp: LinkAdapter_new_def in_sync_def new_reader_def split: if_splits)

lemma rotate_epoch_sync:
  assumes "in_sync h l"
  obtains l' where "rotate_epoch h (\<lambda>_. True) (\<lambda>_. True) l = (Inr (), l')" and "in_sync h l'"
    and "epoch l' = epoch l + 1" and "session_key l' = session_key l"
    and "\<And>p. readers l' p = hd (readers l' p) # (hd (readers l p))\<lparr>reader_stopping := True\<rparr> # tl (readers l p)"
proof -
  let ?l0 = "l\<lparr>epoch := epoch l + 1\<rparr>"
  have "\<forall>p. readers ?l0 p \<noteq> []" using assms by (simp add: in_sync_def)
  moreover have "distinct PRIORITIES" by (simp add: PRIORITIES_def)
  ultimately obtain l' where l': "rotate_all h (\<lambda>_. True) (\<lambda>_. True) (epoch l + 1) PRIORITIES ?l0 = (Inr (), l')"
    "epoch l' = epoch l + 1" "session_key l' = session_key l" "\<And>p. rotated h (epoch l + 1) ?l0 l' p"
    using rotate_all_ok [of PRIORITIES ?l0 h "epoch l + 1"] set_PRIORITIES by auto
  have rs: "readers l' p = hd (readers l' p) # (hd (readers l p))\<lparr>reader_stopping := True\<rparr> # tl (readers l p)" for p
    using l'(4) [of p] by (auto simp: rotated_def) (metis list.collapse)
  have sync: "in_sync h l'"
    using assms l'(2-4) by (fastforce simp: in_sync_def rotated_def)
  have "rotate_epoch h (\<lambda>_. True) (\<lambda>_. True) l = (Inr (), l')"
    using l'(1) by (simp add: rotate_epoch_def Let_def)
  from that [OF this sync l'(2,3) rs] show thesis .
qed

section \<open>Filters\<close>

lemma deliver_own_frame:
  "own_frame (node_id l) (frame_data f) \<Longrightarrow> LinkAdapter_deliver l p f = l"
  by (simp add: LinkAdapter_deliver_def reader_deliver_def)

lemma deliver_blackout:
  assumes "SRC_NODE_OFFSET < length (frame_data f)"
  shows "LinkAdapter_deliver (set_allow_list l (Some [node_id l])) p f
           = set_allow_list l (Some [node_id l])"
  using assms
  by (auto simp: LinkAdapter_deliver_def reader_deliver_def set_allow_list_def own_frame_def
        filtered_out_def)

section \<open>Properties\<close>

text \<open>
  (C19) Rotation of the epoch loses no contact. Two adapters with the same key and epoch can always
  rotate; the one that has rotated still hears the other, on every priority, both before and after
  the other rotates too, and once the overlap has elapsed it hears only the new streams.
\<close>

theorem rotation_keeps_contact:
  assumes "in_sync h l1" and "in_sync h l2" and "session_key l1 = session_key l2" and "epoch l1 = epoch l2"
  shows "\<exists>l1' l2'. rotate_epoch h (\<lambda>_. True) (\<lambda>_. True) l1 = (Inr (), l1')
    \<and> rotate_epoch h (\<lambda>_. True) (\<lambda>_. True) l2 = (Inr (), l2')
    \<and> in_sync h l1' \<and> in_sync h l2' \<and> epoch l1' = epoch l1 + 1 \<and> epoch l2' = epoch l2 + 1
    \<and> (\<forall>p d. hears l2' p (Tx_packet (tx l1 p) d) d \<and> hears l2' p (Tx_packet (tx l1' p) d) d
           \<and> hears (overlap_elapsed l2') p (Tx_packet (tx l1' p) d) d
           \<and> (hears (overlap_elapsed l2') p (Tx_packet (tx l1 p) d) d \<longleftrightarrow>
                tx_stream_id (tx l1 p) = tx_stream_id (tx l1' p)))"
proof -
  obtain l1' where l1: "rotate_epoch h (\<lambda>_. True) (\<lambda>_. True) l1 = (Inr (), l1')" "in_sync h l1'"
    "epoch l1' = epoch l1 + 1" "session_key l1' = session_key l1"
    using rotate_epoch_sync [OF assms(1)] by metis
  obtain l2' where l2: "rotate_epoch h (\<lambda>_. True) (\<lambda>_. True) l2 = (Inr (), l2')" "in_sync h l2'"
    "epoch l2' = epoch l2 + 1" "session_key l2' = session_key l2"
    and rs: "\<And>p. readers l2' p = hd (readers l2' p) # (hd (readers l2 p))\<lparr>reader_stopping := True\<rparr> # tl (readers l2 p)"
    using rotate_epoch_sync [OF assms(2)] by metis
  have hear: "hears l2' p (Tx_packet (tx l1 p) d) d \<and> hears l2' p (Tx_packet (tx l1' p) d) d
      \<and> hears (overlap_elapsed l2') p (Tx_packet (tx l1' p) d) d
      \<and> (hears (overlap_elapsed l2') p (Tx_packet (tx l1 p) d) d \<longleftrightarrow> tx_stream_id (tx l1 p) = tx_stream_id (tx l1' p))" for p d
  proof -
    obtain r rs where r: "readers l2' p = r # (hd (readers l2 p))\<lparr>reader_stopping := True\<rparr> # rs"
      using rs [of p] by blast
    have old: "rx_stream_id (reader_rx (hd (readers l2 p))) = tx_stream_id (tx l1 p)" "\<not> reader_stop (hd (readers l2 p))"
      using assms by (auto simp: in_sync_def)
    have new: "rx_stream_id (reader_rx r) = tx_stream_id (tx l1' p)" "\<not> reader_stop r" "\<not> reader_stopping r"
      "\<forall>x \<in> set rs. reader_stopping x"
      using l1 l2 assms(3,4) r by (auto simp: in_sync_def) (metis list.sel(1,3) list.set_intros(2))+
    show ?thesis
      using r old new by (auto simp: hears_packet overlap_elapsed_def)
  qed
  then show ?thesis using l1 l2 by blast
qed

section \<open>Witnesses\<close>

theorem rotation_keeps_contact_witness:
  "\<exists>l l1'. LinkAdapter_new id (\<lambda>_. True) (\<lambda>_. True) 1 [7] = Inr l
     \<and> rotate_epoch id (\<lambda>_. True) (\<lambda>_. True) l = (Inr (), l1') \<and> hears l1' Bulk (Tx_packet (tx l Bulk) [5]) [5]"
proof -
  obtain l where l: "LinkAdapter_new id (\<lambda>_. True) (\<lambda>_. True) 1 [7] = Inr l"
    by (simp add: LinkAdapter_new_def list_all_iff)
  from rotation_keeps_contact [OF new_in_sync [OF l] new_in_sync [OF l]] l show ?thesis by metis
qed

end
