(* ===== verification/WireFormat.thy ===== *)
theory WireFormat
  imports Link
begin

text \<open>
  The on-wire data of \<^verbatim>\<open>tacticalmesh-wire\<close>: message kinds, frame errors, application messages
  and the two frame headers with their byte encodings (\<^verbatim>\<open>msg_kind.rs\<close>, \<^verbatim>\<open>errors.rs\<close>,
  \<^verbatim>\<open>message.rs\<close>, \<^verbatim>\<open>headers.rs\<close>, \<^verbatim>\<open>constants.rs\<close>). Both headers implement the codec interface of
  \<^verbatim>\<open>Prelude\<close>.
\<close>

section \<open>Message kinds, errors, messages\<close>

datatype MsgKind = Data | OlsrHello | OlsrTc | Ack | SessionKeyRotation

fun MsgKind_as_u8 :: "MsgKind \<Rightarrow> u8" where
  "MsgKind_as_u8 Data = 0"
| "MsgKind_as_u8 OlsrHello = 1"
| "MsgKind_as_u8 OlsrTc = 2"
| "MsgKind_as_u8 Ack = 3"
| "MsgKind_as_u8 SessionKeyRotation = 4"

definition MsgKind_from_u8 :: "u8 \<Rightarrow> MsgKind option" where
  "MsgKind_from_u8 v =
     (if v = 0 then Some Data
      else if v = 1 then Some OlsrHello
      else if v = 2 then Some OlsrTc
      else if v = 3 then Some Ack
      else if v = 4 then Some SessionKeyRotation
      else None)"

interpretation kind_enum: u8_enum MsgKind_as_u8 MsgKind_from_u8
proof
  show "MsgKind_from_u8 (MsgKind_as_u8 k) = Some k" for k
    by (cases k) (simp_all add: MsgKind_from_u8_def)
  show "MsgKind_from_u8 v = Some k \<Longrightarrow> MsgKind_as_u8 k = v" for v k
    by (auto simp: MsgKind_from_u8_def split: if_splits)
qed

datatype FrameError =
    BadSignature
  | ReplayedNonce
  | TimeWindowExpired
  | DecryptFailed
  | TruncatedFrame
  | FecError string

record TacticalMessage =
  kind :: MsgKind
  payload :: bytes

text \<open>The hop limit of \<^verbatim>\<open>tacticalmesh-wire\<close>; the routing crate has its own constant of that name.\<close>

definition WIRE_MAX_HOPS :: u8 where "WIRE_MAX_HOPS = 2"

section \<open>Headers\<close>

definition AUTH_HEADER_LEN :: nat where "AUTH_HEADER_LEN = 44"
definition ROUTED_HEADER_LEN :: nat where "ROUTED_HEADER_LEN = 4"

record AuthHeader =
  src_node :: u8
  dst_node :: u8
  msg_kind :: MsgKind
  priority :: Priority
  timestamp_ms :: u64
  nonce :: bytes
  payload_hash :: bytes
  auth_epoch :: u16
  payload_len :: u16
  fec_index :: u8
  fec_k :: u8
  fec_n :: u8
  fec_block_id :: u8

text \<open>The fixed array lengths of the Rust struct.\<close>

definition AuthHeader_wf :: "AuthHeader \<Rightarrow> bool" where
  "AuthHeader_wf h \<longleftrightarrow> length (nonce h) = 12 \<and> length (payload_hash h) = 12"

definition AuthHeader_to_bytes :: "AuthHeader \<Rightarrow> bytes" where
  "AuthHeader_to_bytes h =
     [src_node h, dst_node h, MsgKind_as_u8 (msg_kind h), Priority_as_u8 (priority h)]
     @ to_le_bytes 8 (timestamp_ms h)
     @ nonce h
     @ payload_hash h
     @ to_le_bytes 2 (auth_epoch h)
     @ to_le_bytes 2 (payload_len h)
     @ [fec_index h, fec_k h, fec_n h, fec_block_id h]"

definition AuthHeader_from_bytes :: "bytes \<Rightarrow> FrameError + AuthHeader" where
  "AuthHeader_from_bytes buf =
     (if length buf < AUTH_HEADER_LEN then Inl TruncatedFrame
      else case MsgKind_from_u8 (buf ! 2) of
        None \<Rightarrow> Inl TruncatedFrame
      | Some k \<Rightarrow>
          (case Priority_from_u8 (buf ! 3) of
             None \<Rightarrow> Inl TruncatedFrame
           | Some p \<Rightarrow>
               Inr \<lparr>src_node = buf ! 0, dst_node = buf ! 1, msg_kind = k, priority = p,
                    timestamp_ms = from_le_bytes (slice 4 8 buf),
                    nonce = slice 12 12 buf,
                    payload_hash = slice 24 12 buf,
                    auth_epoch = from_le_bytes (slice 36 2 buf),
                    payload_len = from_le_bytes (slice 38 2 buf),
                    fec_index = buf ! 40, fec_k = buf ! 41, fec_n = buf ! 42,
                    fec_block_id = buf ! 43\<rparr>))"

record RoutedHeader =
  last_hop_id :: u8
  hops_taken :: u8
  flags :: u8
  reserved :: u8

definition RoutedHeader_to_bytes :: "RoutedHeader \<Rightarrow> bytes" where
  "RoutedHeader_to_bytes r = [last_hop_id r, hops_taken r, flags r, reserved r]"

definition RoutedHeader_from_bytes :: "bytes \<Rightarrow> FrameError + RoutedHeader" where
  "RoutedHeader_from_bytes buf =
     (if length buf < ROUTED_HEADER_LEN then Inl TruncatedFrame
      else Inr \<lparr>last_hop_id = buf ! 0, hops_taken = buf ! 1, flags = buf ! 2,
               reserved = buf ! 3\<rparr>)"

section \<open>The codecs\<close>

lemmas header_len_defs = AUTH_HEADER_LEN_def ROUTED_HEADER_LEN_def

lemma length_AuthHeader_to_bytes:
  "AuthHeader_wf h \<Longrightarrow> length (AuthHeader_to_bytes h) = AUTH_HEADER_LEN"
  by (simp add: AuthHeader_to_bytes_def AuthHeader_wf_def header_len_defs)

lemma length_RoutedHeader_to_bytes [simp]: "length (RoutedHeader_to_bytes r) = ROUTED_HEADER_LEN"
  by (simp add: RoutedHeader_to_bytes_def header_len_defs)

lemma AuthHeader_fields:
  assumes "AuthHeader_wf h" and "bs = AuthHeader_to_bytes h @ rest"
  shows "bs ! 0 = src_node h" "bs ! Suc 0 = dst_node h" "bs ! 2 = MsgKind_as_u8 (msg_kind h)"
    "bs ! 3 = Priority_as_u8 (priority h)" "slice 4 8 bs = to_le_bytes 8 (timestamp_ms h)"
    "slice 12 12 bs = nonce h" "slice 24 12 bs = payload_hash h"
    "slice 36 2 bs = to_le_bytes 2 (auth_epoch h)" "slice 38 2 bs = to_le_bytes 2 (payload_len h)"
    "bs ! 40 = fec_index h" "bs ! 41 = fec_k h" "bs ! 42 = fec_n h" "bs ! 43 = fec_block_id h"
  using assms by (simp_all add: AuthHeader_to_bytes_def AuthHeader_wf_def nth_append slice_def)

lemma AuthHeader_from_to_bytes:
  "AuthHeader_wf h \<Longrightarrow> AuthHeader_from_bytes (AuthHeader_to_bytes h @ rest) = Inr h"
  by (simp add: AuthHeader_from_bytes_def AuthHeader_fields [OF _ refl] length_AuthHeader_to_bytes
      kind_enum.from_as from_le_to_le_bytes)

lemma take_44_fields:
  assumes "44 \<le> length bs"
  shows "take 44 bs = [bs ! 0, bs ! 1, bs ! 2, bs ! 3] @ slice 4 8 bs @ slice 12 12 bs
    @ slice 24 12 bs @ slice 36 2 bs @ slice 38 2 bs @ [bs ! 40, bs ! 41, bs ! 42, bs ! 43]"
proof -
  have "take 4 bs = [bs ! 0, bs ! 1, bs ! 2, bs ! 3]"
    using assms by (simp add: take_4)
  moreover have "slice 40 4 bs = [bs ! 40, bs ! 41, bs ! 42, bs ! 43]"
    using assms by (simp add: slice_4)
  ultimately show ?thesis
    using take_slice [of 4 8 bs] take_slice [of 12 12 bs] take_slice [of 24 12 bs]
      take_slice [of 36 2 bs] take_slice [of 38 2 bs] take_slice [of 40 4 bs]
    by simp
qed

lemma AuthHeader_to_from_bytes:
  assumes "AuthHeader_from_bytes bs = Inr h"
  shows "AuthHeader_to_bytes h = take AUTH_HEADER_LEN bs \<and> AuthHeader_wf h"
proof -
  from assms have len: "44 \<le> length bs"
    by (auto simp: AuthHeader_from_bytes_def header_len_defs split: if_splits)
  from assms len show ?thesis
    by (auto simp: AuthHeader_from_bytes_def AuthHeader_to_bytes_def AuthHeader_wf_def
        header_len_defs take_44_fields to_le_from_le_bytes kind_enum.from_iff prio_enum.from_iff
        split: if_splits option.splits)
qed

interpretation auth_codec:
  fixed_codec AUTH_HEADER_LEN AuthHeader_to_bytes AuthHeader_from_bytes AuthHeader_wf
  by unfold_locales
    (rule length_AuthHeader_to_bytes AuthHeader_from_to_bytes AuthHeader_to_from_bytes; assumption)+

interpretation routed_codec:
  fixed_codec ROUTED_HEADER_LEN RoutedHeader_to_bytes RoutedHeader_from_bytes "\<lambda>_. True"
proof
  show "RoutedHeader_from_bytes (RoutedHeader_to_bytes r @ rest) = Inr r" for r rest
    by (simp add: RoutedHeader_from_bytes_def RoutedHeader_to_bytes_def header_len_defs)
  show "RoutedHeader_from_bytes bs = Inr r \<Longrightarrow> RoutedHeader_to_bytes r = take ROUTED_HEADER_LEN bs \<and> True"
    for bs r
    by (auto simp: RoutedHeader_from_bytes_def RoutedHeader_to_bytes_def header_len_defs
        take_4 split: if_splits)
qed simp

section \<open>Properties\<close>

text \<open>
  (C34) The two headers are fixed-size codecs. Every well-formed authenticated header is 44 bytes,
  every routed header 4; reading back what was written, whatever follows it, gives the header; and
  whatever bytes are accepted as a header are exactly its encoding, so no two headers share one.
\<close>

theorem header_codecs:
  assumes "AuthHeader_wf h"
  shows "length (AuthHeader_to_bytes h) = 44 \<and> AuthHeader_from_bytes (AuthHeader_to_bytes h @ rest) = Inr h
    \<and> length (RoutedHeader_to_bytes r) = 4 \<and> RoutedHeader_from_bytes (RoutedHeader_to_bytes r @ rest) = Inr r
    \<and> (\<forall>bs h'. AuthHeader_from_bytes bs = Inr h' \<longrightarrow> AuthHeader_to_bytes h' = take 44 bs \<and> AuthHeader_wf h')
    \<and> (\<forall>bs r'. RoutedHeader_from_bytes bs = Inr r' \<longrightarrow> RoutedHeader_to_bytes r' = take 4 bs)"
  using auth_codec.enc_length [OF assms] auth_codec.dec_enc [OF assms] auth_codec.enc_dec
    routed_codec.enc_length routed_codec.dec_enc routed_codec.enc_dec
  by (simp add: header_len_defs)

section \<open>Witnesses\<close>

theorem header_codecs_witness:
  "AuthHeader_from_bytes (AuthHeader_to_bytes
     \<lparr>src_node = 1, dst_node = 255, msg_kind = Data, priority = High, timestamp_ms = 1000,
      nonce = replicate 12 3, payload_hash = replicate 12 4, auth_epoch = 0, payload_len = 2,
      fec_index = 0, fec_k = 1, fec_n = 1, fec_block_id = 0\<rparr> @ [9])
   = Inr \<lparr>src_node = 1, dst_node = 255, msg_kind = Data, priority = High, timestamp_ms = 1000,
      nonce = replicate 12 3, payload_hash = replicate 12 4, auth_epoch = 0, payload_len = 2,
      fec_index = 0, fec_k = 1, fec_n = 1, fec_block_id = 0\<rparr>"
proof -
  let ?h = "\<lparr>src_node = 1, dst_node = 255, msg_kind = Data, priority = High, timestamp_ms = 1000,
      nonce = replicate 12 3, payload_hash = replicate 12 4, auth_epoch = 0, payload_len = 2,
      fec_index = 0, fec_k = 1, fec_n = 1, fec_block_id = 0\<rparr>"
  have "AuthHeader_wf ?h" by (simp add: AuthHeader_wf_def)
  from header_codecs [OF this, of "[9]"] show ?thesis by blast
qed

end
