(* ===== verification/Crypto.thy ===== *)
theory Crypto
  imports WireFormat
begin

text \<open>
  Cryptographic services of the wire layer: \<^verbatim>\<open>crypto.rs\<close>, \<^verbatim>\<open>identity.rs\<close> and
  \<^verbatim>\<open>pubkey_store.rs\<close>. BLAKE3, Ed25519 and XChaCha20 are third-party crates: they are the
  fields of the parameter record \<open>crypto\<close>, and what the code relies on are the named
  predicates below. Random bytes and the clock are arguments.
\<close>

record crypto =
  blake3 :: "bytes \<Rightarrow> bytes"
  ed_public :: "bytes \<Rightarrow> bytes"
  ed_sign :: "bytes \<Rightarrow> bytes \<Rightarrow> bytes"
  ed_verify :: "bytes \<Rightarrow> bytes \<Rightarrow> bytes \<Rightarrow> bool"
  xchacha20 :: "bytes \<Rightarrow> bytes \<Rightarrow> bytes \<Rightarrow> bytes"

definition hash_len_ok :: "crypto \<Rightarrow> bool" where
  "hash_len_ok C \<longleftrightarrow> (\<forall>d. length (blake3 C d) = 32)"

definition sig_len_ok :: "crypto \<Rightarrow> bool" where
  "sig_len_ok C \<longleftrightarrow> (\<forall>k m. length (ed_sign C k m) = 64)"

definition sign_verify_ok :: "crypto \<Rightarrow> bool" where
  "sign_verify_ok C \<longleftrightarrow> (\<forall>k m. ed_verify C (ed_public C k) m (ed_sign C k m))"

definition cipher_ok :: "crypto \<Rightarrow> bool" where
  "cipher_ok C \<longleftrightarrow> (\<forall>k n d. xchacha20 C k n (xchacha20 C k n d) = d
                        \<and> length (xchacha20 C k n d) = length d)"

section \<open>crypto.rs\<close>

definition SIG_LEN :: nat where "SIG_LEN = 64"

definition build_nonce :: "bytes \<Rightarrow> u8 \<Rightarrow> u64 \<Rightarrow> bytes \<times> bytes" where
  "build_nonce random node ts =
     (let nonce24 = [node] @ take 6 (to_le_bytes 8 ts) @ random @ replicate 12 0
      in (nonce24, take 12 nonce24))"

definition nonce24_from_stored :: "bytes \<Rightarrow> bytes" where
  "nonce24_from_stored stored = stored @ replicate 12 0"

definition xchacha20_apply :: "crypto \<Rightarrow> bytes \<Rightarrow> bytes \<Rightarrow> bytes \<Rightarrow> bytes" where
  "xchacha20_apply C key nonce24 d = xchacha20 C key nonce24 d"

definition payload_hash12 :: "crypto \<Rightarrow> bytes \<Rightarrow> bytes" where
  "payload_hash12 C d = take 12 (blake3 C d)"

section \<open>identity.rs\<close>

record Identity =
  id_node :: u8
  signing_key :: bytes
  verifying_key :: bytes
  id_session_key :: bytes

definition Identity_from_parts :: "crypto \<Rightarrow> u8 \<Rightarrow> bytes \<Rightarrow> bytes \<Rightarrow> Identity" where
  "Identity_from_parts C node sk key =
     \<lparr>id_node = node, signing_key = sk, verifying_key = ed_public C sk, id_session_key = key\<rparr>"

text \<open>\<open>generate\<close> draws the signing key and the session key at random: both are arguments.\<close>

definition Identity_generate :: "crypto \<Rightarrow> bytes \<Rightarrow> bytes \<Rightarrow> u8 \<Rightarrow> Identity" where
  "Identity_generate C random_sk random_key node =
     \<lparr>id_node = node, signing_key = random_sk, verifying_key = ed_public C random_sk,
      id_session_key = random_key\<rparr>"

definition Identity_from_seed :: "crypto \<Rightarrow> u8 \<Rightarrow> bytes \<Rightarrow> Identity" where
  "Identity_from_seed C node psk =
     Identity_from_parts C node
       (blake3 C (ascii ''tacticalmesh-signing-key-v1'' @ [node] @ psk)) psk"

definition sign_auth :: "crypto \<Rightarrow> bytes \<Rightarrow> Identity \<Rightarrow> bytes" where
  "sign_auth C auth_bytes i = ed_sign C (signing_key i) auth_bytes"

definition verify_auth :: "crypto \<Rightarrow> bytes \<Rightarrow> bytes \<Rightarrow> bytes \<Rightarrow> FrameError + unit" where
  "verify_auth C auth_bytes sig vk =
     (if ed_verify C vk auth_bytes sig then Inr () else Inl BadSignature)"

section \<open>pubkey\_store.rs\<close>

record PubkeyStore =
  keys :: "u8 \<rightharpoonup> bytes"

definition PubkeyStore_new :: PubkeyStore where
  "PubkeyStore_new = \<lparr>keys = Map.empty\<rparr>"

definition PubkeyStore_insert :: "PubkeyStore \<Rightarrow> u8 \<Rightarrow> bytes \<Rightarrow> PubkeyStore" where
  "PubkeyStore_insert s node key = s\<lparr>keys := (keys s)(node \<mapsto> key)\<rparr>"

definition PubkeyStore_get :: "PubkeyStore \<Rightarrow> u8 \<Rightarrow> bytes option" where
  "PubkeyStore_get s node = keys s node"

section \<open>Lemmas\<close>

definition Identity_wf :: "crypto \<Rightarrow> Identity \<Rightarrow> bool" where
  "Identity_wf C i \<longleftrightarrow> verifying_key i = ed_public C (signing_key i)"

lemma Identity_wf_from_parts [simp]: "Identity_wf C (Identity_from_parts C node sk key)"
  by (simp add: Identity_wf_def Identity_from_parts_def)

lemma Identity_wf_from_seed [simp]: "Identity_wf C (Identity_from_seed C node psk)"
  by (simp add: Identity_from_seed_def)

lemma Identity_wf_generate [simp]: "Identity_wf C (Identity_generate C sk key node)"
  by (simp add: Identity_wf_def Identity_generate_def)

lemma from_seed_fields [simp]:
  "id_node (Identity_from_seed C node psk) = node"
  "id_session_key (Identity_from_seed C node psk) = psk"
  by (simp_all add: Identity_from_seed_def Identity_from_parts_def)

lemma verify_sign_auth:
  "sign_verify_ok C \<Longrightarrow> Identity_wf C i \<Longrightarrow>
     verify_auth C m (sign_auth C m i) (verifying_key i) = Inr ()"
  by (simp add: verify_auth_def sign_auth_def sign_verify_ok_def Identity_wf_def)

lemma build_nonce_stored:
  assumes "length random = 5"
  shows "length (snd (build_nonce random node ts)) = 12"
    and "nonce24_from_stored (snd (build_nonce random node ts)) = fst (build_nonce random node ts)"
  using assms by (simp_all add: build_nonce_def nonce24_from_stored_def Let_def)

lemma build_nonce_inject:
  assumes "length r = 5" and "length r' = 5"
    and "snd (build_nonce r node ts) = snd (build_nonce r' node' ts')"
  shows "node = node' \<and> take 6 (to_le_bytes 8 ts) = take 6 (to_le_bytes 8 ts') \<and> r = r'"
  using assms by (simp add: build_nonce_def Let_def)

lemma length_payload_hash12: "hash_len_ok C \<Longrightarrow> length (payload_hash12 C d) = 12"
  by (simp add: payload_hash12_def hash_len_ok_def)

lemma xchacha20_apply_twice:
  "cipher_ok C \<Longrightarrow> xchacha20_apply C k n (xchacha20_apply C k n d) = d"
  by (simp add: cipher_ok_def xchacha20_apply_def)

lemma length_xchacha20_apply: "cipher_ok C \<Longrightarrow> length (xchacha20_apply C k n d) = length d"
  by (simp add: cipher_ok_def xchacha20_apply_def)

lemma PubkeyStore_get_insert [simp]:
  "PubkeyStore_get (PubkeyStore_insert s n k) m = (if m = n then Some k else PubkeyStore_get s m)"
  by (simp add: PubkeyStore_get_def PubkeyStore_insert_def)

end
