(* ===== verification/NonceCache.thy ===== *)
theory NonceCache
  imports WireFormat
begin

text \<open>
  Replay protection, \<^verbatim>\<open>tacticalmesh-wire/src/nonce_cache.rs\<close>: the cache of accepted
  \<open>(src, timestamp, nonce)\<close> triples, the time-window check and the eviction of old entries.
  The interface \<open>replay_guard\<close> states what a client of the cache may rely on over a whole
  sequence of calls; the cache implements it with its time-to-live.
\<close>

definition TIME_WINDOW_MS :: u64 where "TIME_WINDOW_MS = 30000"
definition NONCE_CACHE_TTL_MS :: u64 where "NONCE_CACHE_TTL_MS = 60000"

type_synonym nonce_key = "u8 \<times> u64 \<times> bytes"

record NonceCache =
  seen :: "nonce_key \<rightharpoonup> u64"

definition NonceCache_new :: NonceCache where
  "NonceCache_new = \<lparr>seen = Map.empty\<rparr>"

definition check_and_insert ::
  "NonceCache \<Rightarrow> u8 \<Rightarrow> u64 \<Rightarrow> bytes \<Rightarrow> u64 \<Rightarrow> (FrameError + unit) \<times> NonceCache" where
  "check_and_insert c src ts_ms nonce12 local_time_ms =
     (let diff = abs_diff local_time_ms ts_ms in
      if diff > TIME_WINDOW_MS then (Inl TimeWindowExpired, c)
      else
        let key = (src, ts_ms, nonce12) in
        if seen c key \<noteq> None then (Inl ReplayedNonce, c)
        else
          let kept = retain (\<lambda>_ inserted_at.
                       saturating_sub local_time_ms inserted_at < NONCE_CACHE_TTL_MS) (seen c)
          in (Inr (), c\<lparr>seen := kept(key \<mapsto> local_time_ms)\<rparr>))"

section \<open>The interface\<close>

text \<open>
  \<open>knows c k t\<close>: key \<open>k\<close> is recorded, at time \<open>t\<close> or later. A guard rejects what it knows,
  knows what it has just accepted, and forgets nothing before \<open>ttl\<close> has passed.
\<close>

locale replay_guard =
  fixes check :: "'c \<Rightarrow> 'k \<Rightarrow> u64 \<Rightarrow> (FrameError + unit) \<times> 'c"
    and knows :: "'c \<Rightarrow> 'k \<Rightarrow> u64 \<Rightarrow> bool"
    and ttl :: nat
  assumes known_rejected: "knows c k t0 \<Longrightarrow> fst (check c k t) \<noteq> Inr ()"
    and accept_known: "fst (check c k t) = Inr () \<Longrightarrow> knows (snd (check c k t)) k t"
    and knows_kept: "knows c k t0 \<Longrightarrow> unat t < unat t0 + ttl \<Longrightarrow> knows (snd (check c k' t)) k t0"
begin

definition run :: "'c \<Rightarrow> ('k \<times> u64) list \<Rightarrow> 'c" where
  "run c es = foldl (\<lambda>c (k, t). snd (check c k t)) c es"

lemma run_knows:
  "knows c k t0 \<Longrightarrow> \<forall>(k', t) \<in> set es. unat t < unat t0 + ttl \<Longrightarrow> knows (run c es) k t0"
  by (induction es arbitrary: c) (auto simp: run_def intro: knows_kept)

lemma no_replay:
  assumes "check c k t0 = (Inr (), c')"
    and "\<forall>(k', t) \<in> set es. unat t < unat t0 + ttl"
  shows "fst (check (run c' es) k t1) \<noteq> Inr ()"
  using assms accept_known [of c k t0] run_knows known_rejected by (metis fst_conv snd_conv)

end

section \<open>The cache implements it\<close>

lemmas nonce_consts = TIME_WINDOW_MS_def NONCE_CACHE_TTL_MS_def

definition nonce_check :: "NonceCache \<Rightarrow> nonce_key \<Rightarrow> u64 \<Rightarrow> (FrameError + unit) \<times> NonceCache" where
  "nonce_check c k t = (case k of (src, ts, n) \<Rightarrow> check_and_insert c src ts n t)"

definition nonce_knows :: "NonceCache \<Rightarrow> nonce_key \<Rightarrow> u64 \<Rightarrow> bool" where
  "nonce_knows c k t0 \<longleftrightarrow> (\<exists>t. seen c k = Some t \<and> t0 \<le> t)"

lemma check_accept:
  "check_and_insert c src ts n t = (Inr (), c') \<longleftrightarrow>
     abs_diff t ts \<le> TIME_WINDOW_MS \<and> seen c (src, ts, n) = None \<and>
     c' = c\<lparr>seen := (retain (\<lambda>_ i. saturating_sub t i < NONCE_CACHE_TTL_MS) (seen c))
                      ((src, ts, n) \<mapsto> t)\<rparr>"
  by (auto simp: check_and_insert_def Let_def)

lemma check_reject:
  "check_and_insert c src ts n t = (Inl e, c') \<Longrightarrow>
     c' = c \<and> (e = TimeWindowExpired \<and> TIME_WINDOW_MS < abs_diff t ts
              \<or> e = ReplayedNonce \<and> abs_diff t ts \<le> TIME_WINDOW_MS \<and> seen c (src, ts, n) \<noteq> None)"
  by (auto simp: check_and_insert_def Let_def split: if_splits)

lemma accept_window:
  "check_and_insert c src ts n t = (Inr (), c') \<Longrightarrow>
     unat t \<le> unat ts + 30000 \<and> unat ts \<le> unat t + 30000"
  by (simp add: check_accept abs_diff_le_iff nonce_consts)

interpretation nonce_guard: replay_guard nonce_check nonce_knows "unat NONCE_CACHE_TTL_MS"
proof
  fix c k t0 t
  assume "nonce_knows c k t0"
  then show "fst (nonce_check c k t) \<noteq> Inr ()"
    by (auto simp: nonce_knows_def nonce_check_def check_and_insert_def Let_def split: prod.splits)
next
  fix c k t
  assume "fst (nonce_check c k t) = Inr ()"
  then show "nonce_knows (snd (nonce_check c k t)) k t"
    by (auto simp: nonce_knows_def nonce_check_def check_and_insert_def Let_def split: prod.splits if_splits)
next
  fix c k k' and t0 t :: u64
  assume kn: "nonce_knows c k t0" and less: "unat t < unat t0 + unat NONCE_CACHE_TTL_MS"
  obtain ti where ti: "seen c k = Some ti" "t0 \<le> ti"
    using kn by (auto simp: nonce_knows_def)
  have "unat t - unat ti < unat NONCE_CACHE_TTL_MS"
    using less ti(2) by (auto simp: word_le_nat_alt nonce_consts)
  then have "retain (\<lambda>_ i. saturating_sub t i < NONCE_CACHE_TTL_MS) (seen c) k = Some ti"
    using ti(1) by (simp add: saturating_sub_less_iff)
  then show "nonce_knows (snd (nonce_check c k' t)) k t0"
    using ti by (auto simp: nonce_knows_def nonce_check_def check_and_insert_def Let_def
        split: prod.splits)
qed

section \<open>Invariant of the cache\<close>

text \<open>
  Every recorded triple was accepted inside the time window of its own timestamp, and no entry
  is older than the time-to-live at the moment of the last insertion.
\<close>

definition cache_inv :: "NonceCache \<Rightarrow> bool" where
  "cache_inv c \<longleftrightarrow>
     (\<forall>src ts n t. seen c (src, ts, n) = Some t \<longrightarrow> abs_diff t ts \<le> TIME_WINDOW_MS)"

definition fresh_at :: "NonceCache \<Rightarrow> u64 \<Rightarrow> bool" where
  "fresh_at c now \<longleftrightarrow> (\<forall>k t. seen c k = Some t \<longrightarrow> saturating_sub now t < NONCE_CACHE_TTL_MS)"

lemma cache_inv_new [simp]: "cache_inv NonceCache_new"
  by (simp add: cache_inv_def NonceCache_new_def)

lemma check_inv: "cache_inv c \<Longrightarrow> cache_inv (snd (check_and_insert c src ts n t))"
  by (auto simp: cache_inv_def check_and_insert_def Let_def not_less split: if_splits)

lemma accept_fresh: "check_and_insert c src ts n t = (Inr (), c') \<Longrightarrow> fresh_at c' t"
  by (auto simp: check_accept fresh_at_def saturating_sub_def nonce_consts)

interpretation nonce_machine:
  event_machine "\<lambda>c (k, t). snd (nonce_check c k t)" cache_inv
  by unfold_locales (auto simp: nonce_check_def check_inv split: prod.splits)

section \<open>The cache against a log that forgets nothing\<close>

text \<open>
  The reference answers from the log of all accepted keys with their times, newest first. A key
  still counts when no key was accepted a minute or more after it: \<open>m\<close> is the latest time of the
  entries passed so far.
\<close>

fun logged :: "nat \<Rightarrow> (nonce_key \<times> u64) list \<Rightarrow> nonce_key \<Rightarrow> u64 \<Rightarrow> bool" where
  "logged m [] k t = False"
| "logged m ((k', t') # h) k t \<longleftrightarrow>
     k' = k \<and> t' = t \<and> m < unat t + 60000 \<or> logged (max m (unat t')) h k t"

definition log_answer :: "(nonce_key \<times> u64) list \<Rightarrow> nonce_key \<Rightarrow> u64 \<Rightarrow> FrameError + unit" where
  "log_answer h k now =
     (let ts = fst (snd k) in
      if unat ts + 30000 < unat now \<or> unat now + 30000 < unat ts then Inl TimeWindowExpired
      else if list_ex (\<lambda>(_, t). logged 0 h k t) h then Inl ReplayedNonce
      else Inr ())"

fun log_answers :: "(nonce_key \<times> u64) list \<Rightarrow> (nonce_key \<times> u64) list \<Rightarrow> (FrameError + unit) list" where
  "log_answers h [] = []"
| "log_answers h ((k, now) # es) =
     log_answer h k now # log_answers (if log_answer h k now = Inr () then (k, now) # h else h) es"

fun nonce_answers :: "NonceCache \<Rightarrow> (nonce_key \<times> u64) list \<Rightarrow> (FrameError + unit) list" where
  "nonce_answers c [] = []"
| "nonce_answers c ((k, now) # es) = (case nonce_check c k now of (r, c') \<Rightarrow> r # nonce_answers c' es)"

lemma logged_max: "logged (max m m') h k t \<longleftrightarrow> logged m h k t \<and> m' < unat t + 60000"
proof (induction h arbitrary: m)
  case (Cons e h)
  have "max (max m m') x = max (max m x) m'" for x by simp
  then show ?case using Cons.IH by (cases e) (auto simp del: max.assoc)
qed simp

lemma logged_mem: "logged m h k t \<Longrightarrow> (k, t) \<in> set h"
  by (induction m h k t rule: logged.induct) auto

definition abstracts :: "NonceCache \<Rightarrow> (nonce_key \<times> u64) list \<Rightarrow> bool" where
  "abstracts c h \<longleftrightarrow> (\<forall>k t. seen c k = Some t \<longleftrightarrow> logged 0 h k t)"

lemma abstractsD: "abstracts c h \<Longrightarrow> logged 0 h k t \<longleftrightarrow> seen c k = Some t"
  unfolding abstracts_def by blast

lemma nonce_check_answer:
  assumes "abstracts c h"
  shows "fst (nonce_check c k now) = log_answer h k now"
proof -
  have "list_ex (\<lambda>(_, t). logged 0 h k t) h \<longleftrightarrow> (\<exists>t. logged 0 h k t)"
    unfolding list_ex_iff using logged_mem [of 0 h k] by blast
  then have "list_ex (\<lambda>(_, t). logged 0 h k t) h \<longleftrightarrow> seen c k \<noteq> None"
    by (simp add: abstractsD [OF assms])
  moreover have "TIME_WINDOW_MS < abs_diff now ts \<longleftrightarrow>
      unat ts + 30000 < unat now \<or> unat now + 30000 < unat ts" for ts :: u64
    unfolding not_le [symmetric] abs_diff_le_iff by (auto simp: nonce_consts)
  ultimately show ?thesis
    by (cases k) (simp add: nonce_check_def check_and_insert_def log_answer_def Let_def)
qed

lemma nonce_check_abstracts:
  assumes "abstracts c h" and "nonce_check c k now = (r, c')"
  shows "abstracts c' (if r = Inr () then (k, now) # h else h)"
proof (cases r)
  case (Inl e)
  then show ?thesis using assms by (cases k) (auto simp: nonce_check_def dest: check_reject)
next
  case (Inr u)
  obtain src ts n where k: "k = (src, ts, n)" by (cases k)
  have acc: "seen c k = None"
    "seen c' = (retain (\<lambda>_ i. saturating_sub now i < NONCE_CACHE_TTL_MS) (seen c))(k \<mapsto> now)"
    using assms(2) Inr by (auto simp: nonce_check_def check_accept k)
  have "logged (unat now) h k' t \<longleftrightarrow> seen c k' = Some t \<and> unat now < unat t + 60000" for k' t
    using logged_max [of 0 "unat now" h k' t] by (simp add: abstractsD [OF assms(1)])
  moreover have "saturating_sub now t < NONCE_CACHE_TTL_MS \<longleftrightarrow> unat now < unat t + 60000" for t :: u64
    by (auto simp: saturating_sub_less_iff nonce_consts)
  ultimately have "seen c' k' = Some t \<longleftrightarrow> logged 0 ((k, now) # h) k' t" for k' t
    using acc(1) by (auto simp: acc(2) retain_def split: option.splits)
  then show ?thesis using Inr by (simp add: abstracts_def)
qed

lemma nonce_answers_log: "abstracts c h \<Longrightarrow> nonce_answers c es = log_answers h es"
proof (induction es arbitrary: c h)
  case (Cons e es)
  obtain k now where e: "e = (k, now)" by (cases e)
  obtain r c' where r: "nonce_check c k now = (r, c')" by (cases "nonce_check c k now")
  show ?case
    using Cons.IH [OF nonce_check_abstracts [OF Cons.prems r]] nonce_check_answer [OF Cons.prems, of k now] r
    by (simp add: e)
qed simp

text \<open>
  (C12) What the cache answers, exactly. For every sequence of calls and whatever the clock does,
  the answers are those of the log that keeps everything: a call is refused as expired when its
  timestamp is more than 30 s off, as a replay when its key has been accepted and no call a minute
  or more later has been accepted since, and is accepted otherwise. Dropping the old entries
  changes no other answer.
\<close>

theorem cache_answers_like_log: "nonce_answers NonceCache_new es = log_answers [] es"
  by (rule nonce_answers_log) (simp add: abstracts_def NonceCache_new_def)

end
