(* ===== verification/Fec.thy ===== *)
theory Fec
  imports WireFormat
begin

text \<open>
  Forward error correction, \<^verbatim>\<open>tacticalmesh-wire/src/fec.rs\<close>. The Reed-Solomon crate is a
  parameter: \<open>rs_encode k r originals\<close> makes \<open>r\<close> recovery shards, and
  \<open>rs_decode k r shard_size originals recoveries\<close> stands for creating a decoder, adding the
  provided shards and decoding; its result maps an index to the restored original shard.
  Their errors are strings, as \<^verbatim>\<open>e.to_string()\<close> makes them.
\<close>

type_synonym rs_encoder = "nat \<Rightarrow> nat \<Rightarrow> bytes list \<Rightarrow> string + bytes list"
type_synonym rs_decoder =
  "nat \<Rightarrow> nat \<Rightarrow> nat \<Rightarrow> (nat \<times> bytes) list \<Rightarrow> (nat \<times> bytes) list \<Rightarrow> string + (nat \<rightharpoonup> bytes)"

definition FEC_THRESHOLD_BYTES :: nat where "FEC_THRESHOLD_BYTES = 1024"

fun fec_params :: "Priority \<Rightarrow> nat \<times> nat" where
  "fec_params Emergency = (1, 4)"
| "fec_params Critical = (1, 3)"
| "fec_params High = (1, 2)"
| "fec_params Bulk = (8, 12)"

definition resize :: "'a list \<Rightarrow> nat \<Rightarrow> 'a \<Rightarrow> 'a list" where
  "resize xs n x = take n xs @ replicate (n - length xs) x"

text \<open>\<open>chunks(0)\<close> panics, which an empty payload provokes.\<close>

definition fec_encode ::
  "rs_encoder \<Rightarrow> bytes \<Rightarrow> Priority \<Rightarrow> (FrameError + bytes list) rust" where
  "fec_encode rs_encode data prio =
     (case fec_params prio of (k, n) \<Rightarrow>
        let recovery = n - k;
            shard_size = div_ceil (length data) k;
            padded = resize data (shard_size * k) 0
        in if shard_size = 0 then Panic
           else
             let original_shards = chunks shard_size padded in
             case rs_encode k recovery original_shards of
               Inl e \<Rightarrow> Ret (Inl (FecError e))
             | Inr recovery_shards \<Rightarrow> Ret (Inr (original_shards @ recovery_shards)))"

text \<open>The shards that arrived, split into data shards and recovery shards with their indices.\<close>

definition provided :: "nat \<Rightarrow> bytes option list \<Rightarrow> (nat \<times> bytes) list" where
  "provided i0 shards = List.map_filter (\<lambda>(i, s). map_option (Pair i) s) (enumerate i0 shards)"

definition original_provided :: "nat \<Rightarrow> bytes option list \<Rightarrow> (nat \<times> bytes) list" where
  "original_provided k shards = filter (\<lambda>(i, _). i < k) (provided 0 shards)"

definition recovery_provided :: "nat \<Rightarrow> bytes option list \<Rightarrow> (nat \<times> bytes) list" where
  "recovery_provided k shards =
     map (\<lambda>(i, s). (i - k, s)) (filter (\<lambda>(i, _). \<not> i < k) (provided 0 shards))"

text \<open>The loop over \<open>0..k\<close> that puts the payload together; \<open>shards[i]\<close> panics out of range.\<close>

fun reconstruct ::
  "bytes option list \<Rightarrow> (nat \<rightharpoonup> bytes) \<Rightarrow> nat list \<Rightarrow> bytes \<Rightarrow> (FrameError + bytes) rust" where
  "reconstruct shards restored [] acc = Ret (Inr acc)"
| "reconstruct shards restored (i # is) acc =
     (if length shards \<le> i then Panic
      else case shards ! i of
        Some s \<Rightarrow> reconstruct shards restored is (acc @ s)
      | None \<Rightarrow>
          (case restored i of
             None \<Rightarrow> Ret (Inl (FecError (''shard '' @ show_nat i @ '' not restored'')))
           | Some s \<Rightarrow> reconstruct shards restored is (acc @ s)))"

definition truncate_rust :: "nat \<Rightarrow> (FrameError + bytes) rust \<Rightarrow> (FrameError + bytes) rust" where
  "truncate_rust n r =
     (case r of Panic \<Rightarrow> Panic | Ret (Inl e) \<Rightarrow> Ret (Inl e) | Ret (Inr d) \<Rightarrow> Ret (Inr (take n d)))"

definition fec_decode ::
  "rs_decoder \<Rightarrow> bytes option list \<Rightarrow> nat \<Rightarrow> nat \<Rightarrow> nat \<Rightarrow> (FrameError + bytes) rust" where
  "fec_decode rs_decode shards k n original_len =
     (let recovery = usize_sub n k in
      case somes shards of
        [] \<Rightarrow> Ret (Inl (FecError ''all shards missing''))
      | s0 # _ \<Rightarrow>
          let shard_size = length s0;
              originals = original_provided k shards;
              recoveries = recovery_provided k shards
          in if length originals = k
             then Ret (Inr (take original_len (concat (map snd originals))))
             else case rs_decode k recovery shard_size originals recoveries of
                    Inl e \<Rightarrow> Ret (Inl (FecError e))
                  | Inr restored \<Rightarrow>
                      truncate_rust original_len (reconstruct shards restored [0..<k] []))"

section \<open>Shape of the encoding\<close>

lemma fec_params_bounds:
  "fec_params p = (k, n) \<Longrightarrow> 0 < k \<and> k < n \<and> n \<le> 12"
  by (cases p) auto

lemma length_resize [simp]: "length xs \<le> n \<Longrightarrow> length (resize xs n x) = n"
  by (simp add: resize_def)

lemma take_resize: "length xs \<le> n \<Longrightarrow> take (length xs) (resize xs n x) = xs"
  by (simp add: resize_def)

lemma fec_encode_shape:
  assumes "fec_params p = (k, n)" and "fec_encode enc data p = Ret (Inr shards)"
  defines "sz \<equiv> div_ceil (length data) k"
  shows "0 < sz" and "length (take k shards) = k"
    and "\<forall>s \<in> set (take k shards). length s = sz"
    and "take (length data) (concat (take k shards)) = data"
    and "enc k (n - k) (take k shards) = Inr (drop k shards)"
proof -
  let ?padded = "resize data (sz * k) 0"
  have k: "0 < k" using fec_params_bounds [OF assms(1)] by simp
  have le: "length data \<le> sz * k" unfolding sz_def using k by (rule div_ceil_mult)
  from assms(1,2) show sz: "0 < sz"
    by (auto simp: fec_encode_def sz_def Let_def split: if_splits)
  from assms(1,2) sz obtain rec where
    enc: "enc k (n - k) (chunks sz ?padded) = Inr rec" and shards: "shards = chunks sz ?padded @ rec"
    by (auto simp: fec_encode_def sz_def [symmetric] Let_def split: sum.splits)
  have "length ?padded = sz * k" using le by simp
  from chunks_exact [OF sz this] have len: "length (chunks sz ?padded) = k"
    and all: "\<forall>c \<in> set (chunks sz ?padded). length c = sz" by auto
  then have tk: "take k shards = chunks sz ?padded" and dr: "drop k shards = rec"
    using shards by auto
  show "length (take k shards) = k" and "\<forall>s \<in> set (take k shards). length s = sz"
    using tk len all by auto
  show "take (length data) (concat (take k shards)) = data"
    using tk le sz by (simp add: concat_chunks take_resize)
  show "enc k (n - k) (take k shards) = Inr (drop k shards)"
    using tk dr enc by simp
qed

section \<open>Decoding\<close>

lemma map_snd_provided: "map snd (provided i0 shards) = somes shards"
  by (induction shards arbitrary: i0 rule: somes.induct)
    (auto simp: provided_def enumerate_simps)

lemma provided_append:
  "provided i (xs @ ys) = provided i xs @ provided (i + length xs) ys"
  by (induction xs arbitrary: i) (auto simp: provided_def enumerate_simps split: option.splits)

lemma fst_provided: "(j, s) \<in> set (provided i shards) \<Longrightarrow> i \<le> j \<and> j < i + length shards"
  by (induction shards arbitrary: i)
    (fastforce simp: provided_def enumerate_simps split: option.splits)+

lemma original_provided_take:
  assumes "k \<le> length shards"
  shows "original_provided k shards = provided 0 (take k shards)"
proof -
  have "provided 0 shards = provided 0 (take k shards) @ provided k (drop k shards)"
    using provided_append [of 0 "take k shards" "drop k shards"] assms by simp
  moreover have "filter (\<lambda>(i, _). i < k) (provided 0 (take k shards)) = provided 0 (take k shards)"
    using fst_provided [of _ _ 0 "take k shards"] by (fastforce simp: filter_id_conv)
  moreover have "filter (\<lambda>(i, _). i < k) (provided k (drop k shards)) = []"
    using fst_provided [of _ _ k "drop k shards"] by (fastforce simp: filter_empty_conv)
  ultimately show ?thesis by (simp add: original_provided_def)
qed

text \<open>The reconstruction loop, when every missing data shard is restored.\<close>

lemma reconstruct_ok:
  assumes "\<forall>i \<in> set is. i < length shards \<and>
      (shards ! i = Some (orig i) \<or> shards ! i = None \<and> restored i = Some (orig i))"
  shows "reconstruct shards restored is acc = Ret (Inr (acc @ concat (map orig is)))"
  using assms by (induction "is" arbitrary: acc) auto

text \<open>
  What a decoder owes the caller: given the encoder's shards with at least \<open>k\<close> of them
  present, it restores every missing data shard.
\<close>

definition rs_restores :: "rs_encoder \<Rightarrow> rs_decoder \<Rightarrow> bool" where
  "rs_restores enc dec \<longleftrightarrow>
     (\<forall>k r os rs shards sz.
        enc k r os = Inr rs \<and> length os = k \<and> (\<forall>s \<in> set os. length s = sz)
        \<and> length shards = length (os @ rs)
        \<and> (\<forall>i < length shards. shards ! i = None \<or> shards ! i = Some ((os @ rs) ! i))
        \<and> k \<le> length (somes shards) \<longrightarrow>
        (\<exists>m. dec k r sz (original_provided k shards) (recovery_provided k shards) = Inr m
           \<and> (\<forall>i < k. shards ! i = None \<longrightarrow> m i = Some (os ! i))))"

text \<open>The encoder makes as many recovery shards as asked, all of the size of the originals.\<close>

definition rs_encodes :: "rs_encoder \<Rightarrow> bool" where
  "rs_encodes enc \<longleftrightarrow>
     (\<forall>k r os rs sz. enc k r os = Inr rs \<and> (\<forall>s \<in> set os. length s = sz) \<longrightarrow>
        length rs = r \<and> (\<forall>s \<in> set rs. length s = sz))"

text \<open>A received block: some shards of the encoding are lost, the others arrive unchanged.\<close>

definition received :: "bytes list \<Rightarrow> bytes option list \<Rightarrow> bool" where
  "received all shards \<longleftrightarrow> length shards = length all
     \<and> (\<forall>i < length shards. shards ! i = None \<or> shards ! i = Some (all ! i))"

lemma receivedD:
  "received all shards \<Longrightarrow> i < length shards \<Longrightarrow> shards ! i = None \<or> shards ! i = Some (all ! i)"
  by (simp add: received_def)

lemma received_all: "received all (map Some all)"
  by (simp add: received_def)

lemma received_set: "received all shards \<Longrightarrow> Some s \<in> set shards \<Longrightarrow> s \<in> set all"
  by (auto simp: received_def in_set_conv_nth) (metis nth_mem option.distinct(1) option.inject)

lemma decode_direct:
  assumes k: "k \<le> length shards" and all: "received all shards"
    and full: "length (original_provided k shards) = k"
  shows "concat (map snd (original_provided k shards)) = concat (take k all)"
proof -
  have len: "length (somes (take k shards)) = k"
    using full k by (metis original_provided_take map_snd_provided length_map)
  then have full_take: "take k shards = map Some (somes (take k shards))"
    using k by (intro somes_full) simp
  have "somes (take k shards) = take k all"
  proof (rule nth_equalityI)
    show "length (somes (take k shards)) = length (take k all)"
      using len k all by (simp add: received_def)
  next
    fix i assume "i < length (somes (take k shards))"
    then have i: "i < k" using len by simp
    then have "shards ! i = Some (somes (take k shards) ! i)"
      using full_take len by (metis nth_map nth_take)
    then show "somes (take k shards) ! i = take k all ! i"
      using receivedD [OF all, of i] i k by simp
  qed
  then show ?thesis
    using k by (simp add: original_provided_take map_snd_provided)
qed

lemma decode_restored:
  assumes k: "length (take k all) = k" and all: "received all shards"
    and m: "\<forall>i < k. shards ! i = None \<longrightarrow> m i = Some (take k all ! i)"
  shows "reconstruct shards m [0..<k] [] = Ret (Inr (concat (take k all)))"
proof -
  have "reconstruct shards m [0..<k] [] = Ret (Inr ([] @ concat (map ((!) (take k all)) [0..<k])))"
  proof (rule reconstruct_ok, rule ballI)
    fix i assume "i \<in> set [0..<k]"
    then have i: "i < k" by simp
    moreover have "k \<le> length shards" using k all by (simp add: received_def)
    ultimately show "i < length shards \<and> (shards ! i = Some (take k all ! i)
        \<or> shards ! i = None \<and> m i = Some (take k all ! i))"
      using receivedD [OF all, of i] m by auto
  qed
  also have "map ((!) (take k all)) [0..<k] = take k all"
    using k by (metis map_nth)
  finally show ?thesis by simp
qed

lemma fec_decode_encode:
  assumes p: "fec_params p = (k, n)" and e: "fec_encode enc data p = Ret (Inr all)"
    and enc: "rs_encodes enc" and dec: "rs_restores enc dec"
    and recv: "received all shards" and enough: "k \<le> length (somes shards)"
  shows "fec_decode dec shards k n (length data) = Ret (Inr data)"
proof -
  define sz where "sz = div_ceil (length data) k"
  note shape = fec_encode_shape [OF p e, folded sz_def]
  have kn: "0 < k" "k \<le> n" "n < 2 ^ 64" using fec_params_bounds [OF p] by auto
  have rec: "length (drop k all) = n - k" "\<forall>s \<in> set (drop k all). length s = sz"
    using enc shape(3,5) unfolding rs_encodes_def by blast+
  have sizes: "\<forall>s \<in> set all. length s = sz"
    using shape(3) rec(2) by (metis Un_iff append_take_drop_id set_append)
  obtain s0 rest where s0: "somes shards = s0 # rest"
    using enough kn(1) by (cases "somes shards") auto
  then have "Some s0 \<in> set shards" by (metis list.set_intros(1) set_somes)
  then have "length s0 = sz" using received_set [OF recv] sizes by blast
  moreover have "k \<le> length shards" using shape(2) recv by (auto simp: received_def)
  note direct = decode_direct [OF this recv]
  moreover obtain m where
    "dec k (n - k) sz (original_provided k shards) (recovery_provided k shards) = Inr m"
    and m: "\<forall>i < k. shards ! i = None \<longrightarrow> m i = Some (take k all ! i)"
    using dec shape(2,3,5) recv enough unfolding rs_restores_def received_def
    by (metis append_take_drop_id)
  ultimately show ?thesis
    using s0 decode_restored [OF shape(2) recv m] shape(4) usize_sub_le [OF kn(2,3)]
    by (simp add: fec_decode_def Let_def truncate_rust_def)
qed

end
