(* ===== verification/Frame.thy ===== *)
theory Frame
  imports Crypto NonceCache Fec
begin

text \<open>
  Frames, \<^verbatim>\<open>tacticalmesh-wire/src/frame.rs\<close>: building a frame (routed header, authentication
  header, signature, ciphertext), building the shards of a large payload, and
  \<^verbatim>\<open>parse_and_verify_frame\<close>, which checks length, headers, signature, replay and payload hash in
  that order and returns the new state of the nonce cache with its result. The clock and the
  random bytes of a nonce are arguments.
\<close>

definition MIN_FRAME_LEN :: nat where
  "MIN_FRAME_LEN = ROUTED_HEADER_LEN + AUTH_HEADER_LEN + SIG_LEN"

record ParsedFrame =
  routed :: RoutedHeader
  auth :: AuthHeader
  plaintext :: bytes
  pf_rssi_dbm :: i8

section \<open>Building frames\<close>

definition assemble_frame :: "RoutedHeader \<Rightarrow> bytes \<Rightarrow> bytes \<Rightarrow> bytes \<Rightarrow> bytes" where
  "assemble_frame r auth_bytes sig ciphertext =
     RoutedHeader_to_bytes r @ auth_bytes @ sig @ ciphertext"

definition build_frame_inner ::
  "crypto \<Rightarrow> u64 \<Rightarrow> bytes \<Rightarrow> TacticalMessage \<Rightarrow> Priority \<Rightarrow> u8 \<Rightarrow> Identity \<Rightarrow> u8 \<Rightarrow> u8 \<Rightarrow> bytes" where
  "build_frame_inner C now_ms random msg prio dst i last_hop hops =
     (let (nonce24, stored_nonce) = build_nonce random (id_node i) now_ms;
          phash = payload_hash12 C (payload msg);
          (k, n) = (if length (payload msg) > FEC_THRESHOLD_BYTES
                    then (case fec_params prio of (k, n) \<Rightarrow> (of_nat k, of_nat n))
                    else (1, 1));
          a = \<lparr>src_node = id_node i, dst_node = dst, msg_kind = kind msg, priority = prio,
               timestamp_ms = now_ms, nonce = stored_nonce, payload_hash = phash,
               auth_epoch = 0, payload_len = of_nat (length (payload msg)),
               fec_index = 0, fec_k = k, fec_n = n, fec_block_id = 0\<rparr>;
          auth_bytes = AuthHeader_to_bytes a;
          sig = sign_auth C auth_bytes i;
          ciphertext = xchacha20_apply C (id_session_key i) nonce24 (payload msg);
          r = \<lparr>last_hop_id = last_hop, hops_taken = hops, flags = 0, reserved = 0\<rparr>
      in assemble_frame r auth_bytes sig ciphertext)"

definition build_frame ::
  "crypto \<Rightarrow> u64 \<Rightarrow> bytes \<Rightarrow> TacticalMessage \<Rightarrow> Priority \<Rightarrow> u8 \<Rightarrow> Identity \<Rightarrow> bytes" where
  "build_frame C now_ms random msg prio dst i =
     build_frame_inner C now_ms random msg prio dst i (id_node i) 0"

definition build_frame_for_route ::
  "crypto \<Rightarrow> u64 \<Rightarrow> bytes \<Rightarrow> TacticalMessage \<Rightarrow> Priority \<Rightarrow> u8 \<Rightarrow> Identity \<Rightarrow> u8 \<Rightarrow> bytes" where
  "build_frame_for_route C now_ms random msg prio dst i next_hop =
     build_frame_inner C now_ms random msg prio dst i next_hop 0"

definition build_frame_for_rebroadcast ::
  "crypto \<Rightarrow> u64 \<Rightarrow> bytes \<Rightarrow> TacticalMessage \<Rightarrow> Priority \<Rightarrow> Identity \<Rightarrow> u8 \<Rightarrow> bytes" where
  "build_frame_for_rebroadcast C now_ms random msg prio i hops =
     build_frame_inner C now_ms random msg prio BROADCAST i (id_node i) hops"

text \<open>The frame of shard number \<open>idx\<close>; \<open>random\<close> gives the random bytes of each shard's nonce.\<close>

definition shard_frame ::
  "crypto \<Rightarrow> u64 \<Rightarrow> bytes \<Rightarrow> u8 \<Rightarrow> TacticalMessage \<Rightarrow> Priority \<Rightarrow> u8 \<Rightarrow> Identity
    \<Rightarrow> nat \<times> nat \<Rightarrow> nat \<Rightarrow> bytes \<Rightarrow> bytes" where
  "shard_frame C base_ts random block_id msg prio dst i kn idx shard =
     (let (nonce24, stored_nonce) = build_nonce random (id_node i) base_ts;
          a = \<lparr>src_node = id_node i, dst_node = dst, msg_kind = kind msg, priority = prio,
               timestamp_ms = base_ts, nonce = stored_nonce,
               payload_hash = payload_hash12 C shard,
               auth_epoch = 0, payload_len = of_nat (length shard),
               fec_index = of_nat idx, fec_k = of_nat (fst kn), fec_n = of_nat (snd kn),
               fec_block_id = block_id\<rparr>;
          auth_bytes = AuthHeader_to_bytes a;
          sig = sign_auth C auth_bytes i;
          ciphertext = xchacha20_apply C (id_session_key i) nonce24 shard;
          r = \<lparr>last_hop_id = id_node i, hops_taken = 0, flags = 0, reserved = 0\<rparr>
      in assemble_frame r auth_bytes sig ciphertext)"

text \<open>An error of the encoder hits the \<^verbatim>\<open>expect\<close> in the source.\<close>

definition build_frames ::
  "crypto \<Rightarrow> rs_encoder \<Rightarrow> u64 \<Rightarrow> (nat \<Rightarrow> bytes) \<Rightarrow> u8 \<Rightarrow> TacticalMessage \<Rightarrow> Priority \<Rightarrow> u8
    \<Rightarrow> Identity \<Rightarrow> bytes list rust" where
  "build_frames C rs_encode now_ms random block_id msg prio dst i =
     (if length (payload msg) \<le> FEC_THRESHOLD_BYTES
      then Ret [build_frame C now_ms (random 0) msg prio dst i]
      else case fec_encode rs_encode (payload msg) prio of
             Panic \<Rightarrow> Panic
           | Ret (Inl e) \<Rightarrow> Panic
           | Ret (Inr shards) \<Rightarrow>
               Ret (map (\<lambda>(idx, shard). shard_frame C now_ms (random idx) block_id msg prio dst i
                                          (fec_params prio) idx shard)
                        (enumerate 0 shards)))"

section \<open>Parsing and verifying\<close>

definition parse_and_verify_frame ::
  "crypto \<Rightarrow> bytes \<Rightarrow> PubkeyStore \<Rightarrow> NonceCache \<Rightarrow> u64 \<Rightarrow> bytes
    \<Rightarrow> (FrameError + ParsedFrame) \<times> NonceCache" where
  "parse_and_verify_frame C raw known_pubkeys cache local_time_ms key =
     (if length raw < MIN_FRAME_LEN then (Inl TruncatedFrame, cache)
      else case RoutedHeader_from_bytes (take ROUTED_HEADER_LEN raw) of
        Inl e \<Rightarrow> (Inl e, cache)
      | Inr r \<Rightarrow>
        (let auth_start = ROUTED_HEADER_LEN;
             auth_end = auth_start + AUTH_HEADER_LEN;
             auth_bytes = slice auth_start AUTH_HEADER_LEN raw in
         case AuthHeader_from_bytes auth_bytes of
           Inl e \<Rightarrow> (Inl e, cache)
         | Inr a \<Rightarrow>
           (let sig_end = auth_end + SIG_LEN;
                sig_bytes = slice auth_end SIG_LEN raw in
            case PubkeyStore_get known_pubkeys (src_node a) of
              None \<Rightarrow> (Inl BadSignature, cache)
            | Some vk \<Rightarrow>
              (case verify_auth C auth_bytes sig_bytes vk of
                 Inl e \<Rightarrow> (Inl e, cache)
               | Inr _ \<Rightarrow>
                 (case check_and_insert cache (src_node a) (timestamp_ms a) (nonce a)
                         local_time_ms of
                    (Inl e, cache') \<Rightarrow> (Inl e, cache')
                  | (Inr _, cache') \<Rightarrow>
                    (let nonce24 = nonce24_from_stored (nonce a);
                         pt = xchacha20_apply C key nonce24 (drop sig_end raw) in
                     if payload_hash12 C pt \<noteq> payload_hash a then (Inl DecryptFailed, cache')
                     else (Inr \<lparr>routed = r, auth = a, plaintext = pt, pf_rssi_dbm = 0\<rparr>,
                           cache')))))))"

section \<open>Frame layout\<close>

lemmas frame_len_defs = MIN_FRAME_LEN_def SIG_LEN_def header_len_defs

text \<open>A frame in the exact layout that the parser takes apart.\<close>

lemma assemble_slices:
  assumes "length ab = 44" and "length sg = 64" and "raw = assemble_frame r ab sg ct"
  shows "length raw = MIN_FRAME_LEN + length ct" and "take ROUTED_HEADER_LEN raw = RoutedHeader_to_bytes r"
    and "slice ROUTED_HEADER_LEN AUTH_HEADER_LEN raw = ab"
    and "slice (ROUTED_HEADER_LEN + AUTH_HEADER_LEN) SIG_LEN raw = sg"
    and "drop (ROUTED_HEADER_LEN + AUTH_HEADER_LEN + SIG_LEN) raw = ct"
  using assms
  by (simp_all add: assemble_frame_def slice_def frame_len_defs RoutedHeader_to_bytes_def)

text \<open>Parsing a well-formed assembled frame comes down to the checks on its parts.\<close>

lemma parse_assembled:
  assumes wf: "AuthHeader_wf a" and sg: "length sg = 64"
  shows "parse_and_verify_frame C (assemble_frame r (AuthHeader_to_bytes a) sg ct) ks cache now key =
    (case PubkeyStore_get ks (src_node a) of
       None \<Rightarrow> (Inl BadSignature, cache)
     | Some vk \<Rightarrow>
       if \<not> ed_verify C vk (AuthHeader_to_bytes a) sg then (Inl BadSignature, cache)
       else case check_and_insert cache (src_node a) (timestamp_ms a) (nonce a) now of
              (Inl e, cache') \<Rightarrow> (Inl e, cache')
            | (Inr _, cache') \<Rightarrow>
                (let pt = xchacha20_apply C key (nonce24_from_stored (nonce a)) ct in
                 if payload_hash12 C pt \<noteq> payload_hash a then (Inl DecryptFailed, cache')
                 else (Inr \<lparr>routed = r, auth = a, plaintext = pt, pf_rssi_dbm = 0\<rparr>, cache')))"
proof -
  have len: "length (AuthHeader_to_bytes a) = 44"
    using length_AuthHeader_to_bytes [OF wf] by (simp add: header_len_defs)
  note parts = assemble_slices [OF len sg refl]
  show ?thesis
    using routed_codec.dec_enc_exact [of r] auth_codec.dec_enc_exact [OF wf]
    by (simp add: parse_and_verify_frame_def parts Let_def verify_auth_def
        split: option.splits prod.splits sum.splits)
qed

lemma parse_other_routed:
  assumes "AuthHeader_wf a" and "length sg = 64"
    and "parse_and_verify_frame C (assemble_frame r (AuthHeader_to_bytes a) sg ct) ks cache now key = (Inr f, c')"
  shows "parse_and_verify_frame C (assemble_frame r' (AuthHeader_to_bytes a) sg ct) ks cache now key
           = (Inr (f\<lparr>routed := r'\<rparr>), c')"
  using assms(3)
  by (auto simp: parse_assembled [OF assms(1,2)] Let_def
      split: option.splits if_splits prod.splits sum.splits)

text \<open>Every raw frame of sufficient length with readable headers is an assembled one.\<close>

lemma raw_assembled:
  assumes "MIN_FRAME_LEN \<le> length raw"
    and "AuthHeader_from_bytes (slice ROUTED_HEADER_LEN AUTH_HEADER_LEN raw) = Inr a"
  obtains r sg ct where "raw = assemble_frame r (AuthHeader_to_bytes a) sg ct"
    and "length sg = 64" and "AuthHeader_wf a"
proof -
  have len: "112 \<le> length raw" using assms(1) by (simp add: frame_len_defs)
  then obtain r where r: "RoutedHeader_from_bytes (take ROUTED_HEADER_LEN raw) = Inr r"
    by (auto simp: RoutedHeader_from_bytes_def header_len_defs)
  then have "RoutedHeader_to_bytes r = take 4 raw"
    using routed_codec.enc_dec [OF r] by (simp add: header_len_defs)
  moreover have "AuthHeader_to_bytes a = slice 4 44 raw" and wf: "AuthHeader_wf a"
    using auth_codec.enc_dec [OF assms(2)] len by (simp_all add: header_len_defs slice_def)
  moreover have "raw = take 4 raw @ slice 4 44 raw @ slice 48 64 raw @ drop 112 raw"
    using take_slice [of 4 44 raw] take_slice [of 48 64 raw]
    by simp (metis append_assoc append_take_drop_id)
  ultimately have "raw = assemble_frame r (AuthHeader_to_bytes a) (slice 48 64 raw) (drop 112 raw)"
    by (simp add: assemble_frame_def)
  then show thesis
    using that wf len by (simp add: slice_def)
qed

section \<open>Built frames\<close>

text \<open>The authentication header that \<open>build_frame_inner\<close> signs.\<close>

definition frame_auth ::
  "crypto \<Rightarrow> u64 \<Rightarrow> bytes \<Rightarrow> TacticalMessage \<Rightarrow> Priority \<Rightarrow> u8 \<Rightarrow> Identity \<Rightarrow> AuthHeader" where
  "frame_auth C now random msg prio dst i =
     \<lparr>src_node = id_node i, dst_node = dst, msg_kind = kind msg, priority = prio,
      timestamp_ms = now, nonce = snd (build_nonce random (id_node i) now),
      payload_hash = payload_hash12 C (payload msg),
      auth_epoch = 0, payload_len = of_nat (length (payload msg)), fec_index = 0,
      fec_k = (if FEC_THRESHOLD_BYTES < length (payload msg) then of_nat (fst (fec_params prio)) else 1),
      fec_n = (if FEC_THRESHOLD_BYTES < length (payload msg) then of_nat (snd (fec_params prio)) else 1),
      fec_block_id = 0\<rparr>"

definition frame_routed :: "u8 \<Rightarrow> u8 \<Rightarrow> RoutedHeader" where
  "frame_routed last_hop hops = \<lparr>last_hop_id = last_hop, hops_taken = hops, flags = 0, reserved = 0\<rparr>"

lemma build_frame_inner_eq:
  "build_frame_inner C now random msg prio dst i last_hop hops =
     assemble_frame (frame_routed last_hop hops)
       (AuthHeader_to_bytes (frame_auth C now random msg prio dst i))
       (sign_auth C (AuthHeader_to_bytes (frame_auth C now random msg prio dst i)) i)
       (xchacha20_apply C (id_session_key i) (fst (build_nonce random (id_node i) now)) (payload msg))"
  by (simp add: build_frame_inner_def frame_auth_def frame_routed_def Let_def split: prod.splits)

lemma frame_auth_wf:
  "hash_len_ok C \<Longrightarrow> length random = 5 \<Longrightarrow> AuthHeader_wf (frame_auth C now random msg prio dst i)"
  by (simp add: AuthHeader_wf_def frame_auth_def build_nonce_stored length_payload_hash12)

lemma frame_auth_simps [simp]:
  "src_node (frame_auth C now random msg prio dst i) = id_node i"
  "dst_node (frame_auth C now random msg prio dst i) = dst"
  "msg_kind (frame_auth C now random msg prio dst i) = kind msg"
  "priority (frame_auth C now random msg prio dst i) = prio"
  "timestamp_ms (frame_auth C now random msg prio dst i) = now"
  "nonce (frame_auth C now random msg prio dst i) = snd (build_nonce random (id_node i) now)"
  "payload_hash (frame_auth C now random msg prio dst i) = payload_hash12 C (payload msg)"
  by (simp_all add: frame_auth_def)

text \<open>The crates behave as documented, and the sender's key is the one that is registered.\<close>

definition crypto_ok :: "crypto \<Rightarrow> bool" where
  "crypto_ok C \<longleftrightarrow> hash_len_ok C \<and> sig_len_ok C \<and> sign_verify_ok C \<and> cipher_ok C"

definition registered :: "crypto \<Rightarrow> PubkeyStore \<Rightarrow> Identity \<Rightarrow> bool" where
  "registered C ks i \<longleftrightarrow> Identity_wf C i \<and> PubkeyStore_get ks (id_node i) = Some (verifying_key i)"

lemma crypto_okD:
  assumes "crypto_ok C"
  shows "hash_len_ok C" "sig_len_ok C" "sign_verify_ok C" "cipher_ok C"
  using assms by (simp_all add: crypto_ok_def)

lemma own_frame_built:
  "own_frame n (build_frame_inner C t random msg prio dst i last_hop hops) \<longleftrightarrow> n = id_node i"
  by (auto simp: own_frame_def build_frame_inner_eq assemble_frame_def RoutedHeader_to_bytes_def
      AuthHeader_to_bytes_def SRC_NODE_OFFSET_def nth_append)

lemma length_sign_auth: "sig_len_ok C \<Longrightarrow> length (sign_auth C m i) = 64"
  by (simp add: sig_len_ok_def sign_auth_def)

lemma length_build_frame_inner:
  assumes "crypto_ok C" and "length random = 5"
  shows "length (build_frame_inner C now random msg prio dst i last_hop hops)
           = MIN_FRAME_LEN + length (payload msg)"
  using assms frame_auth_wf [of C random] length_AuthHeader_to_bytes crypto_okD [OF assms(1)]
  by (simp add: build_frame_inner_eq assemble_frame_def length_sign_auth length_xchacha20_apply
      frame_len_defs)

lemma parse_built:
  assumes C: "crypto_ok C" and reg: "registered C ks i" and rnd: "length random = 5"
    and fresh: "check_and_insert cache (id_node i) t (snd (build_nonce random (id_node i) t)) now
                  = (Inr (), cache')"
  shows "parse_and_verify_frame C (build_frame_inner C t random msg prio dst i last_hop hops)
           ks cache now (id_session_key i) =
         (Inr \<lparr>routed = frame_routed last_hop hops, auth = frame_auth C t random msg prio dst i,
               plaintext = payload msg, pf_rssi_dbm = 0\<rparr>, cache')"
proof -
  let ?a = "frame_auth C t random msg prio dst i"
  note ok = crypto_okD [OF C]
  have "ed_verify C (verifying_key i) (AuthHeader_to_bytes ?a) (sign_auth C (AuthHeader_to_bytes ?a) i)"
    using ok(3) reg by (simp add: sign_verify_ok_def sign_auth_def registered_def Identity_wf_def)
  then show ?thesis
    unfolding build_frame_inner_eq parse_assembled [OF frame_auth_wf [OF ok(1) rnd] length_sign_auth [OF ok(2)]]
    using reg fresh ok(4) build_nonce_stored(2) [OF rnd]
    by (simp add: registered_def Let_def xchacha20_apply_twice)
qed

section \<open>What acceptance means\<close>

text \<open>The result of a parse is either an error that leaves the cache alone, or one cache call.\<close>

definition frame_key :: "AuthHeader \<Rightarrow> nonce_key" where
  "frame_key a = (src_node a, timestamp_ms a, nonce a)"

lemma parse_cases:
  obtains (early) e where "parse_and_verify_frame C raw ks cache now key = (Inl e, cache)"
      and "e = TruncatedFrame \<or> e = BadSignature"
    | (checked) a vk e where "PubkeyStore_get ks (src_node a) = Some vk"
      and "AuthHeader_from_bytes (slice ROUTED_HEADER_LEN AUTH_HEADER_LEN raw) = Inr a"
      and "ed_verify C vk (slice ROUTED_HEADER_LEN AUTH_HEADER_LEN raw)
             (slice (ROUTED_HEADER_LEN + AUTH_HEADER_LEN) SIG_LEN raw)"
      and "nonce_check cache (frame_key a) now = (Inl e, snd (parse_and_verify_frame C raw ks cache now key))"
      and "fst (parse_and_verify_frame C raw ks cache now key) = Inl e"
    | (decrypted) a vk r pt where "PubkeyStore_get ks (src_node a) = Some vk"
      and "AuthHeader_from_bytes (slice ROUTED_HEADER_LEN AUTH_HEADER_LEN raw) = Inr a"
      and "ed_verify C vk (slice ROUTED_HEADER_LEN AUTH_HEADER_LEN raw)
             (slice (ROUTED_HEADER_LEN + AUTH_HEADER_LEN) SIG_LEN raw)"
      and "nonce_check cache (frame_key a) now = (Inr (), snd (parse_and_verify_frame C raw ks cache now key))"
      and "pt = xchacha20_apply C key (nonce24_from_stored (nonce a)) (drop MIN_FRAME_LEN raw)"
      and "RoutedHeader_from_bytes (take ROUTED_HEADER_LEN raw) = Inr r"
      and "fst (parse_and_verify_frame C raw ks cache now key) =
             (if payload_hash12 C pt = payload_hash a
              then Inr \<lparr>routed = r, auth = a, plaintext = pt, pf_rssi_dbm = 0\<rparr>
              else Inl DecryptFailed)"
proof (cases "MIN_FRAME_LEN \<le> length raw")
  case False
  then show thesis by (intro early) (auto simp: parse_and_verify_frame_def)
next
  case long: True
  then obtain r where r: "RoutedHeader_from_bytes (take ROUTED_HEADER_LEN raw) = Inr r"
    by (auto simp: RoutedHeader_from_bytes_def frame_len_defs)
  let ?ab = "slice ROUTED_HEADER_LEN AUTH_HEADER_LEN raw"
  let ?sg = "slice (ROUTED_HEADER_LEN + AUTH_HEADER_LEN) SIG_LEN raw"
  show thesis
  proof (cases "AuthHeader_from_bytes ?ab")
    case (Inl e)
    then have "e = TruncatedFrame"
      by (auto simp: AuthHeader_from_bytes_def split: if_splits option.splits)
    with long r Inl show thesis
      by (intro early) (auto simp: parse_and_verify_frame_def Let_def)
  next
    case a: (Inr a)
    show thesis
    proof (cases "PubkeyStore_get ks (src_node a)")
      case None
      with long r a show thesis
        by (intro early) (auto simp: parse_and_verify_frame_def Let_def)
    next
      case vk: (Some vk)
      show thesis
      proof (cases "ed_verify C vk ?ab ?sg")
        case False
        with long r a vk show thesis
          by (intro early) (auto simp: parse_and_verify_frame_def Let_def verify_auth_def)
      next
        case sig: True
        obtain res cache' where chk: "nonce_check cache (frame_key a) now = (res, cache')"
          by fastforce
        note eqs = long r a vk sig chk [unfolded nonce_check_def frame_key_def, simplified]
        show thesis
        proof (cases res)
          case (Inl e)
          with eqs show thesis
            by (intro checked [of a vk e]) (simp_all add: chk parse_and_verify_frame_def Let_def verify_auth_def)
        next
          case (Inr u)
          with eqs show thesis
            by (intro decrypted [of a vk _ r, OF _ _ _ _ refl])
              (simp_all add: chk parse_and_verify_frame_def Let_def verify_auth_def MIN_FRAME_LEN_def)
        qed
      qed
    qed
  qed
qed

lemma parse_accept_all:
  assumes "parse_and_verify_frame C raw ks cache now key = (Inr f, cache')"
  shows "(\<exists>vk. PubkeyStore_get ks (src_node (auth f)) = Some vk
      \<and> ed_verify C vk (slice 4 44 raw) (slice 48 64 raw))
    \<and> AuthHeader_to_bytes (auth f) = slice 4 44 raw
    \<and> nonce_check cache (frame_key (auth f)) now = (Inr (), cache')
    \<and> plaintext f = xchacha20_apply C key (nonce24_from_stored (nonce (auth f))) (drop 112 raw)
    \<and> payload_hash12 C (plaintext f) = payload_hash (auth f)
    \<and> RoutedHeader_to_bytes (routed f) = take 4 raw"
proof (cases rule: parse_cases [of C raw ks cache now key])
  case (decrypted a vk r pt)
  with assms have "f = \<lparr>routed = r, auth = a, plaintext = pt, pf_rssi_dbm = 0\<rparr>"
    and "payload_hash12 C pt = payload_hash a"
    by (auto split: if_splits)
  moreover have "length (slice 4 44 raw) = 44"
    using decrypted(2) by (auto simp: AuthHeader_from_bytes_def header_len_defs slice_def split: if_splits)
  ultimately show ?thesis
    using decrypted assms auth_codec.enc_dec [OF decrypted(2)] routed_codec.enc_dec [OF decrypted(6)]
    by (auto simp: frame_len_defs)
qed (use assms in auto)

lemma parse_accept:
  assumes "parse_and_verify_frame C raw ks cache now key = (Inr f, cache')"
  shows "\<exists>vk. PubkeyStore_get ks (src_node (auth f)) = Some vk
      \<and> ed_verify C vk (slice 4 44 raw) (slice 48 64 raw)"
    and "AuthHeader_to_bytes (auth f) = slice 4 44 raw"
    and "nonce_check cache (frame_key (auth f)) now = (Inr (), cache')"
    and "payload_hash12 C (plaintext f) = payload_hash (auth f)"
  using parse_accept_all [OF assms] by blast+

lemma frame_auth_any_wf:
  assumes "hash_len_ok C"
  shows "AuthHeader_wf (frame_auth C t random msg prio dst i)"
  using assms by (simp add: AuthHeader_wf_def frame_auth_def build_nonce_def length_payload_hash12 Let_def)

lemma accepted_auth_wf:
  "parse_and_verify_frame C raw ks cache now key = (Inr f, cache') \<Longrightarrow> AuthHeader_wf (auth f)"
  by (cases rule: parse_cases [of C raw ks cache now key])
    (auto dest: auth_codec.enc_dec simp: Let_def split: if_splits)

text \<open>Any two receivers that accept the same bytes read the same headers, those of the builder.\<close>

lemma accepted_headers:
  assumes "parse_and_verify_frame C raw ks cache now key = (Inr f, c)"
    and "parse_and_verify_frame C raw ks' cache' now' key' = (Inr f', c')"
  shows "auth f' = auth f" and "routed f' = routed f"
  using auth_codec.enc_inj [OF accepted_auth_wf [OF assms(2)] accepted_auth_wf [OF assms(1)]]
    routed_codec.enc_inj [of "routed f'" "routed f"]
    parse_accept_all [OF assms(1)] parse_accept_all [OF assms(2)] by simp_all

lemma accepted_built:
  assumes "hash_len_ok C"
    and "parse_and_verify_frame C (build_frame_inner C t random msg prio dst i last_hop hops) ks cache now key
           = (Inr f, c)"
  shows "auth f = frame_auth C t random msg prio dst i" and "routed f = frame_routed last_hop hops"
proof -
  let ?a = "frame_auth C t random msg prio dst i" and ?r = "frame_routed last_hop hops"
  note acc = parse_accept_all [OF assms(2)]
  have len: "length (AuthHeader_to_bytes ?a) = 44" "length (RoutedHeader_to_bytes ?r) = 4"
    using length_AuthHeader_to_bytes [OF frame_auth_any_wf [OF assms(1), of t random msg prio dst i]]
    by (simp_all add: header_len_defs RoutedHeader_to_bytes_def)
  then have "AuthHeader_to_bytes (auth f) = AuthHeader_to_bytes ?a"
    and "RoutedHeader_to_bytes (routed f) = RoutedHeader_to_bytes ?r"
    using acc by (simp_all add: build_frame_inner_eq assemble_frame_def slice_def)
  then show "auth f = ?a" "routed f = ?r"
    using auth_codec.enc_inj [OF accepted_auth_wf [OF assms(2)] frame_auth_any_wf [OF assms(1)]]
      routed_codec.enc_inj [of "routed f" ?r] by simp_all
qed

text \<open>Processing a sequence of received frames, each at its local time.\<close>

definition parse_run ::
  "crypto \<Rightarrow> PubkeyStore \<Rightarrow> bytes \<Rightarrow> NonceCache \<Rightarrow> (bytes \<times> u64) list \<Rightarrow> NonceCache" where
  "parse_run C ks key cache es =
     foldl (\<lambda>c (raw, t). snd (parse_and_verify_frame C raw ks c t key)) cache es"

lemma parse_knows_kept:
  assumes "nonce_knows cache k t0" and "unat now < unat t0 + 60000"
  shows "nonce_knows (snd (parse_and_verify_frame C raw ks cache now key)) k t0"
proof (cases rule: parse_cases [of C raw ks cache now key])
  case (checked a vk e)
  then show ?thesis
    using nonce_guard.knows_kept [OF assms(1), of now "frame_key a"] assms(2) by (simp add: nonce_consts)
next
  case (decrypted a vk r pt)
  then show ?thesis
    using nonce_guard.knows_kept [OF assms(1), of now "frame_key a"] assms(2) by (simp add: nonce_consts)
qed (use assms in auto)

lemma parse_run_knows:
  "nonce_knows cache k t0 \<Longrightarrow> \<forall>(raw, t) \<in> set es. unat t < unat t0 + 60000 \<Longrightarrow>
     nonce_knows (parse_run C ks key cache es) k t0"
  by (induction es arbitrary: cache) (auto simp: parse_run_def intro: parse_knows_kept)

lemma accept_knows:
  assumes "parse_and_verify_frame C raw ks cache now key = (Inr f, cache')"
  shows "nonce_knows cache' (frame_key (auth f)) now"
  using parse_accept(3) [OF assms] nonce_guard.accept_known [of cache "frame_key (auth f)" now] by simp

lemma known_not_accepted:
  assumes "nonce_knows cache (frame_key (auth f)) t0"
  shows "parse_and_verify_frame C raw ks cache now key \<noteq> (Inr f, cache')"
  using nonce_guard.known_rejected [OF assms, of now] parse_accept(3) by (metis fst_conv)

lemma accept_in_window:
  assumes "parse_and_verify_frame C raw ks cache now key = (Inr f, cache')"
  shows "unat now \<le> unat (timestamp_ms (auth f)) + 30000"
    and "unat (timestamp_ms (auth f)) \<le> unat now + 30000"
  using parse_accept(3) [OF assms] accept_window by (simp_all add: nonce_check_def frame_key_def)

section \<open>Properties\<close>

text \<open>
  (C1) A frame that a node builds for any message, priority and destination is accepted by every
  receiver that has the node's key and the session key, as long as the receiver's clock is
  within 30 s and the nonce is new to it; the receiver gets the payload, the addresses, the
  kind and the priority that were sent.
\<close>

theorem build_parse_roundtrip:
  assumes "crypto_ok C" and "registered C ks i" and "length random = 5"
    and "unat now \<le> unat t + 30000" and "unat t \<le> unat now + 30000"
    and "seen cache (id_node i, t, snd (build_nonce random (id_node i) t)) = None"
  shows "\<exists>f cache'. parse_and_verify_frame C (build_frame C t random msg prio dst i) ks cache now
                      (id_session_key i) = (Inr f, cache')
    \<and> plaintext f = payload msg \<and> src_node (auth f) = id_node i \<and> dst_node (auth f) = dst
    \<and> msg_kind (auth f) = kind msg \<and> priority (auth f) = prio
    \<and> last_hop_id (routed f) = id_node i \<and> hops_taken (routed f) = 0"
proof -
  have "abs_diff now t \<le> TIME_WINDOW_MS"
    using assms(4,5) by (simp add: abs_diff_le_iff nonce_consts)
  then obtain cache' where
    "check_and_insert cache (id_node i) t (snd (build_nonce random (id_node i) t)) now = (Inr (), cache')"
    using assms(6) by (simp add: check_accept)
  from parse_built [OF assms(1-3) this] show ?thesis
    by (simp add: build_frame_def frame_routed_def)
qed

text \<open>
  (C15) Authenticity of what is accepted: the signature in the frame verifies, under the key
  registered for the claimed source, over exactly the header bytes that the result reports; the
  payload hashes to the value in that signed header; and the timestamp is within 30 s.
\<close>

theorem accepted_frame_authentic:
  assumes "parse_and_verify_frame C raw ks cache now key = (Inr f, cache')"
  shows "\<exists>vk. PubkeyStore_get ks (src_node (auth f)) = Some vk
     \<and> ed_verify C vk (AuthHeader_to_bytes (auth f)) (slice 48 64 raw)
     \<and> payload_hash12 C (plaintext f) = payload_hash (auth f)
     \<and> unat now \<le> unat (timestamp_ms (auth f)) + 30000
     \<and> unat (timestamp_ms (auth f)) \<le> unat now + 30000"
  using parse_accept [OF assms] accept_in_window [OF assms] by auto

text \<open>
  (C14) Replay protection over a whole run: after a frame has been accepted at local time \<open>t0\<close>
  and any other frames have been processed at local times between \<open>t0\<close> and \<open>t1\<close>, a frame with
  the same source, timestamp and nonce can be accepted at \<open>t1\<close> only if \<open>t1\<close> is exactly 60 s
  after \<open>t0\<close> and the frame's timestamp lies exactly in the middle.
\<close>

theorem replay_only_at_boundary:
  assumes "parse_and_verify_frame C raw ks cache t0 key = (Inr f, cache0)"
    and "\<forall>(raw', t) \<in> set es. t0 \<le> t \<and> t \<le> t1"
    and "parse_and_verify_frame C raw1 ks (parse_run C ks key cache0 es) t1 key = (Inr f1, cache1)"
    and "frame_key (auth f1) = frame_key (auth f)"
  shows "unat t1 = unat t0 + 60000 \<and> unat (timestamp_ms (auth f)) = unat t0 + 30000"
proof -
  have "\<not> unat t1 < unat t0 + 60000"
  proof
    assume t1: "unat t1 < unat t0 + 60000"
    have "\<forall>(raw', t) \<in> set es. unat t < unat t0 + 60000"
      using assms(2) t1 by (auto simp: word_le_nat_alt)
    from parse_run_knows [OF accept_knows [OF assms(1)] this, of C ks key]
    show False
      using known_not_accepted assms(3,4) by metis
  qed
  moreover have "timestamp_ms (auth f1) = timestamp_ms (auth f)"
    using assms(4) by (simp add: frame_key_def)
  ultimately show ?thesis
    using accept_in_window [OF assms(1)] accept_in_window [OF assms(3)] by simp
qed

text \<open>
  The routed header is not authenticated: replacing it in an accepted frame by any other
  four bytes gives a frame that is accepted with the same authentication header and payload,
  and whatever hop count and last hop the new bytes say.
\<close>

theorem routed_header_unauthenticated:
  assumes "parse_and_verify_frame C raw ks cache now key = (Inr f, cache')"
  shows "parse_and_verify_frame C (RoutedHeader_to_bytes r @ drop 4 raw) ks cache now key
           = (Inr (f\<lparr>routed := r\<rparr>), cache')"
proof -
  obtain r0 sg ct where raw: "raw = assemble_frame r0 (AuthHeader_to_bytes (auth f)) sg ct"
    and sg: "length sg = 64" and wf: "AuthHeader_wf (auth f)"
  proof (cases rule: parse_cases [of C raw ks cache now key])
    case (decrypted a vk r pt)
    have "MIN_FRAME_LEN \<le> length raw"
      using assms by (auto simp: parse_and_verify_frame_def not_less split: if_splits)
    moreover have "auth f = a"
      using decrypted(7) assms by (auto split: if_splits)
    ultimately show thesis
      using raw_assembled decrypted(2) that by metis
  qed (use assms in auto)
  then have "RoutedHeader_to_bytes r @ drop 4 raw = assemble_frame r (AuthHeader_to_bytes (auth f)) sg ct"
    by (simp add: assemble_frame_def RoutedHeader_to_bytes_def)
  then show ?thesis
    using parse_other_routed [OF wf sg] assms unfolding raw by simp
qed

text \<open>
  (C35) The ciphertext is covered by the signature only through the hash that is checked last:
  a copy of a valid frame with a corrupted ciphertext is rejected with \<open>DecryptFailed\<close>, but its
  nonce has been recorded, and the intact frame that arrives afterwards is dropped as a replay.
\<close>

theorem corrupted_copy_blocks_original:
  assumes "crypto_ok C" and "registered C ks i" and "length random = 5"
    and "check_and_insert cache (id_node i) t (snd (build_nonce random (id_node i) t)) now = (Inr (), c1)"
    and "payload_hash12 C (xchacha20_apply C (id_session_key i)
           (nonce24_from_stored (snd (build_nonce random (id_node i) t))) ct) \<noteq> payload_hash12 C (payload msg)"
  shows "parse_and_verify_frame C (take MIN_FRAME_LEN (build_frame C t random msg prio dst i) @ ct)
             ks cache now (id_session_key i) = (Inl DecryptFailed, c1)
    \<and> parse_and_verify_frame C (build_frame C t random msg prio dst i) ks c1 now (id_session_key i)
        = (Inl ReplayedNonce, c1)"
proof -
  let ?a = "frame_auth C t random msg prio dst i"
  note ok = crypto_okD [OF assms(1)] and wf = frame_auth_wf [OF crypto_okD(1) [OF assms(1)] assms(3)]
  have sg: "length (sign_auth C (AuthHeader_to_bytes ?a) i) = 64"
    using ok(2) by (rule length_sign_auth)
  have ver: "ed_verify C (verifying_key i) (AuthHeader_to_bytes ?a) (sign_auth C (AuthHeader_to_bytes ?a) i)"
    using ok(3) assms(2) by (simp add: sign_verify_ok_def sign_auth_def registered_def Identity_wf_def)
  have "take MIN_FRAME_LEN (build_frame C t random msg prio dst i) @ ct =
      assemble_frame (frame_routed (id_node i) 0) (AuthHeader_to_bytes ?a)
        (sign_auth C (AuthHeader_to_bytes ?a) i) ct"
    using length_AuthHeader_to_bytes [OF wf, of t msg prio dst i] sg
    by (simp add: build_frame_def build_frame_inner_eq assemble_frame_def frame_len_defs)
  then have forged: "parse_and_verify_frame C (take MIN_FRAME_LEN (build_frame C t random msg prio dst i) @ ct)
      ks cache now (id_session_key i) = (Inl DecryptFailed, c1)"
    using assms(2,4,5) ver by (simp add: parse_assembled [OF wf sg] registered_def Let_def)
  have "check_and_insert c1 (id_node i) t (snd (build_nonce random (id_node i) t)) now = (Inl ReplayedNonce, c1)"
    using assms(4) unfolding check_accept by (auto simp: check_and_insert_def Let_def)
  then show ?thesis
    using forged assms(2) ver
    by (simp add: build_frame_def build_frame_inner_eq parse_assembled [OF wf sg] registered_def)
qed

text \<open>
  Replay at the boundary. The bound of the previous theorem is reached: a triple accepted
  30 s before its timestamp is accepted a second time 30 s after it, when another frame handled
  at that same millisecond has evicted the first entry.
\<close>

theorem replay_accepted_at_boundary:
  "\<exists>c1 c2 c3. check_and_insert NonceCache_new 1 30000 n 0 = (Inr (), c1)
     \<and> check_and_insert c1 2 60000 n 60000 = (Inr (), c2)
     \<and> check_and_insert c2 1 30000 n 60000 = (Inr (), c3)"
  by (simp add: check_accept NonceCache_new_def abs_diff_le_iff nonce_consts saturating_sub_def
      retain_def)

text \<open>
  The link layer drops a node's own frames by the byte at \<open>SRC_NODE_OFFSET\<close>, and the frame
  layout puts the source node there: no frame a node builds, forwards or rebroadcasts enters its
  own receive channel, and any other node's reader sees the sender's identifier at that offset.
\<close>

theorem own_frames_filtered:
  "own_frame (id_node i) (build_frame_inner C t random msg prio dst i last_hop hops)
   \<and> (own_frame n (build_frame_inner C t random msg prio dst i last_hop hops) \<longleftrightarrow> n = id_node i)
   \<and> reader_deliver (id_node i) allowed chan
       \<lparr>frame_data = build_frame_inner C t random msg prio dst i last_hop hops,
        frame_rssi_dbm = rssi, frame_stream_id = sid, frame_seq = sq\<rparr> = chan"
  by (simp add: reader_deliver_def own_frame_built)

section \<open>Witnesses\<close>

text \<open>A concrete instance of the cryptographic parameter, with the documented behaviour.\<close>

definition demo_crypto :: crypto where
  "demo_crypto =
     \<lparr>blake3 = (\<lambda>d. take 32 (d @ replicate 32 0)),
      ed_public = (\<lambda>k. k),
      ed_sign = (\<lambda>k m. take 64 (k @ m @ replicate 64 0)),
      ed_verify = (\<lambda>k m s. s = take 64 (k @ m @ replicate 64 0)),
      xchacha20 = (\<lambda>k n d. map (xor 90) d)\<rparr>"

definition demo_id :: Identity where
  "demo_id = Identity_from_parts demo_crypto 1 (replicate 32 7) (replicate 32 9)"

definition demo_keys :: PubkeyStore where
  "demo_keys = PubkeyStore_insert PubkeyStore_new 1 (verifying_key demo_id)"

definition demo_msg :: TacticalMessage where
  "demo_msg = \<lparr>kind = Data, payload = [104, 105]\<rparr>"

lemma demo_crypto_ok: "crypto_ok demo_crypto"
proof -
  have "xor 90 (xor 90 b) = b" for b :: u8
    by (simp flip: xor.assoc)
  then show ?thesis
    by (auto simp: crypto_ok_def hash_len_ok_def sig_len_ok_def sign_verify_ok_def cipher_ok_def
        demo_crypto_def map_idI min_def)
qed

lemma demo_registered: "registered demo_crypto demo_keys demo_id"
  by (simp add: registered_def demo_keys_def demo_id_def Identity_from_parts_def Identity_wf_def)

lemma demo_id_simps [simp]:
  "id_node demo_id = 1" "id_session_key demo_id = replicate 32 9"
  by (simp_all add: demo_id_def Identity_from_parts_def)

theorem build_parse_roundtrip_witness:
  "\<exists>f cache'. parse_and_verify_frame demo_crypto
       (build_frame demo_crypto 1000 [1, 2, 3, 4, 5] demo_msg High BROADCAST demo_id)
       demo_keys NonceCache_new 2000 (replicate 32 9) = (Inr f, cache') \<and> plaintext f = [104, 105]"
  using build_parse_roundtrip [OF demo_crypto_ok demo_registered, of "[1, 2, 3, 4, 5]" 2000 1000
      NonceCache_new demo_msg High BROADCAST]
  by (auto simp: NonceCache_new_def demo_msg_def)

text \<open>A demonstration frame, and what its receiver makes of it.\<close>

definition demo_nonce :: "u64 \<Rightarrow> bytes" where
  "demo_nonce t = snd (build_nonce [1, 2, 3, 4, 5] 1 t)"

definition demo_frame :: "u64 \<Rightarrow> bytes" where
  "demo_frame t = build_frame demo_crypto t [1, 2, 3, 4, 5] demo_msg High BROADCAST demo_id"

definition demo_parsed :: "u64 \<Rightarrow> ParsedFrame" where
  "demo_parsed t =
     \<lparr>routed = frame_routed 1 0,
      auth = frame_auth demo_crypto t [1, 2, 3, 4, 5] demo_msg High BROADCAST demo_id,
      plaintext = [104, 105], pf_rssi_dbm = 0\<rparr>"

lemma demo_parse:
  assumes "check_and_insert cache 1 t (demo_nonce t) now = (Inr (), cache')"
  shows "parse_and_verify_frame demo_crypto (demo_frame t) demo_keys cache now (replicate 32 9)
           = (Inr (demo_parsed t), cache')"
  using parse_built [OF demo_crypto_ok demo_registered, of "[1, 2, 3, 4, 5]" cache t now cache' demo_msg
      High BROADCAST 1 0] assms
  by (simp add: demo_frame_def demo_parsed_def demo_nonce_def build_frame_def demo_msg_def)

lemma demo_parsed_simps [simp]:
  "frame_key (auth (demo_parsed t)) = (1, t, demo_nonce t)"
  "timestamp_ms (auth (demo_parsed t)) = t" "src_node (auth (demo_parsed t)) = 1"
  by (simp_all add: demo_parsed_def frame_key_def demo_nonce_def)

lemmas demo_cache_simps = check_accept NonceCache_new_def abs_diff_le_iff nonce_consts
  saturating_sub_def retain_def

lemma demo_accept:
  obtains c where "parse_and_verify_frame demo_crypto (demo_frame 1000) demo_keys NonceCache_new 2000
    (replicate 32 9) = (Inr (demo_parsed 1000), c)"
  using demo_parse [of NonceCache_new 1000 2000] by (auto simp: demo_cache_simps)

theorem accepted_frame_authentic_witness:
  "\<exists>vk. PubkeyStore_get demo_keys 1 = Some vk
     \<and> ed_verify demo_crypto vk (AuthHeader_to_bytes (auth (demo_parsed 1000)))
         (slice 48 64 (demo_frame 1000))"
proof (rule demo_accept)
  fix c
  assume "parse_and_verify_frame demo_crypto (demo_frame 1000) demo_keys NonceCache_new 2000
    (replicate 32 9) = (Inr (demo_parsed 1000), c)"
  from accepted_frame_authentic [OF this] show ?thesis by auto
qed

theorem routed_header_unauthenticated_witness:
  "\<exists>c. parse_and_verify_frame demo_crypto
         (RoutedHeader_to_bytes (frame_routed 77 200) @ drop 4 (demo_frame 1000))
         demo_keys NonceCache_new 2000 (replicate 32 9)
       = (Inr ((demo_parsed 1000)\<lparr>routed := frame_routed 77 200\<rparr>), c)"
proof (rule demo_accept)
  fix c
  assume "parse_and_verify_frame demo_crypto (demo_frame 1000) demo_keys NonceCache_new 2000
    (replicate 32 9) = (Inr (demo_parsed 1000), c)"
  from routed_header_unauthenticated [OF this] show ?thesis by blast
qed

theorem corrupted_copy_blocks_original_witness:
  "\<exists>c. parse_and_verify_frame demo_crypto (take MIN_FRAME_LEN (demo_frame 1000) @ [0, 0])
         demo_keys NonceCache_new 2000 (replicate 32 9) = (Inl DecryptFailed, c)
     \<and> parse_and_verify_frame demo_crypto (demo_frame 1000) demo_keys c 2000 (replicate 32 9)
         = (Inl ReplayedNonce, c)"
proof -
  obtain c where c: "check_and_insert NonceCache_new 1 1000 (demo_nonce 1000) 2000 = (Inr (), c)"
    by (simp add: demo_cache_simps)
  have "payload_hash12 demo_crypto (xchacha20_apply demo_crypto k n [0, 0])
      \<noteq> payload_hash12 demo_crypto (payload demo_msg)" for k n
    by (simp add: payload_hash12_def xchacha20_apply_def demo_crypto_def demo_msg_def)
  then show ?thesis
    using corrupted_copy_blocks_original [OF demo_crypto_ok demo_registered,
        of "[1, 2, 3, 4, 5]" NonceCache_new 1000 2000 c "[0, 0]" demo_msg High BROADCAST] c
    by (auto simp: demo_frame_def demo_nonce_def)
qed

text \<open>
  The bound of the replay theorem is attained by real frames: the frame stamped 30000 is accepted
  at local time 0, one stamped 60000 is handled at 60000, and then the first is accepted again.
\<close>

theorem replay_only_at_boundary_witness:
  "\<exists>c0 c1. parse_and_verify_frame demo_crypto (demo_frame 30000) demo_keys NonceCache_new 0
         (replicate 32 9) = (Inr (demo_parsed 30000), c0)
     \<and> parse_and_verify_frame demo_crypto (demo_frame 30000) demo_keys
         (parse_run demo_crypto demo_keys (replicate 32 9) c0 [(demo_frame 60000, 60000)]) 60000
         (replicate 32 9) = (Inr (demo_parsed 30000), c1)
     \<and> unat (60000 :: u64) = unat (0 :: u64) + 60000"
proof -
  obtain c0 where c0: "check_and_insert NonceCache_new 1 30000 (demo_nonce 30000) 0 = (Inr (), c0)"
    by (simp add: demo_cache_simps)
  moreover obtain c where c: "check_and_insert c0 1 60000 (demo_nonce 60000) 60000 = (Inr (), c)"
    using c0 by (simp add: demo_cache_simps)
  moreover obtain c1 where "check_and_insert c 1 30000 (demo_nonce 30000) 60000 = (Inr (), c1)"
    using c0 c by (simp add: demo_cache_simps)
  ultimately have run: "parse_and_verify_frame demo_crypto (demo_frame 30000) demo_keys NonceCache_new 0
         (replicate 32 9) = (Inr (demo_parsed 30000), c0)"
      "parse_and_verify_frame demo_crypto (demo_frame 30000) demo_keys
         (parse_run demo_crypto demo_keys (replicate 32 9) c0 [(demo_frame 60000, 60000)]) 60000
         (replicate 32 9) = (Inr (demo_parsed 30000), c1)"
    by (simp_all add: parse_run_def demo_parse)
  have "unat (60000 :: u64) = unat (0 :: u64) + 60000"
    using replay_only_at_boundary [OF run(1) _ run(2)] by simp
  with run show ?thesis by blast
qed

end
