(* ===== verification/FecFrames.thy ===== *)
theory FecFrames
  imports Frame
begin

text \<open>
  The frames of a large payload, \<^verbatim>\<open>build_frames\<close> of \<^verbatim>\<open>tacticalmesh-wire/src/frame.rs\<close>: one
  signed frame per shard, and what a receiver can rebuild from the frames that reach it.
\<close>

section \<open>A shard's frame\<close>

definition shard_auth ::
  "crypto \<Rightarrow> u64 \<Rightarrow> bytes \<Rightarrow> u8 \<Rightarrow> TacticalMessage \<Rightarrow> Priority \<Rightarrow> u8 \<Rightarrow> Identity
    \<Rightarrow> nat \<times> nat \<Rightarrow> nat \<Rightarrow> bytes \<Rightarrow> AuthHeader" where
  "shard_auth C t random block_id msg prio dst i kn idx shard =
     \<lparr>src_node = id_node i, dst_node = dst, msg_kind = kind msg, priority = prio,
      timestamp_ms = t, nonce = snd (build_nonce random (id_node i) t),
      payload_hash = payload_hash12 C shard,
      auth_epoch = 0, payload_len = of_nat (length shard),
      fec_index = of_nat idx, fec_k = of_nat (fst kn), fec_n = of_nat (snd kn),
      fec_block_id = block_id\<rparr>"

lemma shard_frame_eq:
  "shard_frame C t random block_id msg prio dst i kn idx shard =
     assemble_frame (frame_routed (id_node i) 0)
       (AuthHeader_to_bytes (shard_auth C t random block_id msg prio dst i kn idx shard))
       (sign_auth C (AuthHeader_to_bytes (shard_auth C t random block_id msg prio dst i kn idx shard)) i)
       (xchacha20_apply C (id_session_key i) (fst (build_nonce random (id_node i) t)) shard)"
  by (simp add: shard_frame_def shard_auth_def frame_routed_def Let_def split: prod.splits)

lemma shard_auth_wf:
  "hash_len_ok C \<Longrightarrow> length random = 5 \<Longrightarrow>
     AuthHeader_wf (shard_auth C t random block_id msg prio dst i kn idx shard)"
  by (simp add: AuthHeader_wf_def shard_auth_def build_nonce_stored length_payload_hash12)

lemma parse_shard:
  assumes C: "crypto_ok C" and reg: "registered C ks i" and rnd: "length random = 5"
    and fresh: "check_and_insert cache (id_node i) t (snd (build_nonce random (id_node i) t)) now
                  = (Inr (), cache')"
  shows "parse_and_verify_frame C (shard_frame C t random block_id msg prio dst i kn idx shard)
           ks cache now (id_session_key i) =
         (Inr \<lparr>routed = frame_routed (id_node i) 0,
               auth = shard_auth C t random block_id msg prio dst i kn idx shard,
               plaintext = shard, pf_rssi_dbm = 0\<rparr>, cache')"
proof -
  let ?a = "shard_auth C t random block_id msg prio dst i kn idx shard"
  note ok = crypto_okD [OF C]
  have "ed_verify C (verifying_key i) (AuthHeader_to_bytes ?a) (sign_auth C (AuthHeader_to_bytes ?a) i)"
    using ok(3) reg by (simp add: sign_verify_ok_def sign_auth_def registered_def Identity_wf_def)
  moreover have "src_node ?a = id_node i" "timestamp_ms ?a = t" "payload_hash ?a = payload_hash12 C shard"
    "nonce ?a = snd (build_nonce random (id_node i) t)"
    by (simp_all add: shard_auth_def)
  ultimately show ?thesis
    unfolding shard_frame_eq parse_assembled [OF shard_auth_wf [OF ok(1) rnd] length_sign_auth [OF ok(2)]]
    using reg fresh ok(4) build_nonce_stored(2) [OF rnd]
    by (simp add: registered_def Let_def xchacha20_apply_twice)
qed

lemma build_frames_large:
  assumes "FEC_THRESHOLD_BYTES < length (payload msg)"
    and "build_frames C enc t random block_id msg prio dst i = Ret frames"
  obtains shards where "fec_encode enc (payload msg) prio = Ret (Inr shards)"
    and "length frames = length shards"
    and "\<And>idx. idx < length shards \<Longrightarrow>
       frames ! idx = shard_frame C t (random idx) block_id msg prio dst i (fec_params prio) idx (shards ! idx)"
  using assms
  by (auto simp: build_frames_def nth_enumerate_eq split: rust.splits sum.splits)

lemma length_fec_encode:
  assumes "fec_encode enc data p = Ret (Inr shards)" and "rs_encodes enc"
  shows "length shards = snd (fec_params p)"
proof -
  obtain k n where p: "fec_params p = (k, n)" by fastforce
  note shape = fec_encode_shape [OF p assms(1)]
  have "length (drop k shards) = n - k"
    using assms(2) shape(3,5) unfolding rs_encodes_def by blast
  then show ?thesis
    using shape(2) fec_params_bounds [OF p] p by (simp add: min_def split: if_splits)
qed

section \<open>Properties\<close>

text \<open>
  (C23) Loss tolerance of a large message. Each of the \<open>n\<close> frames built for it is accepted by
  itself, whichever of the others arrive, and yields its own shard with its index and the
  block's parameters; and any \<open>k\<close> of the \<open>n\<close> shards decode to the payload that was sent.
\<close>

theorem build_frames_loss_tolerant:
  assumes "crypto_ok C" and "registered C ks i" and "\<And>j. length (random j) = 5"
    and "rs_encodes enc" and "rs_restores enc dec"
    and "FEC_THRESHOLD_BYTES < length (payload msg)"
    and "build_frames C enc t random block_id msg prio dst i = Ret frames"
  shows "\<exists>shards. length frames = snd (fec_params prio) \<and> length shards = length frames
     \<and> (\<forall>idx < length frames. \<forall>cache cache' now.
          check_and_insert cache (id_node i) t (snd (build_nonce (random idx) (id_node i) t)) now
            = (Inr (), cache') \<longrightarrow>
          (\<exists>f. parse_and_verify_frame C (frames ! idx) ks cache now (id_session_key i) = (Inr f, cache')
             \<and> plaintext f = shards ! idx \<and> unat (fec_index (auth f)) = idx
             \<and> unat (fec_k (auth f)) = fst (fec_params prio)
             \<and> unat (fec_n (auth f)) = snd (fec_params prio)
             \<and> fec_block_id (auth f) = block_id))
     \<and> (\<forall>arrived. received shards arrived \<and> fst (fec_params prio) \<le> length (somes arrived) \<longrightarrow>
          fec_decode dec arrived (fst (fec_params prio)) (snd (fec_params prio)) (length (payload msg))
            = Ret (Inr (payload msg)))"
proof -
  obtain shards where enc: "fec_encode enc (payload msg) prio = Ret (Inr shards)"
    and len: "length frames = length shards"
    and frames: "\<And>idx. idx < length shards \<Longrightarrow>
       frames ! idx = shard_frame C t (random idx) block_id msg prio dst i (fec_params prio) idx (shards ! idx)"
    using build_frames_large [OF assms(6,7)] by blast
  note n = length_fec_encode [OF enc assms(4)]
  have small: "idx < length shards \<Longrightarrow> idx < 256" "fst (fec_params prio) < 256" "snd (fec_params prio) < 256" for idx
    using n by (cases prio; simp)+
  have "\<exists>f. parse_and_verify_frame C (frames ! idx) ks cache now (id_session_key i) = (Inr f, cache')
      \<and> plaintext f = shards ! idx \<and> unat (fec_index (auth f)) = idx
      \<and> unat (fec_k (auth f)) = fst (fec_params prio) \<and> unat (fec_n (auth f)) = snd (fec_params prio)
      \<and> fec_block_id (auth f) = block_id"
    if "idx < length frames" and fresh:
      "check_and_insert cache (id_node i) t (snd (build_nonce (random idx) (id_node i) t)) now = (Inr (), cache')"
    for idx cache cache' now
    using that(1) small len
    by (simp add: frames parse_shard [OF assms(1,2,3) fresh] shard_auth_def unat_of_nat_small)
  moreover have "fec_decode dec arrived (fst (fec_params prio)) (snd (fec_params prio)) (length (payload msg))
        = Ret (Inr (payload msg))"
    if "received shards arrived" "fst (fec_params prio) \<le> length (somes arrived)" for arrived
    using fec_decode_encode [OF prod.collapse [symmetric] enc assms(4,5) that] .
  ultimately show ?thesis
    using n len by (intro exI [of _ shards]) simp
qed

text \<open>
  The documentation of the Reed-Solomon crate requires shards of even length; its encoder
  reports an error for any other.
\<close>

definition rs_even_only :: "rs_encoder \<Rightarrow> bool" where
  "rs_even_only enc \<longleftrightarrow>
     (\<forall>k r os. (\<exists>s \<in> set os. odd (length s)) \<longrightarrow> (\<exists>e. enc k r os = Inl e))"

text \<open>
  (C37) \<open>build_frames\<close> pads to a multiple of the number of shards but not to the even shard length
  that the crate requires: a payload above the threshold whose shards have odd length makes it
  panic at its \<open>expect\<close>.
\<close>

theorem build_frames_odd_shard_panics:
  assumes "rs_even_only enc" and "FEC_THRESHOLD_BYTES < length (payload msg)"
    and "odd (div_ceil (length (payload msg)) (fst (fec_params prio)))"
  shows "build_frames C enc t random block_id msg prio dst i = Panic"
proof (cases "build_frames C enc t random block_id msg prio dst i")
  case (Ret frames)
  obtain k n where p: "fec_params prio = (k, n)" by fastforce
  from build_frames_large [OF assms(2) Ret] obtain shards
    where "fec_encode enc (payload msg) prio = Ret (Inr shards)" by blast
  note shape = fec_encode_shape [OF p this]
  have "take k shards \<noteq> []" using shape(2) fec_params_bounds [OF p] by auto
  then have "\<exists>s \<in> set (take k shards). odd (length s)"
    using shape(3) assms(3) p by (metis fst_conv list.set_intros(1) neq_Nil_conv)
  then show ?thesis
    using assms(1) shape(5) unfolding rs_even_only_def by (metis sum.distinct(1))
qed

section \<open>Witnesses\<close>

text \<open>
  With one data shard, the recovery shards can be copies of it; the instance below is such a
  code, and refuses other parameters and odd lengths.
\<close>

definition demo_encode :: rs_encoder where
  "demo_encode k r os =
     (if k = 1 \<and> (\<forall>s \<in> set os. even (length s)) then
        (case os of [s] \<Rightarrow> Inr (replicate r s) | _ \<Rightarrow> Inl ''shards'')
      else Inl ''parameters'')"

definition demo_decode :: rs_decoder where
  "demo_decode k r sz originals recoveries =
     (case originals @ recoveries of
        [] \<Rightarrow> Inl ''not enough shards''
      | (_, s) # _ \<Rightarrow> Inr (\<lambda>i. Some s))"

lemma demo_encode_Inr:
  "demo_encode k r os = Inr rs \<Longrightarrow> k = 1 \<and> (\<exists>s. os = [s] \<and> rs = replicate r s)"
  by (auto simp: demo_encode_def split: if_splits list.splits)

lemma demo_rs_encodes: "rs_encodes demo_encode"
  by (auto simp: rs_encodes_def dest!: demo_encode_Inr)

lemma set_provided: "(j, s) \<in> set (provided i shards) \<Longrightarrow> Some s \<in> set shards"
  by (induction shards arbitrary: i)
    (auto simp: provided_def enumerate_simps split: option.splits)

lemma demo_rs_restores: "rs_restores demo_encode demo_decode"
  unfolding rs_restores_def
proof (intro allI impI, elim conjE)
  fix k r os rs shards sz
  assume enc: "demo_encode k r os = Inr rs" and len: "length shards = length (os @ rs)"
    and arr: "\<forall>i < length shards. shards ! i = None \<or> shards ! i = Some ((os @ rs) ! i)"
    and enough: "k \<le> length (somes shards)"
  from demo_encode_Inr [OF enc] obtain s where k: "k = 1" "os = [s]" "rs = replicate r s" by blast
  have only: "Some s' \<in> set shards \<Longrightarrow> s' = s" for s'
    using arr len k by (auto simp: in_set_conv_nth nth_Cons' split: if_splits)
  let ?l = "original_provided k shards @ recovery_provided k shards"
  have "provided 0 shards \<noteq> []"
    using enough k by (metis map_snd_provided length_map list.size(3) not_one_le_zero)
  then have "?l \<noteq> []"
    by (cases "provided 0 shards") (auto simp: original_provided_def recovery_provided_def)
  then obtain j s' l where l: "?l = (j, s') # l" by (metis neq_Nil_conv surj_pair)
  then have "(j, s') \<in> set ?l" by simp
  then have "s' = s"
    by (intro only) (auto simp: original_provided_def recovery_provided_def dest: set_provided)
  with l k show "\<exists>m. demo_decode k r sz (original_provided k shards) (recovery_provided k shards) = Inr m
      \<and> (\<forall>i < k. shards ! i = None \<longrightarrow> m i = Some (os ! i))"
    by (simp add: demo_decode_def)
qed

definition demo_large :: "nat \<Rightarrow> TacticalMessage" where
  "demo_large n = \<lparr>kind = Data, payload = replicate n 5\<rparr>"

lemma demo_large_simps [simp]: "payload (demo_large n) = replicate n 5"
  by (simp add: demo_large_def)

lemma demo_frames_built:
  "\<exists>frames. build_frames demo_crypto demo_encode 0 (\<lambda>_. [1, 2, 3, 4, 5]) 7 (demo_large 1026) High 2 demo_id
     = Ret frames"
proof -
  have "chunks 1026 (replicate 1026 (5 :: u8)) = [replicate 1026 5]"
    using chunks_step [of 1026 "replicate 1026 (5 :: u8)"] by simp
  then show ?thesis
    by (simp add: build_frames_def FEC_THRESHOLD_BYTES_def fec_encode_def resize_def div_ceil_def
        demo_encode_def Let_def)
qed

theorem build_frames_loss_tolerant_witness:
  "\<exists>frames shards. build_frames demo_crypto demo_encode 0 (\<lambda>_. [1, 2, 3, 4, 5]) 7 (demo_large 1026)
       High 2 demo_id = Ret frames
     \<and> length frames = 2
     \<and> fec_decode demo_decode [None, Some (shards ! 1)] 1 2 1026 = Ret (Inr (replicate 1026 5))"
proof -
  obtain frames where frames: "build_frames demo_crypto demo_encode 0 (\<lambda>_. [1, 2, 3, 4, 5]) 7
      (demo_large 1026) High 2 demo_id = Ret frames"
    using demo_frames_built by blast
  from build_frames_loss_tolerant [OF demo_crypto_ok demo_registered _ demo_rs_encodes demo_rs_restores _ this]
  obtain shards where n: "length frames = 2" "length shards = 2"
    and dec: "\<forall>arrived. received shards arrived \<and> 1 \<le> length (somes arrived) \<longrightarrow>
          fec_decode demo_decode arrived 1 2 1026 = Ret (Inr (replicate 1026 5))"
    by (auto simp: FEC_THRESHOLD_BYTES_def)
  have "received shards [None, Some (shards ! 1)]"
    using n by (auto simp: received_def less_Suc_eq numeral_eq_Suc)
  with dec have "fec_decode demo_decode [None, Some (shards ! 1)] 1 2 1026 = Ret (Inr (replicate 1026 5))"
    by simp
  with frames n show ?thesis by blast
qed

theorem build_frames_odd_shard_panics_witness:
  "build_frames demo_crypto demo_encode 0 (\<lambda>_. [1, 2, 3, 4, 5]) 7 (demo_large 1025) High 2 demo_id = Panic"
  by (rule build_frames_odd_shard_panics)
    (auto simp: rs_even_only_def demo_encode_def FEC_THRESHOLD_BYTES_def div_ceil_def)

end
