(* ===== verification/Messages.thy ===== *)
theory Messages
  imports Prelude
begin

text \<open>
  The application messages, \<^verbatim>\<open>tacticalmesh-app/src/messages.rs\<close>. A text is the sequence of its
  UTF-8 bytes, a 32-bit float its bit pattern. Names that the wire crate or another record also
  uses carry a prefix.
\<close>

datatype TargetKind = Vehicle | Personnel | Emplacement | Unknown

datatype CommandOp = Engage | Abort | Reassign

datatype BdaResult = BdaDestroyed | BdaDamaged | BdaMiss

record TargetDetection =
  td_target_id :: u16
  td_kind :: TargetKind
  td_lat :: f32
  td_lon :: f32
  td_detected_at_ms :: u64
  td_detector :: u8

record Command =
  cmd_target_id :: u16
  cmd_op :: CommandOp
  cmd_issued_by :: u8

record Bda =
  bda_target_id :: u16
  bda_result :: BdaResult
  bda_at_ms :: u64

record StateReport =
  sr_node_id :: u8
  sr_battery_pct :: u8
  sr_lat :: f32
  sr_lon :: f32

record ImageShard =
  is_target_id :: u16
  is_total_blocks :: u8
  is_block_id :: u8
  is_index :: u8
  is_k :: u8
  is_n :: u8
  is_data :: bytes

record RequestImage =
  ri_target_id :: u16
  ri_requester :: u8

record JamAlert =
  ja_detected_by :: u8
  ja_channel :: u8
  ja_at_ms :: u64

record ChannelHop =
  ch_new_channel :: u8
  ch_new_epoch :: u32
  ch_initiated_by :: u8

record Mayday =
  md_node_id :: u8
  md_at_ms :: u64

record AckPayload =
  acked_seq :: u64

record ChatMessage =
  chat_from :: u8
  chat_text :: string

record AppOlsrMessage =
  olsr_payload :: bytes

datatype AppMsg =
    Msg_TargetDetection TargetDetection
  | Msg_Command Command
  | Msg_Bda Bda
  | Msg_StateReport StateReport
  | Msg_ImageShard ImageShard
  | Msg_RequestImage RequestImage
  | Msg_JamAlert JamAlert
  | Msg_ChannelHop ChannelHop
  | Msg_Mayday Mayday
  | Msg_Olsr AppOlsrMessage
  | Msg_Ack AckPayload
  | Msg_Chat ChatMessage

section \<open>Text\<close>

text \<open>The non-ASCII characters of the log lines, and numbers of at least two digits.\<close>

definition em_dash :: string where "em_dash = [CHR 0xE2, CHR 0x80, CHR 0x94]"
definition times_sign :: string where "times_sign = [CHR 0xC3, CHR 0x97]"

definition show_word :: "'a::len word \<Rightarrow> string" where
  "show_word w = show_nat (unat w)"

definition show_02 :: "nat \<Rightarrow> string" where
  "show_02 n = (if n < 10 then ''0'' @ show_nat n else show_nat n)"

text \<open>\<^verbatim>\<open>hms\<close> of the handlers and of the terminal loop: the time of day in UTC.\<close>

definition hms :: "u64 \<Rightarrow> string" where
  "hms now =
     (let secs = unat now div 1000 in
      show_02 (secs div 3600 mod 24) @ '':'' @ show_02 (secs div 60 mod 60) @ '':'' @ show_02 (secs mod 60))"

end
