(* ===== verification/AppState.thy ===== *)
theory AppState
  imports Messages
begin

text \<open>
  The state that the terminal shows, \<^verbatim>\<open>tacticalmesh-app/src/state.rs\<close>, and the pure parts of the
  drawing code, \<^verbatim>\<open>tacticalmesh-app/src/tui/render.rs\<close>: the tail of the log, the colours of target
  states, the progress of an image and the scaling of pixels to block characters.
\<close>

section \<open>The state\<close>

record RouteDisplay =
  rd_dest :: string
  rd_via :: string
  rd_cost :: u32
  rd_hops :: u8

record NeighborDisplay =
  nd_name :: string
  nd_rssi :: "16 word"
  nd_last_hello_ms :: u64

record TargetDisplay =
  tdi_id :: u16
  tdi_kind :: string
  tdi_state :: string
  tdi_lat :: f32
  tdi_lon :: f32
  tdi_assigned_to :: "u8 option"

record QueueDepths =
  qd_critical :: nat
  qd_normal :: nat
  qd_bulk :: nat

record AttackCounters =
  bad_sigs_dropped :: u64
  time_window_drops :: u64
  replayed_nonces :: u64
  ac_channel_hops :: u64
  stream_rotations :: u64
  spoofed_frames_tx :: u64
  spoofed_frames_dropped :: u64

record ImageDisplay =
  id_target_id :: u16
  id_pixels :: bytes
  id_width :: u32
  id_height :: u32

record ImageRxProgress =
  rx_target_id :: u16
  blocks_done :: u8
  blocks_total :: u8

record AppState =
  app_node_id :: u8
  app_epoch :: u32
  app_channel :: u8
  olsr_converged_in_ms :: "u64 option"
  routing_table :: "RouteDisplay list"
  app_neighbors :: "NeighborDisplay list"
  app_topology_edges :: "(string \<times> string \<times> u32) list"
  app_targets :: "TargetDisplay list"
  app_queues :: QueueDepths
  counters :: AttackCounters
  app_image :: "ImageDisplay option"
  image_rx :: "ImageRxProgress option"
  app_log :: "string list"
  input_mode :: bool
  input_buf :: string

definition AppState_new :: "u8 \<Rightarrow> AppState" where
  "AppState_new n =
     \<lparr>app_node_id = n, app_epoch = 0, app_channel = 0, olsr_converged_in_ms = None,
      routing_table = [], app_neighbors = [], app_topology_edges = [], app_targets = [],
      app_queues = \<lparr>qd_critical = 0, qd_normal = 0, qd_bulk = 0\<rparr>,
      counters = \<lparr>bad_sigs_dropped = 0, time_window_drops = 0, replayed_nonces = 0,
                  ac_channel_hops = 0, stream_rotations = 0, spoofed_frames_tx = 0,
                  spoofed_frames_dropped = 0\<rparr>,
      app_image = None, image_rx = None, app_log = [], input_mode = False, input_buf = []\<rparr>"

definition push_log :: "AppState \<Rightarrow> string \<Rightarrow> AppState" where
  "push_log s msg =
     (let l = (if 200 \<le> length (app_log s) then drop 1 (app_log s) else app_log s)
      in s\<lparr>app_log := l @ [msg]\<rparr>)"

text \<open>
  The example state. The positions 48.1234, 11.5678, 48.2345 and 11.6789 are written as the bit
  patterns of the nearest 32-bit floats.
\<close>

definition AppState_mock :: AppState where
  "AppState_mock =
     (let s = AppState_new 1;
          s = s\<lparr>app_epoch := 3, app_channel := 6, olsr_converged_in_ms := Some 142,
                routing_table :=
                  [\<lparr>rd_dest = ''NODE-2'', rd_via = ''NODE-2'', rd_cost = 10, rd_hops = 1\<rparr>,
                   \<lparr>rd_dest = ''NODE-3'', rd_via = ''NODE-2'', rd_cost = 20, rd_hops = 2\<rparr>],
                app_neighbors :=
                  [\<lparr>nd_name = ''NODE-2'', nd_rssi = - 68, nd_last_hello_ms = 120\<rparr>,
                   \<lparr>nd_name = ''NODE-4'', nd_rssi = - 82, nd_last_hello_ms = 340\<rparr>],
                app_topology_edges :=
                  [(''NODE-1'', ''NODE-2'', 10), (''NODE-2'', ''NODE-3'', 10), (''NODE-1'', ''NODE-4'', 20)],
                app_targets :=
                  [\<lparr>tdi_id = 101, tdi_kind = ''Vehicle'', tdi_state = ''ENGAGED'', tdi_lat = 0x42407E5D,
                    tdi_lon = 0x413915B5, tdi_assigned_to = Some 2\<rparr>,
                   \<lparr>tdi_id = 202, tdi_kind = ''Personnel'', tdi_state = ''DETECTED'', tdi_lat = 0x4240F021,
                    tdi_lon = 0x413ADCC6, tdi_assigned_to = None\<rparr>],
                app_queues := \<lparr>qd_critical = 2, qd_normal = 7, qd_bulk = 14\<rparr>,
                counters := \<lparr>bad_sigs_dropped = 13, time_window_drops = 4, replayed_nonces = 2,
                             ac_channel_hops = 1, stream_rotations = 3, spoofed_frames_tx = 50,
                             spoofed_frames_dropped = 49\<rparr>\<rparr>;
          s = push_log s ''[INFO] Node 1 started'';
          s = push_log s ''[INFO] OLSR converged in 142ms'';
          s = push_log s ''[WARN] Jam detected on channel 5, hopping to 6'';
          s = push_log s ''[INFO] Target 101 assigned to node 2''
      in push_log s ''[WARN] 13 frames dropped (bad signature)'')"

section \<open>Drawing\<close>

text \<open>The lines of the log that fit into a panel of the given height.\<close>

definition visible_log :: "u16 \<Rightarrow> string list \<Rightarrow> string list" where
  "visible_log height l =
     (let visible = unat (saturating_sub height 2)
      in map (\<lambda>line. '' '' @ line) (rev (take visible (rev l))))"

datatype Color = Red | Yellow | White | Cyan | DarkGray

definition state_color :: "string \<Rightarrow> Color" where
  "state_color st =
     (if st = ''DESTROYED'' then Red else if st = ''ENGAGED'' then Yellow else White)"

definition progress_pct :: "ImageRxProgress \<Rightarrow> nat" where
  "progress_pct rx =
     (if 0 < blocks_total rx then unat (blocks_done rx) * 100 div unat (blocks_total rx) else 0)"

text \<open>
  The five block characters are indices 0 to 4 here; an index outside the table would panic.
  \<open>None\<close> ends a row.
\<close>

definition pixel_index :: "bytes \<Rightarrow> nat \<Rightarrow> nat \<Rightarrow> nat \<Rightarrow> nat \<Rightarrow> nat \<Rightarrow> nat \<Rightarrow> nat" where
  "pixel_index pixels img_w img_h cols rows row col =
     (let px = min (col * img_w div cols) (img_w - 1);
          py = min (row * img_h div rows) (img_h - 1);
          i = py * img_w + px;
          brightness = (if i < length pixels then pixels ! i else 0)
      in unat brightness * (5 - 1) div 255)"

definition pixels_to_block_chars :: "bytes \<Rightarrow> nat \<Rightarrow> nat \<Rightarrow> nat \<Rightarrow> nat \<Rightarrow> nat option list rust" where
  "pixels_to_block_chars pixels img_w img_h cols0 rows0 =
     (let cols = max cols0 1;
          rows = max rows0 1;
          idxs = concat (map (\<lambda>row. map (\<lambda>col. Some (pixel_index pixels img_w img_h cols rows row col))
                                        [0..<cols] @ [None]) [0..<rows])
      in if list_ex (\<lambda>x. case x of None \<Rightarrow> False | Some i \<Rightarrow> 5 \<le> i) idxs then Panic else Ret idxs)"

section \<open>Lemmas\<close>

lemma push_log_fields [simp]:
  "app_node_id (push_log s m) = app_node_id s" "app_channel (push_log s m) = app_channel s"
  "image_rx (push_log s m) = image_rx s" "app_image (push_log s m) = app_image s"
  "input_mode (push_log s m) = input_mode s" "input_buf (push_log s m) = input_buf s"
  by (simp_all add: push_log_def Let_def)

lemma length_push_log: "length (app_log s) \<le> 200 \<Longrightarrow> length (app_log (push_log s m)) \<le> 200"
  by (simp add: push_log_def Let_def)

lemma newest_step:
  "(let l = drop (length xs - 200) xs in if 200 \<le> length l then drop 1 l else l) @ [m]
     = drop (Suc (length xs) - 200) (xs @ [m])"
proof (cases "200 \<le> length xs")
  case True
  then have "Suc (length xs - 200) = length xs - 199" by arith
  with True show ?thesis by (simp add: Let_def)
qed (simp add: Let_def)

lemma app_log_push:
  "app_log (push_log s m) = (let l = app_log s in if 200 \<le> length l then drop 1 l else l) @ [m]"
  by (simp add: push_log_def Let_def)

interpretation log_machine: event_machine push_log "\<lambda>s. length (app_log s) \<le> 200"
  by unfold_locales (rule length_push_log)

lemma rows_end:
  "length (filter (\<lambda>x. x = None) (concat (map (\<lambda>row. map (\<lambda>col. Some (g row col)) cs @ [None]) rs))) = length rs"
  by (induction rs) auto

section \<open>Properties\<close>

text \<open>
  The log keeps the newest 200 lines in order: after any sequence of lines it is the last
  200 of the old log followed by them.
\<close>

theorem log_keeps_newest:
  assumes "length (app_log s) \<le> 200"
  shows "app_log (foldl push_log s ms) =
    drop (length (app_log s) + length ms - 200) (app_log s @ ms)
    \<and> length (app_log (foldl push_log s ms)) \<le> 200"
proof -
  have "app_log (foldl push_log s ms) = drop (length (app_log s @ ms) - 200) (app_log s @ ms)"
  proof (induction ms rule: rev_induct)
    case Nil
    then show ?case using assms by simp
  next
    case (snoc m ms)
    have "app_log (foldl push_log s (ms @ [m])) = drop (Suc (length (app_log s @ ms)) - 200) ((app_log s @ ms) @ [m])"
      unfolding foldl_append foldl.simps app_log_push snoc.IH newest_step ..
    then show ?case by (simp del: drop_append)
  qed
  then show ?thesis using log_machine.run_inv [OF assms, of ms] by simp
qed

text \<open>
  Scaling an image for the terminal never indexes outside the table of block characters,
  for any pixels, image size and panel size, and yields one line of the panel's width per row.
\<close>

lemma block_chars_total:
  "\<exists>out. pixels_to_block_chars pixels img_w img_h cols rows = Ret out
     \<and> length out = max rows 1 * (max cols 1 + 1)
     \<and> length (filter (\<lambda>x. x = None) out) = max rows 1"
proof -
  let ?idx = "pixel_index pixels img_w img_h (max cols 1) (max rows 1)"
  let ?out = "concat (map (\<lambda>row. map (\<lambda>col. Some (?idx row col)) [0..<max cols 1] @ [None]) [0..<max rows 1])"
  have small: "?idx row col < 5" for row col
  proof -
    have "unat b * 4 div 255 < 5" for b :: u8
      using unsigned_less [of b, where 'a = nat] by simp
    then show ?thesis by (simp add: pixel_index_def Let_def)
  qed
  have "\<not> list_ex (\<lambda>x. case x of None \<Rightarrow> False | Some i \<Rightarrow> 5 \<le> i) ?out"
    using small by (auto simp: list_ex_iff not_le)
  then have "pixels_to_block_chars pixels img_w img_h cols rows = Ret ?out"
    unfolding pixels_to_block_chars_def Let_def by (rule if_not_P)
  moreover have "length ?out = max rows 1 * (max cols 1 + 1)"
    by (simp add: length_concat o_def sum_list_triv)
  moreover have "length (filter (\<lambda>x. x = None) ?out) = max rows 1"
    unfolding rows_end by simp
  ultimately show ?thesis by blast
qed

section \<open>Witnesses\<close>

theorem log_keeps_newest_witness:
  "app_log (foldl push_log (AppState_new 1) [''a'', ''b'']) = [''a'', ''b'']"
  using log_keeps_newest [of "AppState_new 1" "[''a'', ''b'']"] by (simp add: AppState_new_def)

end
