(* ===== verification/Render.thy ===== *)
theory Render
  imports AppState
begin

text \<open>
  The drawing code, \<^verbatim>\<open>tacticalmesh-app/src/tui/render.rs\<close>, as the list of widgets it hands to the
  terminal library with their areas. How the library divides an area and what it leaves inside a
  border are parameters, and so is the decimal form of a position.
\<close>

section \<open>Widgets\<close>

record Rect =
  r_x :: u16
  r_y :: u16
  r_width :: u16
  r_height :: u16

datatype Direction = Vertical | Horizontal

datatype Constraint = Length u16 | Min u16 | Percentage u16

datatype Style = Plain | Fg Color

text \<open>A line is a list of spans; a widget is a block with a title and its lines.\<close>

type_synonym line = "(string \<times> Style) list"

record widget =
  w_title :: "string \<times> Color"
  w_border :: Color
  w_style :: Style
  w_lines :: "line list"

text \<open>What the terminal library and the float formatting of the standard library provide.\<close>

record term_lib =
  tl_split :: "Direction \<Rightarrow> Constraint list \<Rightarrow> Rect \<Rightarrow> Rect list"
  tl_inner :: "Rect \<Rightarrow> Rect"
  tl_fixed4 :: "f32 \<Rightarrow> string"

text \<open>The documented behaviour of \<^verbatim>\<open>split\<close>: one area per constraint.\<close>

definition split_ok :: "term_lib \<Rightarrow> bool" where
  "split_ok lib \<longleftrightarrow> (\<forall>d cs r. length (tl_split lib d cs r) = length cs)"

section \<open>Formatting\<close>

definition pad_right :: "nat \<Rightarrow> string \<Rightarrow> string" where
  "pad_right n t = t @ replicate (n - length t) CHR '' ''"

definition pad_left :: "nat \<Rightarrow> string \<Rightarrow> string" where
  "pad_left n t = replicate (n - length t) CHR '' '' @ t"

definition show_i16 :: "16 word \<Rightarrow> string" where
  "show_i16 w = (if sint w < 0 then ''-'' @ show_nat (nat (- sint w)) else show_nat (nat (sint w)))"

definition raw_line :: "string \<Rightarrow> line" where
  "raw_line t = [(t, Plain)]"

section \<open>Panels\<close>

definition default_block :: "string \<Rightarrow> line list \<Rightarrow> widget" where
  "default_block title ls = \<lparr>w_title = (title, Cyan), w_border = DarkGray, w_style = Plain, w_lines = ls\<rparr>"

definition draw_top_bar :: "AppState \<Rightarrow> widget" where
  "draw_top_bar s =
     (let olsr_str = (case olsr_converged_in_ms s of Some ms \<Rightarrow> show_word ms | None \<Rightarrow> ''---'');
          q = app_queues s
      in default_block ''TACTICAL MESH'' [raw_line ('' NODE: '' @ show_word (app_node_id s)
           @ ''  EPOCH: '' @ show_word (app_epoch s) @ ''  CH: '' @ show_word (app_channel s)
           @ ''  OLSR: '' @ olsr_str @ ''ms  Q: C='' @ show_nat (qd_critical q) @ '' N='' @ show_nat (qd_normal q)
           @ '' B='' @ show_nat (qd_bulk q))])"

definition draw_routing_table :: "AppState \<Rightarrow> widget" where
  "draw_routing_table s = default_block ''ROUTING TABLE''
     (map (\<lambda>r. raw_line ('' '' @ pad_right 12 (rd_dest r) @ '' via '' @ pad_right 12 (rd_via r) @ '' cost=''
        @ pad_left 4 (show_word (rd_cost r)) @ '' hops='' @ show_word (rd_hops r))) (routing_table s))"

definition draw_neighbors :: "AppState \<Rightarrow> widget" where
  "draw_neighbors s = default_block ''NEIGHBORS''
     (map (\<lambda>n. raw_line ('' '' @ pad_right 12 (nd_name n) @ '' rssi: '' @ pad_left 4 (show_i16 (nd_rssi n))
        @ '' dBm, last: '' @ show_word (nd_last_hello_ms n) @ ''ms ago'')) (app_neighbors s))"

definition target_line :: "term_lib \<Rightarrow> TargetDisplay \<Rightarrow> line" where
  "target_line lib t =
     (let assigned = (case tdi_assigned_to t of Some n \<Rightarrow> ''node-'' @ show_word n | None \<Rightarrow> ''unassigned'')
      in [('' ['' @ pad_left 4 (show_word (tdi_id t)) @ ''] '', Plain),
          (pad_right 12 (tdi_kind t) @ '' '', Plain),
          (pad_right 10 (tdi_state t) @ '' '', Fg (state_color (tdi_state t))),
          (''('' @ tl_fixed4 lib (tdi_lat t) @ '','' @ tl_fixed4 lib (tdi_lon t) @ '') '' @ assigned, Plain)])"

definition draw_targets :: "term_lib \<Rightarrow> AppState \<Rightarrow> widget" where
  "draw_targets lib s = default_block ''TARGETS'' (map (target_line lib) (app_targets s))"

definition counter_line :: "string \<times> u64 \<Rightarrow> line" where
  "counter_line = (\<lambda>(label, val).
     [('' '' @ pad_right 26 label @ '': '', Plain), (show_word val, Fg (if 0 < val then Red else White))])"

definition draw_attack_counters :: "AppState \<Rightarrow> widget" where
  "draw_attack_counters s =
     (let c = counters s in default_block ''ATTACK COUNTERS'' (map counter_line
        [(''bad_sigs_dropped'', bad_sigs_dropped c), (''time_window_drops'', time_window_drops c),
         (''replayed_nonces'', replayed_nonces c), (''channel_hops'', ac_channel_hops c),
         (''stream_rotations'', stream_rotations c), (''spoofed_frames_tx'', spoofed_frames_tx c),
         (''spoofed_frames_dropped'', spoofed_frames_dropped c)]))"

definition image_title :: "AppState \<Rightarrow> string" where
  "image_title s =
     (case image_rx s of
        Some rx \<Rightarrow> ''IMAGE  target='' @ show_word (rx_target_id rx) @ '' receiving '' @ show_word (blocks_done rx)
                  @ ''/'' @ show_word (blocks_total rx) @ '' blocks ('' @ show_nat (progress_pct rx) @ ''%)''
      | None \<Rightarrow>
          (case app_image s of
             Some img \<Rightarrow>
               (if id_target_id img = 0
                then ''IMAGE  local  '' @ show_word (id_width img) @ times_sign @ show_word (id_height img)
                else ''IMAGE  target='' @ show_word (id_target_id img) @ ''  '' @ show_word (id_width img)
                     @ times_sign @ show_word (id_height img))
           | None \<Rightarrow> ''IMAGE''))"

text \<open>The characters of \<open>pixels_to_block_chars\<close>, line by line.\<close>

definition block_char :: "nat \<Rightarrow> string" where
  "block_char i = [[CHR 0xE2, CHR 0x96, CHR 0x88], [CHR 0xE2, CHR 0x96, CHR 0x93], [CHR 0xE2, CHR 0x96, CHR 0x92],
     [CHR 0xE2, CHR 0x96, CHR 0x91], '' ''] ! i"

fun block_lines :: "string \<Rightarrow> nat option list \<Rightarrow> line list" where
  "block_lines acc [] = []"
| "block_lines acc (None # xs) = raw_line acc # block_lines [] xs"
| "block_lines acc (Some i # xs) = block_lines (acc @ block_char i) xs"

definition draw_image :: "term_lib \<Rightarrow> Rect \<Rightarrow> AppState \<Rightarrow> widget rust" where
  "draw_image lib area s =
     (let (border_color, title_color) = (if image_rx s \<noteq> None then (Yellow, Yellow) else (DarkGray, Cyan));
          inner_area = tl_inner lib area;
          content = (case app_image s of
             Some img \<Rightarrow>
               (case pixels_to_block_chars (id_pixels img) (unat (id_width img)) (unat (id_height img))
                       (unat (r_width inner_area)) (unat (r_height inner_area)) of
                  Ret xs \<Rightarrow> Ret (block_lines [] xs)
                | Panic \<Rightarrow> Panic)
           | None \<Rightarrow>
               Ret [raw_line (if image_rx s \<noteq> None then ''(receiving...)'' else ''(no image)'')])
      in case content of
           Panic \<Rightarrow> Panic
         | Ret ls \<Rightarrow> Ret \<lparr>w_title = (image_title s, title_color), w_border = border_color, w_style = Plain, w_lines = ls\<rparr>)"

definition draw_log :: "Rect \<Rightarrow> AppState \<Rightarrow> widget" where
  "draw_log area s = default_block ''LOG'' (map raw_line (visible_log (r_height area) (app_log s)))"

definition draw_topology :: "AppState \<Rightarrow> widget" where
  "draw_topology s = default_block ''TOPOLOGY (LSDB)''
     (map (\<lambda>(a, b, cost). raw_line ('' '' @ a @ '' -- '' @ b @ '' (cost='' @ show_word cost @ '')'')) (app_topology_edges s))"

text \<open>The cursor of the compose bar blinks with the clock.\<close>

definition draw_input_bar :: "u64 \<Rightarrow> AppState \<Rightarrow> widget" where
  "draw_input_bar now s =
     (if input_mode s
      then (let cursor = (if unat now div 500 mod 2 = 0 then block_char 0 else '' '')
            in \<lparr>w_title = (''COMPOSE  [Enter] send  [Esc] cancel'', Cyan), w_border = Yellow, w_style = Fg White,
                w_lines = [raw_line ('' > '' @ input_buf s @ cursor)]\<rparr>)
      else \<lparr>w_title = (''COMPOSE'', Cyan), w_border = DarkGray, w_style = Fg DarkGray,
            w_lines = [raw_line '' Press / to compose a message'']\<rparr>)"

section \<open>Layout\<close>

text \<open>Indexing the areas of a split panics when there are too few.\<close>

definition draw_left_column :: "term_lib \<Rightarrow> Rect \<Rightarrow> AppState \<Rightarrow> (Rect \<times> widget) list rust" where
  "draw_left_column lib area s =
     (if app_topology_edges s = []
      then (case tl_split lib Vertical [Percentage 30, Percentage 15, Percentage 30, Min 0] area of
              a0 # a1 # a2 # a3 # _ \<Rightarrow>
                Ret [(a0, draw_routing_table s), (a1, draw_neighbors s), (a2, draw_targets lib s),
                     (a3, draw_attack_counters s)]
            | _ \<Rightarrow> Panic)
      else (case tl_split lib Vertical [Percentage 25, Percentage 15, Percentage 25, Percentage 15, Min 0] area of
              a0 # a1 # a2 # a3 # a4 # _ \<Rightarrow>
                Ret [(a0, draw_routing_table s), (a1, draw_neighbors s), (a2, draw_targets lib s),
                     (a3, draw_attack_counters s), (a4, draw_topology s)]
            | _ \<Rightarrow> Panic))"

definition draw_right_column :: "term_lib \<Rightarrow> Rect \<Rightarrow> AppState \<Rightarrow> (Rect \<times> widget) list rust" where
  "draw_right_column lib area s =
     (case tl_split lib Vertical [Min 0, Percentage 35] area of
        a0 # a1 # _ \<Rightarrow>
          (case draw_image lib a0 s of
             Panic \<Rightarrow> Panic
           | Ret w \<Rightarrow> Ret [(a0, w), (a1, draw_log a1 s)])
      | _ \<Rightarrow> Panic)"

definition draw :: "term_lib \<Rightarrow> u64 \<Rightarrow> Rect \<Rightarrow> AppState \<Rightarrow> (Rect \<times> widget) list rust" where
  "draw lib now area s =
     (case tl_split lib Vertical [Length 3, Min 0, Length 3] area of
        root0 # root1 # root2 # _ \<Rightarrow>
          (case tl_split lib Horizontal [Percentage 60, Percentage 40] root1 of
             body0 # body1 # _ \<Rightarrow>
               (case draw_left_column lib body0 s of
                  Panic \<Rightarrow> Panic
                | Ret ls \<Rightarrow>
                    (case draw_right_column lib body1 s of
                       Panic \<Rightarrow> Panic
                     | Ret rs \<Rightarrow> Ret ((root0, draw_top_bar s) # ls @ rs @ [(root2, draw_input_bar now s)])))
           | _ \<Rightarrow> Panic)
      | _ \<Rightarrow> Panic)"

section \<open>Properties\<close>

lemma split_cases:
  assumes "split_ok lib"
  shows "\<exists>a0 a1. tl_split lib d [c0, c1] r = [a0, a1]"
    and "\<exists>a0 a1 a2. tl_split lib d [c0, c1, c2] r = [a0, a1, a2]"
    and "\<exists>a0 a1 a2 a3. tl_split lib d [c0, c1, c2, c3] r = [a0, a1, a2, a3]"
    and "\<exists>a0 a1 a2 a3 a4. tl_split lib d [c0, c1, c2, c3, c4] r = [a0, a1, a2, a3, a4]"
proof -
  have len: "length (tl_split lib d cs r) = length cs" for cs
    using assms by (simp add: split_ok_def)
  show "\<exists>a0 a1. tl_split lib d [c0, c1] r = [a0, a1]"
    using len [of "[c0, c1]"] by (auto simp: length_Suc_conv)
  show "\<exists>a0 a1 a2. tl_split lib d [c0, c1, c2] r = [a0, a1, a2]"
    using len [of "[c0, c1, c2]"] by (auto simp: length_Suc_conv)
  show "\<exists>a0 a1 a2 a3. tl_split lib d [c0, c1, c2, c3] r = [a0, a1, a2, a3]"
    using len [of "[c0, c1, c2, c3]"] by (auto simp: length_Suc_conv)
  show "\<exists>a0 a1 a2 a3 a4. tl_split lib d [c0, c1, c2, c3, c4] r = [a0, a1, a2, a3, a4]"
    using len [of "[c0, c1, c2, c3, c4]"] by (auto simp: length_Suc_conv)
qed

lemma draw_image_total: "\<exists>w. draw_image lib area s = Ret w \<and> fst (w_title w) = image_title s"
proof (cases "app_image s")
  case (Some img)
  obtain xs where "pixels_to_block_chars (id_pixels img) (unat (id_width img)) (unat (id_height img))
      (unat (r_width (tl_inner lib area))) (unat (r_height (tl_inner lib area))) = Ret xs"
    using block_chars_total by blast
  with Some show ?thesis by (simp add: draw_image_def Let_def)
qed (simp add: draw_image_def Let_def)

lemma log_fits: "length (w_lines (draw_log area s)) \<le> unat (r_height area) - 2"
  by (simp add: draw_log_def default_block_def visible_log_def Let_def unat_saturating_sub)

text \<open>
  (C40) Drawing never panics, whatever the state and the size of the terminal: given one area per
  constraint, it draws the panels in their places, the topology panel exactly when there are
  edges, and no more log lines than fit between the borders of the panel.
\<close>

theorem draw_total:
  assumes "split_ok lib"
  shows "\<exists>ws. draw lib now area s = Ret ws
    \<and> map (\<lambda>(_, w). fst (w_title w)) ws =
        [''TACTICAL MESH'', ''ROUTING TABLE'', ''NEIGHBORS'', ''TARGETS'', ''ATTACK COUNTERS'']
        @ (if app_topology_edges s = [] then [] else [''TOPOLOGY (LSDB)''])
        @ [image_title s, ''LOG'', if input_mode s then ''COMPOSE  [Enter] send  [Esc] cancel'' else ''COMPOSE'']
    \<and> (\<forall>(r, w) \<in> set ws. fst (w_title w) = ''LOG'' \<longrightarrow> length (w_lines w) \<le> unat (r_height r) - 2)"
proof -
  obtain t m b where root: "tl_split lib Vertical [Length 3, Min 0, Length 3] area = [t, m, b]"
    using split_cases(2) [OF assms] by metis
  obtain l r where body: "tl_split lib Horizontal [Percentage 60, Percentage 40] m = [l, r]"
    using split_cases(1) [OF assms] by metis
  obtain i g where right: "tl_split lib Vertical [Min 0, Percentage 35] r = [i, g]"
    using split_cases(1) [OF assms] by metis
  obtain w where w: "draw_image lib i s = Ret w" "fst (w_title w) = image_title s"
    using draw_image_total by blast
  obtain a0 a1 a2 a3 where four:
    "tl_split lib Vertical [Percentage 30, Percentage 15, Percentage 30, Min 0] l = [a0, a1, a2, a3]"
    using split_cases(3) [OF assms] by metis
  obtain b0 b1 b2 b3 b4 where five:
    "tl_split lib Vertical [Percentage 25, Percentage 15, Percentage 25, Percentage 15, Min 0] l = [b0, b1, b2, b3, b4]"
    using split_cases(4) [OF assms] by metis
  have titles: "fst (w_title (draw_top_bar s)) = ''TACTICAL MESH''" "fst (w_title (draw_routing_table s)) = ''ROUTING TABLE''"
    "fst (w_title (draw_neighbors s)) = ''NEIGHBORS''" "fst (w_title (draw_targets lib s)) = ''TARGETS''"
    "fst (w_title (draw_attack_counters s)) = ''ATTACK COUNTERS''" "fst (w_title (draw_topology s)) = ''TOPOLOGY (LSDB)''"
    "fst (w_title (draw_log g s)) = ''LOG''" "fst (w_title (draw_input_bar now s)) =
       (if input_mode s then ''COMPOSE  [Enter] send  [Esc] cancel'' else ''COMPOSE'')"
    by (simp_all add: draw_top_bar_def draw_routing_table_def draw_neighbors_def draw_targets_def draw_attack_counters_def
        draw_topology_def draw_log_def draw_input_bar_def default_block_def Let_def)
  have "image_title s \<noteq> ''LOG''"
    by (simp add: image_title_def split: option.splits)
  then show ?thesis
    using root body right w four five log_fits [of g s]
    by (cases "app_topology_edges s = []")
      (simp_all add: draw_def draw_left_column_def draw_right_column_def titles)
qed

section \<open>Witnesses\<close>

definition demo_lib :: term_lib where
  "demo_lib = \<lparr>tl_split = (\<lambda>d cs r. map (\<lambda>_. r) cs), tl_inner = id, tl_fixed4 = (\<lambda>_. ''0.0000'')\<rparr>"

theorem draw_total_witness:
  "\<exists>ws. draw demo_lib 0 \<lparr>r_x = 0, r_y = 0, r_width = 80, r_height = 24\<rparr> (AppState_new 1) = Ret ws \<and> length ws = 8"
proof -
  have ok: "split_ok demo_lib" by (simp add: split_ok_def demo_lib_def)
  obtain ws where ws: "draw demo_lib 0 \<lparr>r_x = 0, r_y = 0, r_width = 80, r_height = 24\<rparr> (AppState_new 1) = Ret ws"
    "map (\<lambda>(_, w). fst (w_title w)) ws =
        [''TACTICAL MESH'', ''ROUTING TABLE'', ''NEIGHBORS'', ''TARGETS'', ''ATTACK COUNTERS'',
         image_title (AppState_new 1), ''LOG'', ''COMPOSE'']"
    using draw_total [OF ok, of 0 "\<lparr>r_x = 0, r_y = 0, r_width = 80, r_height = 24\<rparr>" "AppState_new 1"]
    by (auto simp: AppState_new_def)
  from arg_cong [OF ws(2), of length] ws(1) show ?thesis by simp
qed

end
