(* ===== verification/Scheduler.thy ===== *)
theory Scheduler
  imports Link
begin

text \<open>
  The transmit scheduler, \<^verbatim>\<open>tacticalmesh-wire/src/scheduler.rs\<close>: four queues, strict priority
  between them, first in first out within one, and the drain loop that hands frames to the
  link. The interface \<open>strict_priority_queue\<close> says what the scheduler promises its clients in
  terms of one list per priority; the array of four queues implements it.
\<close>

section \<open>The queues\<close>

record Queues =
  inner :: "bytes list list"

definition Queues_new :: Queues where
  "Queues_new = \<lparr>inner = [[], [], [], []]\<rparr>"

definition push :: "Queues \<Rightarrow> bytes \<Rightarrow> Priority \<Rightarrow> Queues" where
  "push q frame prio =
     (let i = unat (Priority_as_u8 prio) in q\<lparr>inner := (inner q)[i := inner q ! i @ [frame]]\<rparr>)"

text \<open>
  The loop of \<open>pop_next\<close> over the queues from index \<open>i\<close> on; \<open>expect\<close> panics when the index is
  not a priority.
\<close>

fun pop_from :: "nat \<Rightarrow> bytes list list \<Rightarrow> ((bytes \<times> Priority) option \<times> bytes list list) rust" where
  "pop_from i [] = Ret (None, [])"
| "pop_from i (q # qs) =
     (case q of
        frame # rest \<Rightarrow>
          (case Priority_from_u8 (of_nat i) of
             None \<Rightarrow> Panic
           | Some prio \<Rightarrow> Ret (Some (frame, prio), rest # qs))
      | [] \<Rightarrow>
          (case pop_from (Suc i) qs of
             Panic \<Rightarrow> Panic
           | Ret (r, qs') \<Rightarrow> Ret (r, q # qs')))"

definition pop_next :: "Queues \<Rightarrow> ((bytes \<times> Priority) option \<times> Queues) rust" where
  "pop_next q =
     (case pop_from 0 (inner q) of
        Panic \<Rightarrow> Panic
      | Ret (r, qs) \<Rightarrow> Ret (r, q\<lparr>inner := qs\<rparr>))"

section \<open>The scheduler\<close>

record TxScheduler =
  queues :: Queues
  sched_link :: LinkAdapter

definition TxScheduler_new :: "LinkAdapter \<Rightarrow> TxScheduler" where
  "TxScheduler_new l = \<lparr>queues = Queues_new, sched_link = l\<rparr>"

definition enqueue :: "TxScheduler \<Rightarrow> bytes \<Rightarrow> Priority \<Rightarrow> TxScheduler" where
  "enqueue s frame prio = s\<lparr>queues := push (queues s) frame prio\<rparr>"

text \<open>
  One round of the inner loop of \<open>run\<close>: the frame that was popped is sent, and a failed send is
  only logged. \<open>ok\<close> tells, by the link's sequence number, whether the socket write succeeds. The
  output of a round that found a frame is the effect it had: the frame, its priority, the packet
  the link handed to the socket and the result of that write.
\<close>

type_synonym sent = "bytes \<times> Priority \<times> bytes \<times> (link_error + u64)"

definition run_step :: "(u64 \<Rightarrow> bool) \<Rightarrow> TxScheduler \<Rightarrow> (sent option \<times> TxScheduler) rust" where
  "run_step ok s =
     (case pop_next (queues s) of
        Panic \<Rightarrow> Panic
      | Ret (None, q) \<Rightarrow> Ret (None, s\<lparr>queues := q\<rparr>)
      | Ret (Some (frame, prio), q) \<Rightarrow>
          (case LinkAdapter_send (ok (link_seq (sched_link s))) (sched_link s) frame prio of
             (pkt, res, l) \<Rightarrow> Ret (Some (frame, prio, pkt, res), \<lparr>queues = q, sched_link = l\<rparr>)))"

definition queued :: "TxScheduler \<Rightarrow> nat" where
  "queued s = length (concat (inner (queues s)))"

lemma pop_from_length:
  "pop_from i qs = Ret (Some x, qs') \<Longrightarrow> length (concat qs') < length (concat qs)"
  by (induction i qs arbitrary: qs' rule: pop_from.induct)
    (auto split: list.splits option.splits rust.splits)

lemma run_step_queued: "run_step ok s = Ret (Some x, s') \<Longrightarrow> queued s' < queued s"
  using pop_from_length
  by (fastforce simp: run_step_def pop_next_def queued_def split: rust.splits prod.splits option.splits)

text \<open>The inner loop runs until the queues are empty; it lists what was sent.\<close>

function drain :: "(u64 \<Rightarrow> bool) \<Rightarrow> TxScheduler \<Rightarrow> (sent list \<times> TxScheduler) rust" where
  "drain ok s =
     (case run_step ok s of
        Panic \<Rightarrow> Panic
      | Ret (None, s') \<Rightarrow> Ret ([], s')
      | Ret (Some x, s') \<Rightarrow>
          (case drain ok s' of
             Panic \<Rightarrow> Panic
           | Ret (xs, s'') \<Rightarrow> Ret (x # xs, s'')))"
  by pat_completeness auto
termination
  by (relation "measure (\<lambda>(ok, s). queued s)") (auto simp: run_step_queued)

declare drain.simps [simp del]

section \<open>The interface\<close>

locale strict_priority_queue =
  fixes enq :: "'q \<Rightarrow> 'a \<Rightarrow> Priority \<Rightarrow> 'q"
    and deq :: "'q \<Rightarrow> ('a \<times> Priority) option \<times> 'q"
    and lane :: "'q \<Rightarrow> Priority \<Rightarrow> 'a list"
    and ok :: "'q \<Rightarrow> bool"
  assumes ok_enq: "ok q \<Longrightarrow> ok (enq q x p)"
    and lane_enq: "ok q \<Longrightarrow> lane (enq q x p) = (lane q)(p := lane q p @ [x])"
    and deq_None: "ok q \<Longrightarrow> deq q = (None, q') \<Longrightarrow> q' = q \<and> (\<forall>p. lane q p = [])"
    and deq_Some: "ok q \<Longrightarrow> deq q = (Some (x, p), q') \<Longrightarrow>
       ok q' \<and> (\<forall>p' < p. lane q p' = []) \<and> lane q p = x # lane q' p \<and> (\<forall>p'. p' \<noteq> p \<longrightarrow> lane q' p' = lane q p')"
begin

text \<open>The whole content in the order in which it leaves: by priority, oldest first.\<close>

definition ordered :: "'q \<Rightarrow> ('a \<times> Priority) list" where
  "ordered q = concat (map (\<lambda>p. map (\<lambda>x. (x, p)) (lane q p)) PRIORITIES)"

lemma deq_ordered_Some:
  assumes "ok q" and "deq q = (Some (x, p), q')"
  shows "ordered q = (x, p) # ordered q'"
proof -
  show ?thesis
    using deq_Some [OF assms, unfolded below_Priority]
    by (cases p) (simp_all add: ordered_def PRIORITIES_def)
qed

lemma deq_ordered_None: "ok q \<Longrightarrow> deq q = (None, q') \<Longrightarrow> ordered q = []"
  using deq_None by (simp add: ordered_def PRIORITIES_def)

lemma deq_ordered: "ok q \<Longrightarrow> fst (deq q) = (case ordered q of [] \<Rightarrow> None | y # _ \<Rightarrow> Some y)"
  using deq_ordered_Some deq_ordered_None
  by (cases "deq q"; cases "fst (deq q)") auto

text \<open>An emergency item enqueued at any moment overtakes everything of lower priority.\<close>

lemma overtakes:
  assumes "ok q" and "\<forall>p' \<le> p. lane q p' = []"
  shows "fst (deq (enq q x p)) = Some (x, p)"
proof -
  have "ordered (enq q x p) \<noteq> [] \<and> hd (ordered (enq q x p)) = (x, p)"
    using assms [unfolded upto_Priority below_Priority]
    by (cases p) (simp_all add: ordered_def PRIORITIES_def lane_enq)
  then show ?thesis
    using deq_ordered [OF ok_enq [OF assms(1)], of x p] by (auto split: list.splits)
qed

end

section \<open>The array of queues implements it\<close>

definition queues_ok :: "Queues \<Rightarrow> bool" where
  "queues_ok q \<longleftrightarrow> length (inner q) = 4"

definition queue_lane :: "Queues \<Rightarrow> Priority \<Rightarrow> bytes list" where
  "queue_lane q p = inner q ! unat (Priority_as_u8 p)"

definition pop_total :: "Queues \<Rightarrow> (bytes \<times> Priority) option \<times> Queues" where
  "pop_total q = (case pop_next q of Ret r \<Rightarrow> r | Panic \<Rightarrow> (None, q))"

lemma queues_okE:
  assumes "queues_ok q"
  obtains a b c d where "inner q = [a, b, c, d]"
  using assms by (auto simp: queues_ok_def numeral_eq_Suc length_Suc_conv)

lemma queue_lane_simps:
  assumes "inner q = [a, b, c, d]"
  shows "queue_lane q Emergency = a" "queue_lane q Critical = b" "queue_lane q High = c"
    "queue_lane q Bulk = d"
  using assms by (simp_all add: queue_lane_def)

lemma pop_next_eq:
  assumes "inner q = [a, b, c, d]"
  shows "pop_next q = Ret
    (case a of f # a' \<Rightarrow> (Some (f, Emergency), q\<lparr>inner := [a', b, c, d]\<rparr>) | [] \<Rightarrow>
     case b of f # b' \<Rightarrow> (Some (f, Critical), q\<lparr>inner := [a, b', c, d]\<rparr>) | [] \<Rightarrow>
     case c of f # c' \<Rightarrow> (Some (f, High), q\<lparr>inner := [a, b, c', d]\<rparr>) | [] \<Rightarrow>
     case d of f # d' \<Rightarrow> (Some (f, Bulk), q\<lparr>inner := [a, b, c, d']\<rparr>) | [] \<Rightarrow> (None, q))"
  using assms by (cases q) (auto simp: pop_next_def Priority_from_u8_def split: list.splits)

interpretation tx_queue: strict_priority_queue push pop_total queue_lane queues_ok
proof
  fix q x p
  assume ok: "queues_ok q"
  then show "queues_ok (push q x p)" by (simp add: queues_ok_def push_def Let_def)
  from ok obtain a b c d where q: "inner q = [a, b, c, d]" by (rule queues_okE)
  show "queue_lane (push q x p) = (queue_lane q)(p := queue_lane q p @ [x])"
    unfolding fun_eq_iff all_Priority
    using q by (cases p) (simp_all add: queue_lane_def push_def Let_def)
next
  fix q q'
  assume ok: "queues_ok q" and pop: "pop_total q = (None, q')"
  from ok obtain a b c d where q: "inner q = [a, b, c, d]" by (rule queues_okE)
  show "q' = q \<and> (\<forall>p. queue_lane q p = [])"
    unfolding all_Priority using pop q
    by (auto simp: pop_total_def pop_next_eq [OF q] queue_lane_simps [OF q] split: list.splits)
next
  fix q x p q'
  assume ok: "queues_ok q" and pop: "pop_total q = (Some (x, p), q')"
  from ok obtain a b c d where q: "inner q = [a, b, c, d]" by (rule queues_okE)
  show "queues_ok q' \<and> (\<forall>p' < p. queue_lane q p' = []) \<and> queue_lane q p = x # queue_lane q' p
      \<and> (\<forall>p'. p' \<noteq> p \<longrightarrow> queue_lane q' p' = queue_lane q p')"
  proof -
    consider (E) a' where "p = Emergency" "a = x # a'" "q' = q\<lparr>inner := [a', b, c, d]\<rparr>"
      | (C) b' where "p = Critical" "a = []" "b = x # b'" "q' = q\<lparr>inner := [a, b', c, d]\<rparr>"
      | (H) c' where "p = High" "a = []" "b = []" "c = x # c'" "q' = q\<lparr>inner := [a, b, c', d]\<rparr>"
      | (B) d' where "p = Bulk" "a = []" "b = []" "c = []" "d = x # d'" "q' = q\<lparr>inner := [a, b, c, d']\<rparr>"
      using pop by (auto simp: pop_total_def pop_next_eq [OF q] split: list.splits)
    then show ?thesis
      unfolding below_Priority all_Priority queue_lane_simps [OF q]
      by cases (simp_all add: queue_lane_def queues_ok_def q)
  qed
qed

lemma pop_next_total: "queues_ok q \<Longrightarrow> pop_next q = Ret (pop_total q)"
  by (erule queues_okE) (simp add: pop_total_def pop_next_eq)

lemma queues_ok_new [simp]: "queues_ok Queues_new"
  by (simp add: queues_ok_def Queues_new_def)

section \<open>What draining sends\<close>

text \<open>
  The sends of a list of frames through the link, one after the other, and what they amount to: the
  \<open>n\<close>th packet carries the stream of its priority, the number of frames sent on that priority
  before it, and the frame; the link's own counter numbers the sends of all priorities together.
\<close>

fun send_all :: "(u64 \<Rightarrow> bool) \<Rightarrow> LinkAdapter \<Rightarrow> (bytes \<times> Priority) list \<Rightarrow> sent list \<times> LinkAdapter" where
  "send_all ok l [] = ([], l)"
| "send_all ok l ((f, p) # xs) =
     (case LinkAdapter_send (ok (link_seq l)) l f p of
        (pkt, res, l1) \<Rightarrow>
          (case send_all ok l1 xs of (ss, l2) \<Rightarrow> ((f, p, pkt, res) # ss, l2)))"

definition on_prio :: "Priority \<Rightarrow> sent list \<Rightarrow> nat" where
  "on_prio p ss = length (filter (\<lambda>x. fst (snd x) = p) ss)"

definition sent_packet :: "LinkAdapter \<Rightarrow> sent list \<Rightarrow> nat \<Rightarrow> bytes" where
  "sent_packet l ss n =
     (case ss ! n of (f, p, _, _) \<Rightarrow>
        to_le_bytes 4 (tx_stream_id (tx l p))
        @ to_le_bytes 4 (tx_seq (tx l p) + of_nat (on_prio p (take n ss))) @ f)"

definition sent_result :: "(u64 \<Rightarrow> bool) \<Rightarrow> LinkAdapter \<Rightarrow> nat \<Rightarrow> link_error + u64" where
  "sent_result ok l n =
     (if ok (link_seq l + of_nat n) then Inr (link_seq l + of_nat n) else Inl IoError)"

definition link_after :: "LinkAdapter \<Rightarrow> (Priority \<Rightarrow> nat) \<Rightarrow> LinkAdapter" where
  "link_after l k =
     l\<lparr>link_seq := link_seq l + of_nat (k Emergency + k Critical + k High + k Bulk),
       tx := (\<lambda>p. (tx l p)\<lparr>tx_seq := tx_seq (tx l p) + of_nat (k p)\<rparr>)\<rparr>"

lemma send_all_step:
  "send_all ok l ((f, p) # xs) = (ss, l') \<longleftrightarrow>
     (\<exists>ss0. ss = (f, p, Tx_packet (tx l p) f, sent_result ok l 0) # ss0
        \<and> send_all ok (link_after l (\<lambda>q. if q = p then 1 else 0)) xs = (ss0, l'))"
proof -
  have "LinkAdapter_send (ok (link_seq l)) l f p
      = (Tx_packet (tx l p) f, sent_result ok l 0, link_after l (\<lambda>q. if q = p then 1 else 0))"
    by (cases p; cases l) (auto simp: LinkAdapter_send_def Tx_send_def Let_def sent_result_def link_after_def fun_eq_iff)
  then show ?thesis by (auto split: prod.splits)
qed

lemma send_all_frames: "send_all ok l xs = (ss, l') \<Longrightarrow> map (\<lambda>x. (fst x, fst (snd x))) ss = xs"
proof (induction xs arbitrary: l ss)
  case (Cons x xs)
  then show ?case by (cases x) (auto simp del: send_all.simps(2) simp: send_all_step)
qed simp

lemma link_after_add: "link_after (link_after l j) k = link_after l (\<lambda>p. j p + k p)"
  by (simp add: link_after_def fun_eq_iff)

lemma send_all_link:
  "send_all ok l xs = (ss, l') \<Longrightarrow> l' = link_after l (\<lambda>p. length (filter (\<lambda>x. snd x = p) xs))"
proof (induction xs arbitrary: l ss)
  case Nil
  then show ?case by (simp add: link_after_def)
next
  case (Cons x xs)
  obtain f p where x: "x = (f, p)" by fastforce
  from Cons.prems obtain ss0 where "send_all ok (link_after l (\<lambda>q. if q = p then 1 else 0)) xs = (ss0, l')"
    by (auto simp del: send_all.simps(2) simp: send_all_step x)
  from Cons.IH [OF this] show ?case
    by (simp add: link_after_add x) (rule arg_cong [where f = "link_after l"], auto)
qed

lemma send_all_nth:
  "send_all ok l xs = (ss, l') \<Longrightarrow> n < length ss
   \<Longrightarrow> snd (snd (ss ! n)) = (sent_packet l ss n, sent_result ok l n)"
proof (induction xs arbitrary: l ss n)
  case (Cons x xs)
  obtain f p where x: "x = (f, p)" by fastforce
  let ?l = "link_after l (\<lambda>q. if q = p then 1 else 0)"
  from Cons.prems obtain ss0 where ss: "ss = (f, p, Tx_packet (tx l p) f, sent_result ok l 0) # ss0"
    and rec: "send_all ok ?l xs = (ss0, l')"
    by (auto simp del: send_all.simps(2) simp: send_all_step x)
  show ?case
  proof (cases n)
    case 0
    then show ?thesis by (simp add: ss sent_packet_def on_prio_def Tx_packet_def)
  next
    case (Suc m)
    have "link_seq ?l = link_seq l + 1" by (cases p) (simp_all add: link_after_def)
    then have "sent_result ok ?l m = sent_result ok l (Suc m)" by (simp add: sent_result_def add.assoc)
    moreover have "sent_packet ?l ss0 m = sent_packet l ss (Suc m)"
      by (simp add: sent_packet_def on_prio_def link_after_def ss add.assoc split: prod.splits)
    ultimately show ?thesis using Cons.IH [OF rec, of m] Cons.prems(2) Suc by (simp add: ss)
  qed
qed simp

text \<open>The drain loop is the sends of the content of the queues, in the order of the interface.\<close>

lemma drain_sends:
  assumes "queues_ok (queues s)"
  shows "\<exists>s'. drain ok s = Ret (fst (send_all ok (sched_link s) (tx_queue.ordered (queues s))), s')
     \<and> sched_link s' = snd (send_all ok (sched_link s) (tx_queue.ordered (queues s)))
     \<and> (\<forall>p. queue_lane (queues s') p = [])"
  using assms
proof (induction ok s rule: drain.induct)
  case (1 ok s)
  obtain r q where pop: "pop_total (queues s) = (r, q)" by fastforce
  then have nxt: "pop_next (queues s) = Ret (r, q)" using pop_next_total [OF "1.prems"] by simp
  show ?case
  proof (cases r)
    case None
    then show ?thesis
      using nxt pop tx_queue.deq_None [OF "1.prems"] tx_queue.deq_ordered_None [OF "1.prems"]
      by (subst drain.simps) (simp add: run_step_def)
  next
    case (Some x)
    obtain f p where x: "x = (f, p)" by fastforce
    obtain pkt res l where snd: "LinkAdapter_send (ok (link_seq (sched_link s))) (sched_link s) f p = (pkt, res, l)"
      by (rule prod_cases3)
    let ?s1 = "\<lparr>queues = q, sched_link = l\<rparr>"
    have s1: "run_step ok s = Ret (Some (f, p, pkt, res), ?s1)"
      using nxt Some x snd by (simp add: run_step_def)
    have okq: "queues_ok q" using tx_queue.deq_Some [OF "1.prems"] pop Some x by simp
    have ord: "tx_queue.ordered (queues s) = (f, p) # tx_queue.ordered q"
      using tx_queue.deq_ordered_Some [OF "1.prems"] pop Some x by simp
    from "1.IH" [OF s1 refl refl] okq show ?thesis
      by (subst drain.simps) (auto simp: s1 ord snd split: prod.splits)
  qed
qed

lemma lane_filter:
  "map fst (filter (\<lambda>x. snd x = p) (tx_queue.ordered q)) = queue_lane q p"
  by (cases p) (simp_all add: tx_queue.ordered_def PRIORITIES_def filter_map o_def)

section \<open>Properties\<close>

text \<open>
  (C17) Draining the scheduler never panics, always terminates, empties the queues, and sends every
  queued frame, in strict priority order, first in first out within each priority, whether or not
  the individual writes succeed. For each frame exactly one packet is handed to the socket: the
  stream identity of its priority, the next number of that stream and the frame; the result of the
  write is the link's running number, or the failure. Afterwards the link has counted every send:
  its own number has advanced by the number of all frames, the number of each stream by the frames
  of its queue, and nothing else of the link has changed.
\<close>

theorem drain_strict_priority:
  assumes "queues_ok (queues s)"
  shows "\<exists>sent s'. drain ok s = Ret (sent, s')
     \<and> map (\<lambda>(f, p, pkt, res). (f, p)) sent
        = concat (map (\<lambda>p. map (\<lambda>f. (f, p)) (queue_lane (queues s) p)) [Emergency, Critical, High, Bulk])
     \<and> (\<forall>n < length sent. snd (snd (sent ! n)) = (sent_packet (sched_link s) sent n, sent_result ok (sched_link s) n))
     \<and> (\<forall>p. queue_lane (queues s') p = [])
     \<and> sched_link s' = link_after (sched_link s) (\<lambda>p. length (queue_lane (queues s) p))"
proof -
  let ?o = "tx_queue.ordered (queues s)" and ?l = "sched_link s"
  obtain ss l' where all: "send_all ok ?l ?o = (ss, l')" by fastforce
  then obtain s' where s': "drain ok s = Ret (ss, s')" "sched_link s' = l'" "\<forall>p. queue_lane (queues s') p = []"
    using drain_sends [OF assms, of ok] by auto
  have lanes: "(\<lambda>p. length (filter (\<lambda>x. snd x = p) ?o)) = (\<lambda>p. length (queue_lane (queues s) p))"
    by (rule ext) (simp flip: lane_filter)
  have "map (\<lambda>(f, p, pkt, res). (f, p)) ss = ?o"
    using send_all_frames [OF all] by (simp add: split_def)
  moreover have "\<forall>n < length ss. snd (snd (ss ! n)) = (sent_packet ?l ss n, sent_result ok ?l n)"
    using send_all_nth [OF all] by simp
  moreover have "l' = link_after ?l (\<lambda>p. length (queue_lane (queues s) p))"
    using send_all_link [OF all] unfolding lanes .
  ultimately show ?thesis
    using s' by (intro exI [of _ ss] exI [of _ s']) (simp add: tx_queue.ordered_def PRIORITIES_def)
qed

text \<open>
  A frame enqueued with a priority at which, and above which, nothing is waiting is the next
  one popped, whatever is queued at lower priorities.
\<close>

lemma enqueue_overtakes_lower:
  assumes "queues_ok (queues s)" and "\<forall>p' \<le> prio. queue_lane (queues s) p' = []"
  shows "\<exists>q. pop_next (queues (enqueue s frame prio)) = Ret (Some (frame, prio), q)"
proof -
  have "queues_ok (push (queues s) frame prio)"
    using assms(1) by (rule tx_queue.ok_enq)
  then show ?thesis
    using tx_queue.overtakes [OF assms, of frame] pop_next_total
    by (cases "pop_total (push (queues s) frame prio)") (simp add: enqueue_def)
qed

section \<open>Witnesses\<close>

text \<open>The four frames of the unit test in \<^verbatim>\<open>scheduler.rs\<close>, enqueued out of order.\<close>

definition demo_queues :: Queues where
  "demo_queues = push (push (push (push Queues_new [3] Bulk) [0] Emergency) [2] High) [1] Critical"

lemma demo_queues_eq: "demo_queues = \<lparr>inner = [[[0]], [[1]], [[2]], [[3]]]\<rparr>"
  by (simp add: demo_queues_def push_def Queues_new_def Let_def)

theorem drain_strict_priority_witness:
  "\<forall>l. \<exists>sent s'. drain (\<lambda>_. False) \<lparr>queues = demo_queues, sched_link = l\<rparr> = Ret (sent, s')
     \<and> map (\<lambda>(f, p, pkt, res). (f, p)) sent = [([0], Emergency), ([1], Critical), ([2], High), ([3], Bulk)]
     \<and> fst (snd (snd (sent ! 3))) = to_le_bytes 4 (tx_stream_id (tx l Bulk)) @ to_le_bytes 4 (tx_seq (tx l Bulk)) @ [3]
     \<and> snd (snd (snd (sent ! 3))) = Inl IoError
     \<and> link_seq (sched_link s') = link_seq l + 4 \<and> tx_seq (tx (sched_link s') High) = tx_seq (tx l High) + 1"
proof
  fix l
  let ?s = "\<lparr>queues = demo_queues, sched_link = l\<rparr>" and ?ok = "\<lambda>_ :: u64. False"
  show "\<exists>sent s'. drain ?ok ?s = Ret (sent, s')
     \<and> map (\<lambda>(f, p, pkt, res). (f, p)) sent = [([0], Emergency), ([1], Critical), ([2], High), ([3], Bulk)]
     \<and> fst (snd (snd (sent ! 3))) = to_le_bytes 4 (tx_stream_id (tx l Bulk)) @ to_le_bytes 4 (tx_seq (tx l Bulk)) @ [3]
     \<and> snd (snd (snd (sent ! 3))) = Inl IoError
     \<and> link_seq (sched_link s') = link_seq l + 4 \<and> tx_seq (tx (sched_link s') High) = tx_seq (tx l High) + 1"
  proof -
    from drain_strict_priority [of ?s ?ok] obtain sent s' where d: "drain ?ok ?s = Ret (sent, s')"
      and frames: "map (\<lambda>(f, p, pkt, res). (f, p)) sent = [([0], Emergency), ([1], Critical), ([2], High), ([3], Bulk)]"
      and pkts: "\<forall>n < length sent. snd (snd (sent ! n)) = (sent_packet l sent n, sent_result ?ok l n)"
      and link: "sched_link s' = link_after l (\<lambda>p. length (queue_lane demo_queues p))"
      by (auto simp: demo_queues_eq queues_ok_def queue_lane_def)
    from frames obtain a b c d where sent: "sent = [([0], Emergency, a), ([1], Critical, b), ([2], High, c), ([3], Bulk, d)]"
      by auto
    have "snd (snd (sent ! 3)) = (sent_packet l sent 3, sent_result ?ok l 3)"
      using pkts [THEN spec, of 3] by (simp add: sent)
    then show ?thesis
      using d link frames by (simp add: sent sent_packet_def sent_result_def on_prio_def link_after_def
        demo_queues_eq queue_lane_def)
  qed
qed

lemma enqueue_overtakes_lower_example:
  "\<forall>l. \<exists>q. pop_next (queues (enqueue \<lparr>queues = push Queues_new [3] Bulk, sched_link = l\<rparr> [9] Critical))
     = Ret (Some ([9], Critical), q)"
proof
  fix l
  have "\<forall>p' \<le> Critical. queue_lane (push Queues_new [3] Bulk) p' = []"
    unfolding upto_Priority below_Priority
    by (simp add: queue_lane_def push_def Queues_new_def Let_def)
  then show "\<exists>q. pop_next (queues (enqueue \<lparr>queues = push Queues_new [3] Bulk, sched_link = l\<rparr> [9] Critical))
     = Ret (Some ([9], Critical), q)"
    by (intro enqueue_overtakes_lower) (simp_all add: tx_queue.ok_enq)
qed

end
