(* ===== verification/Dijkstra.thy ===== *)
theory Dijkstra
  imports Prelude "HOL-Library.Multiset" "HOL-Library.Product_Lexorder"
begin

text \<open>
  The shortest-path search inside \<^verbatim>\<open>recompute_routes\<close> of \<^verbatim>\<open>tacticalmesh-olsr/src/state.rs\<close>: the
  priority queue, the relaxation of one edge, the main loop and the walk back along the
  predecessors. The edges of a node are an argument here; the router supplies them. Costs are
  32-bit words added with saturation, as in the source.
\<close>

section \<open>The priority queue\<close>

text \<open>
  \<^verbatim>\<open>BinaryHeap<Reverse<(u32, u8)>>\<close> pops a least pair in lexicographic order. Equal pairs are
  indistinguishable, so a sorted list pops the same sequence.
\<close>

type_synonym heap = "(u32 \<times> u8) list"

definition heap_push :: "heap \<Rightarrow> u32 \<times> u8 \<Rightarrow> heap" where
  "heap_push h x = insort x h"

definition heap_pop :: "heap \<Rightarrow> ((u32 \<times> u8) \<times> heap) option" where
  "heap_pop h = (case h of [] \<Rightarrow> None | x # h' \<Rightarrow> Some (x, h'))"

locale min_heap =
  fixes push :: "'h \<Rightarrow> 'a::linorder \<Rightarrow> 'h"
    and pop :: "'h \<Rightarrow> ('a \<times> 'h) option"
    and items :: "'h \<Rightarrow> 'a multiset"
    and ok :: "'h \<Rightarrow> bool"
  assumes ok_push: "ok h \<Longrightarrow> ok (push h x)"
    and items_push: "items (push h x) = add_mset x (items h)"
    and pop_None: "pop h = None \<longleftrightarrow> items h = {#}"
    and pop_items: "pop h = Some (x, h') \<Longrightarrow> items h = add_mset x (items h')"
    and pop_ok: "ok h \<Longrightarrow> pop h = Some (x, h') \<Longrightarrow> ok h' \<and> (\<forall>y \<in># items h'. x \<le> y)"
begin

lemma pop_size: "pop h = Some (x, h') \<Longrightarrow> size (items h') < size (items h)"
  by (drule pop_items) simp

lemma pop_least: "ok h \<Longrightarrow> pop h = Some (x, h') \<Longrightarrow> y \<in># items h \<Longrightarrow> x \<le> y"
  using pop_items pop_ok by fastforce

lemma push_pop_least:
  "ok h \<Longrightarrow> pop (push h x) = Some (y, h') \<Longrightarrow> y \<le> x"
  using pop_least [OF ok_push] by (simp add: items_push)

end

interpretation list_heap: min_heap heap_push heap_pop mset sorted
  by unfold_locales (auto simp: heap_push_def heap_pop_def sorted_insort split: list.splits)

section \<open>The search\<close>

type_synonym edge_fun = "u8 \<Rightarrow> (u8 \<times> u32) list"

definition u32_MAX :: u32 where "u32_MAX = 4294967295"

record search =
  sr_dist :: "u8 \<rightharpoonup> u32"
  sr_prev :: "u8 \<rightharpoonup> u8"
  sr_heap :: heap

definition search_init :: "u8 \<Rightarrow> search" where
  "search_init src = \<lparr>sr_dist = [src \<mapsto> 0], sr_prev = Map.empty, sr_heap = heap_push [] (0, src)\<rparr>"

definition relax :: "u32 \<Rightarrow> u8 \<Rightarrow> search \<Rightarrow> u8 \<times> u32 \<Rightarrow> search" where
  "relax d u s = (\<lambda>(v, edge_cost).
     let new_dist = saturating_add d edge_cost in
     if new_dist < unwrap_or (sr_dist s v) u32_MAX
     then \<lparr>sr_dist = (sr_dist s)(v \<mapsto> new_dist), sr_prev = (sr_prev s)(v \<mapsto> u),
           sr_heap = heap_push (sr_heap s) (new_dist, v)\<rparr>
     else s)"

text \<open>The labels only ever decrease, which bounds the number of rounds.\<close>

definition label :: "search \<Rightarrow> u8 \<Rightarrow> nat" where
  "label s v = unat (unwrap_or (sr_dist s v) u32_MAX)"

definition potential :: "search \<Rightarrow> nat" where
  "potential s = (\<Sum>v \<in> UNIV. label s v)"

lemma u32_MAX_eq: "unat u32_MAX = 2 ^ 32 - 1" "u32_MAX = - 1"
  by (simp_all add: u32_MAX_def)

lemma unat_saturating_add_u32:
  "unat (saturating_add (a :: u32) b) = min (unat a + unat b) (2 ^ 32 - 1)"
  using unat_saturating_add [of a b] by simp

lemma label_le: "label s v \<le> 2 ^ 32 - 1"
proof -
  have "unat x < 2 ^ 32" for x :: u32
    using unsigned_less [of x, where 'a = nat] by simp
  then show ?thesis
    using less_eq_Suc_le by (fastforce simp: label_def)
qed

lemma relax_cases:
  obtains (same) "relax d u s (v, c) = s" and "label s v \<le> unat (saturating_add d c)"
  | (lower) "unat d + unat c < label s v" and "unat (saturating_add d c) = unat d + unat c"
    and "relax d u s (v, c) =
      \<lparr>sr_dist = (sr_dist s)(v \<mapsto> saturating_add d c), sr_prev = (sr_prev s)(v \<mapsto> u),
       sr_heap = heap_push (sr_heap s) (saturating_add d c, v)\<rparr>"
proof (cases "saturating_add d c < unwrap_or (sr_dist s v) u32_MAX")
  case True
  then have lt: "unat (saturating_add d c) < label s v"
    by (simp add: label_def word_less_nat_alt)
  moreover have "label s v \<le> 2 ^ 32 - 1"
    by (rule label_le)
  ultimately have "unat (saturating_add d c) = unat d + unat c"
    using unat_saturating_add_u32 [of d c] by linarith
  with lt True show thesis by (intro lower) (simp_all add: relax_def Let_def)
next
  case False
  then show thesis
    by (intro same) (simp_all add: relax_def Let_def label_def word_less_nat_alt)
qed

lemma label_update:
  "label (s\<lparr>sr_dist := (sr_dist s)(v \<mapsto> d)\<rparr>) x = (if x = v then unat d else label s x)"
  by (simp add: label_def)

lemma relax_label: "label (relax d u s e) v \<le> label s v"
  by (cases e, cases rule: relax_cases [of d u s "fst e" "snd e"]) (auto simp: label_def)

lemma relax_potential: "relax d u s e = s \<or> potential (relax d u s e) < potential s"
proof (cases e)
  case (Pair v c)
  show ?thesis
  proof (cases rule: relax_cases [of d u s v c])
    case lower
    have "label (relax d u s e) v < label s v"
      using lower by (simp add: Pair label_def)
    then have "potential (relax d u s e) < potential s"
      unfolding potential_def by (intro sum_strict_mono_ex1) (auto intro: relax_label)
    then show ?thesis by simp
  qed (simp add: Pair)
qed

lemma relax_all_potential:
  "foldl (relax d u) s es = s \<or> potential (foldl (relax d u) s es) < potential s"
proof (induction es arbitrary: s)
  case (Cons e es)
  from Cons [of "relax d u s e"] relax_potential [of d u s e] show ?case by auto
qed simp

lemma potential_heap [simp]: "potential (s\<lparr>sr_heap := h\<rparr>) = potential s"
  by (simp add: potential_def label_def)

function search_loop :: "edge_fun \<Rightarrow> search \<Rightarrow> search" where
  "search_loop edges s =
     (case heap_pop (sr_heap s) of
        None \<Rightarrow> s
      | Some ((d, u), h) \<Rightarrow>
          (let s = s\<lparr>sr_heap := h\<rparr> in
           if unwrap_or (sr_dist s u) u32_MAX < d then search_loop edges s
           else search_loop edges (foldl (relax d u) s (edges u))))"
  by pat_completeness auto
termination
proof (relation "measures [\<lambda>(_, s). potential s, \<lambda>(_, s). length (sr_heap s)]", goal_cases)
  case (3 edges s p x h d u s')
  then show ?case
    using relax_all_potential [of d u "s\<lparr>sr_heap := h\<rparr>" "edges u"]
    by (auto simp: heap_pop_def split: list.splits)
qed (auto simp: heap_pop_def split: list.splits)

declare search_loop.simps [simp del]

section \<open>The walk back along the predecessors\<close>

definition OLSR_MAX_HOPS :: u8 where "OLSR_MAX_HOPS = 8"

function walk_back :: "(u8 \<rightharpoonup> u8) \<Rightarrow> u8 \<Rightarrow> u8 \<Rightarrow> u8 \<Rightarrow> u8 \<times> u8" where
  "walk_back prev src nxt hop_count =
     (case prev nxt of
        Some p \<Rightarrow>
          (let hop_count = saturating_add hop_count 1 in
           if p = src then (nxt, hop_count)
           else if OLSR_MAX_HOPS \<le> hop_count then (p, hop_count)
           else walk_back prev src p hop_count)
      | None \<Rightarrow> (nxt, hop_count))"
  by pat_completeness auto
termination
  by (relation "measure (\<lambda>(_, _, _, h). 8 - unat h)")
    (auto simp: OLSR_MAX_HOPS_def word_le_nat_alt unat_saturating_add)

declare walk_back.simps [simp del]

end
