(* ===== verification/ShortestPath.thy ===== *)
theory ShortestPath
  imports Dijkstra
begin

text \<open>
  Correctness of the search, for every graph with positive costs below 2 to the 16: the labels
  are the least costs of walks, exactly the reachable nodes are labelled, the addition never
  saturates, and the walk back finds the first hop of a least-cost walk. The router's graph is
  an instance of the interface \<open>link_graph\<close>.
\<close>

section \<open>Walks\<close>

inductive walk :: "edge_fun \<Rightarrow> u8 \<Rightarrow> u8 \<Rightarrow> nat \<Rightarrow> nat \<Rightarrow> bool" for E where
  walk_refl: "walk E a a 0 0"
| walk_snoc: "walk E a u c n \<Longrightarrow> (v, w) \<in> set (E u) \<Longrightarrow> walk E a v (c + unat w) (Suc n)"

inductive_cases walkE: "walk E a v c n"

lemma walk_edge: "(v, w) \<in> set (E u) \<Longrightarrow> walk E u v (unat w) 1"
  using walk_snoc [OF walk_refl] by fastforce

lemma walk_trans: "walk E b v c' n' \<Longrightarrow> walk E a b c n \<Longrightarrow> walk E a v (c + c') (n + n')"
proof (induction rule: walk.induct)
  case (walk_snoc b u c' n' v w)
  then show ?case
    using walk.walk_snoc [of E a u "c + c'" "n + n'" v w] by (simp add: add.assoc)
qed simp

section \<open>The invariant of the loop\<close>

text \<open>
  Every label is the cost of a walk; every queued pair is a label or an outdated one; the
  predecessor of a node explains its label.
\<close>

definition search_inv :: "edge_fun \<Rightarrow> u8 \<Rightarrow> search \<Rightarrow> bool" where
  "search_inv E src s \<longleftrightarrow>
     sr_dist s src = Some 0
   \<and> (\<forall>v d. sr_dist s v = Some d \<longrightarrow> (\<exists>n. walk E src v (unat d) n))
   \<and> (\<forall>(d, v) \<in> set (sr_heap s). sr_dist s v \<noteq> None \<and> label s v \<le> unat d)
   \<and> (\<forall>v p. sr_prev s v = Some p \<longrightarrow> sr_dist s p \<noteq> None \<and> sr_dist s v \<noteq> None
        \<and> (\<exists>w. (v, w) \<in> set (E p) \<and> label s p + unat w \<le> label s v))
   \<and> (\<forall>v. sr_dist s v \<noteq> None \<and> v \<noteq> src \<longrightarrow> sr_prev s v \<noteq> None)"

text \<open>
  A labelled node is queued with its label or its edges are relaxed; of the node \<open>u0\<close> that is
  being expanded, the edges in \<open>rest\<close> are still to do.
\<close>

definition relaxed :: "search \<Rightarrow> nat \<Rightarrow> u8 \<times> u32 \<Rightarrow> bool" where
  "relaxed s d e \<longleftrightarrow> label s (fst e) \<le> min (d + unat (snd e)) (2 ^ 32 - 1)"

definition pending :: "edge_fun \<Rightarrow> search \<Rightarrow> u8 \<Rightarrow> (u8 \<times> u32) list \<Rightarrow> bool" where
  "pending E s u0 rest \<longleftrightarrow>
     (\<forall>u d. sr_dist s u = Some d \<longrightarrow> (d, u) \<in> set (sr_heap s)
        \<or> (\<forall>e \<in> set (E u). u = u0 \<and> e \<in> set rest \<or> relaxed s (unat d) e))"

lemma label_Some [simp]: "sr_dist s v = Some d \<Longrightarrow> label s v = unat d"
  by (simp add: label_def)

lemma search_invD:
  assumes "search_inv E src s"
  shows "sr_dist s src = Some 0"
    and "\<And>v d. sr_dist s v = Some d \<Longrightarrow> \<exists>n. walk E src v (unat d) n"
    and "\<And>d v. (d, v) \<in> set (sr_heap s) \<Longrightarrow> sr_dist s v \<noteq> None \<and> label s v \<le> unat d"
    and "\<And>v p. sr_prev s v = Some p \<Longrightarrow> sr_dist s p \<noteq> None \<and> sr_dist s v \<noteq> None
        \<and> (\<exists>w. (v, w) \<in> set (E p) \<and> label s p + unat w \<le> label s v)"
    and "\<And>v. sr_dist s v \<noteq> None \<Longrightarrow> v \<noteq> src \<Longrightarrow> sr_prev s v \<noteq> None"
  using assms by (auto simp: search_inv_def)

lemma search_init_inv: "search_inv E src (search_init src)" "pending E (search_init src) u []"
  by (auto simp: search_inv_def search_init_def pending_def heap_push_def label_def walk_refl
      intro: walk_refl split: if_splits)

lemma set_heap_push [simp]: "set (heap_push h x) = insert x (set h)"
  by (simp add: heap_push_def set_insort_key)

lemma relax_inv:
  assumes inv: "search_inv E src s" and u: "sr_dist s u = Some d" and e: "(v, c) \<in> set (E u)"
  shows "search_inv E src (relax d u s (v, c))"
proof (cases rule: relax_cases [of d u s v c])
  case lower
  note I = search_invD [OF inv]
  let ?s = "relax d u s (v, c)" and ?nd = "saturating_add d c"
  have lab: "label ?s x = (if x = v then unat d + unat c else label s x)" for x
    using lower by (simp add: label_def)
  have dst: "sr_dist ?s = (sr_dist s)(v \<mapsto> ?nd)" and prv: "sr_prev ?s = (sr_prev s)(v \<mapsto> u)"
    and hp: "set (sr_heap ?s) = insert (?nd, v) (set (sr_heap s))"
    using lower(3) by simp_all
  have "v \<noteq> src" using lower(1) I(1) by auto
  have "v \<noteq> u" using lower(1) u by auto
  obtain n where "walk E src u (unat d) n" using I(2) [OF u] by blast
  then have wv: "walk E src v (unat ?nd) (Suc n)"
    using walk_snoc e lower(2) by metis
  have le: "label ?s x \<le> label s x" for x using relax_label by simp
  have prv_ok: "sr_dist ?s p \<noteq> None \<and> sr_dist ?s x \<noteq> None
      \<and> (\<exists>w. (x, w) \<in> set (E p) \<and> label ?s p + unat w \<le> label ?s x)"
    if pv: "sr_prev ?s x = Some p" for x p
  proof (cases "x = v")
    case True
    then have "p = u" using pv prv by simp
    then show ?thesis using True e u dst lab \<open>v \<noteq> u\<close> by auto
  next
    case False
    then have "sr_prev s x = Some p" using pv prv by simp
    from I(4) [OF this] obtain w where "sr_dist s p \<noteq> None" "sr_dist s x \<noteq> None"
      "(x, w) \<in> set (E p)" "label s p + unat w \<le> label s x" by blast
    then show ?thesis using False dst lab le [of p]
      by (auto intro!: exI [of _ w])
  qed
  show ?thesis
    unfolding search_inv_def
  proof (intro conjI allI impI ballI)
    show "sr_dist ?s src = Some 0" using dst I(1) \<open>v \<noteq> src\<close> by simp
  next
    fix x dx assume "sr_dist ?s x = Some dx"
    then show "\<exists>n. walk E src x (unat dx) n" using dst wv I(2) by (auto split: if_splits)
  next
    fix p assume "p \<in> set (sr_heap ?s)"
    then consider "p = (?nd, v)" | "p \<in> set (sr_heap s)" using hp by blast
    then show "case p of (dx, x) \<Rightarrow> sr_dist ?s x \<noteq> None \<and> label ?s x \<le> unat dx"
    proof cases
      case 1
      then show ?thesis using dst lower(2) lab by simp
    next
      case 2
      obtain dx x where p: "p = (dx, x)" by fastforce
      show ?thesis using I(3) [of dx x] 2 p dst le [of x] by auto
    qed
  next
    fix x p assume "sr_prev ?s x = Some p"
    from prv_ok [OF this] show "sr_dist ?s p \<noteq> None" "sr_dist ?s x \<noteq> None"
      "\<exists>w. (x, w) \<in> set (E p) \<and> label ?s p + unat w \<le> label ?s x" by blast+
  next
    fix x assume "sr_dist ?s x \<noteq> None \<and> x \<noteq> src"
    then show "sr_prev ?s x \<noteq> None" using dst prv I(5) by (auto split: if_splits)
  qed
qed (use inv in simp)

lemma relax_pending:
  assumes u: "sr_dist s u = Some d" and pend: "pending E s u ((v, c) # rest)"
  shows "pending E (relax d u s (v, c)) u rest" and "sr_dist (relax d u s (v, c)) u = Some d"
proof -
  let ?s = "relax d u s (v, c)"
  have done_: "relaxed ?s (unat d) (v, c)"
    by (cases rule: relax_cases [of d u s v c])
      (auto simp: relaxed_def label_def unat_saturating_add_u32)
  have mono: "relaxed s dx e \<Longrightarrow> relaxed ?s dx e" for dx e
    unfolding relaxed_def using relax_label order.trans by blast
  have old: "sr_dist ?s x = Some dx \<Longrightarrow> (dx, x) \<in> set (sr_heap ?s) \<or> sr_dist s x = Some dx" for x dx
    by (cases rule: relax_cases [of d u s v c]) (auto split: if_splits)
  have heap: "set (sr_heap s) \<subseteq> set (sr_heap ?s)"
    by (cases rule: relax_cases [of d u s v c]) auto
  show "sr_dist ?s u = Some d"
    using u by (cases rule: relax_cases [of d u s v c]) auto
  show "pending E ?s u rest"
    unfolding pending_def
  proof (intro allI impI)
    fix x dx assume "sr_dist ?s x = Some dx"
    with old consider "(dx, x) \<in> set (sr_heap ?s)" | "sr_dist s x = Some dx" by blast
    then show "(dx, x) \<in> set (sr_heap ?s)
        \<or> (\<forall>e \<in> set (E x). x = u \<and> e \<in> set rest \<or> relaxed ?s (unat dx) e)"
    proof cases
      case 2
      then show ?thesis
        using pend u done_ mono heap unfolding pending_def by fastforce
    qed blast
  qed
qed

lemma relax_all:
  assumes "search_inv E src s" and "sr_dist s u = Some d" and "set es \<subseteq> set (E u)" and "pending E s u es"
  shows "search_inv E src (foldl (relax d u) s es)" and "pending E (foldl (relax d u) s es) u []"
proof -
  have "search_inv E src (foldl (relax d u) s es) \<and> pending E (foldl (relax d u) s es) u []"
    using assms
  proof (induction es arbitrary: s)
    case (Cons e es)
    obtain v c where e: "e = (v, c)" by fastforce
    with Cons.prems relax_inv relax_pending show ?case
      by (simp add: Cons.IH)
  qed simp
  then show "search_inv E src (foldl (relax d u) s es)" and "pending E (foldl (relax d u) s es) u []"
    by auto
qed

lemma pending_Nil: "pending E s u [] \<longleftrightarrow> pending E s v []"
  by (simp add: pending_def)

lemma relaxed_heap [simp]: "relaxed (s\<lparr>sr_heap := h\<rparr>) = relaxed s"
  by (simp add: relaxed_def label_def fun_eq_iff)

lemma pending_pop:
  "pending E s u0 [] \<Longrightarrow> sr_heap s = (d, u) # h \<Longrightarrow> sr_dist s u \<noteq> Some d \<Longrightarrow>
     pending E (s\<lparr>sr_heap := h\<rparr>) u0 []"
  unfolding pending_def by auto

lemma pending_expand:
  "pending E s u0 [] \<Longrightarrow> sr_heap s = (d, u) # h \<Longrightarrow> pending E (s\<lparr>sr_heap := h\<rparr>) u (E u)"
  unfolding pending_def by auto

text \<open>When the loop ends, every edge out of a labelled node is relaxed.\<close>

lemma search_loop_inv:
  assumes "search_inv E src s" and "pending E s u0 []"
  shows "search_inv E src (search_loop E s) \<and> pending E (search_loop E s) u0 []
    \<and> sr_heap (search_loop E s) = []"
  using assms
proof (induction E s rule: search_loop.induct)
  case (1 E s)
  note I = search_invD [OF "1.prems"(1)]
  show ?case
  proof (cases "sr_heap s")
    case Nil
    then show ?thesis using "1.prems" by (subst (1 2 3) search_loop.simps) (simp add: heap_pop_def)
  next
    case (Cons x h)
    obtain d u where x: "x = (d, u)" by fastforce
    let ?s = "s\<lparr>sr_heap := h\<rparr>"
    have pop: "heap_pop (sr_heap s) = Some ((d, u), h)" by (simp add: Cons x heap_pop_def)
    obtain du where du: "sr_dist s u = Some du" "unat du \<le> unat d"
      using I(3) [of d u] Cons x by auto
    have inv: "search_inv E src ?s"
      using "1.prems"(1) Cons by (simp add: search_inv_def label_def)
    have step: "search_loop E s = (if du < d then search_loop E ?s
        else search_loop E (foldl (relax d u) ?s (E u)))"
      by (subst search_loop.simps) (simp add: pop du Let_def)
    show ?thesis
    proof (cases "du < d")
      case True
      then have "pending E ?s u0 []"
        using pending_pop [OF "1.prems"(2)] du Cons x by simp
      then show ?thesis using "1.IH"(1) [OF pop refl refl refl] inv step True du by simp
    next
      case False
      with du have eq: "du = d" by (simp add: word_le_nat_alt [symmetric] not_less)
      have "pending E ?s u (E u)"
        using pending_expand [OF "1.prems"(2)] Cons x by simp
      then have "search_inv E src (foldl (relax d u) ?s (E u))" "pending E (foldl (relax d u) ?s (E u)) u0 []"
        using relax_all [OF inv, of u d "E u"] du eq pending_Nil by auto
      then show ?thesis using "1.IH"(2) [OF pop refl refl refl] step False du eq by simp
    qed
  qed
qed

section \<open>The result of the search\<close>

definition shortest :: "edge_fun \<Rightarrow> u8 \<Rightarrow> search" where
  "shortest E src = search_loop E (search_init src)"

lemma shortest_inv: "search_inv E src (shortest E src)"
  using search_loop_inv [OF search_init_inv] by (simp add: shortest_def)

lemma shortest_relaxed:
  assumes "sr_dist (shortest E src) u = Some d" and "(v, w) \<in> set (E u)"
  shows "label (shortest E src) v \<le> min (unat d + unat w) (2 ^ 32 - 1)"
  using search_loop_inv [OF search_init_inv, of E src] assms
  by (fastforce simp: shortest_def pending_def relaxed_def)

text \<open>The chain of predecessors from \<open>v\<close> back to the source, in \<open>n\<close> hops.\<close>

inductive chain :: "(u8 \<rightharpoonup> u8) \<Rightarrow> u8 \<Rightarrow> u8 \<Rightarrow> nat \<Rightarrow> bool" for prv src where
  chain_src: "chain prv src src 0"
| chain_step: "prv v = Some p \<Longrightarrow> v \<noteq> src \<Longrightarrow> chain prv src p n \<Longrightarrow> chain prv src v (Suc n)"

inductive_simps chain_0: "chain prv src v 0"
inductive_simps chain_Suc: "chain prv src v (Suc n)"

text \<open>Part of a chain: \<open>x\<close> is \<open>n\<close> predecessors up from \<open>v\<close>.\<close>

inductive upchain :: "(u8 \<rightharpoonup> u8) \<Rightarrow> u8 \<Rightarrow> u8 \<Rightarrow> nat \<Rightarrow> bool" for prv x where
  upchain_refl: "upchain prv x x 0"
| upchain_step: "prv v = Some p \<Longrightarrow> upchain prv x p n \<Longrightarrow> upchain prv x v (Suc n)"

text \<open>
  Following a chain of \<open>n\<close> hops, the walk back stops at the node before the source, or eight
  hops up when the chain is longer.
\<close>

lemma walk_back_chain:
  assumes "chain prv src v (Suc n)" and "unat h < 8"
  shows "unat (snd (walk_back prv src v h)) = min 8 (unat h + Suc n)
    \<and> (unat h + Suc n \<le> 9 \<longrightarrow> prv (fst (walk_back prv src v h)) = Some src
          \<and> upchain prv (fst (walk_back prv src v h)) v n)"
  using assms
proof (induction n arbitrary: v h)
  case 0
  then have "prv v = Some src" by (simp add: chain_Suc chain_0)
  with 0 show ?case
    by (subst (1 2 3) walk_back.simps) (simp add: unat_saturating_add upchain_refl)
next
  case (Suc n)
  then obtain p where p: "prv v = Some p" "chain prv src p (Suc n)"
    by (auto simp: chain_Suc [of _ _ _ "Suc n"])
  then have "p \<noteq> src" by (auto simp: chain_Suc)
  let ?h = "saturating_add h 1"
  have h: "unat ?h = Suc (unat h)" using Suc.prems by (simp add: unat_saturating_add)
  have step: "walk_back prv src v h = (if OLSR_MAX_HOPS \<le> ?h then (p, ?h) else walk_back prv src p ?h)"
    using p \<open>p \<noteq> src\<close> by (subst walk_back.simps) (simp add: Let_def)
  show ?case
  proof (cases "unat ?h < 8")
    case True
    then show ?thesis
      using Suc.IH [OF p(2) True] step h
      by (auto simp: OLSR_MAX_HOPS_def word_le_nat_alt intro: upchain_step [of prv, OF p(1)])
  next
    case False
    moreover have "n = 0 \<Longrightarrow> prv p = Some src \<and> upchain prv p v (Suc 0)"
      using p upchain_step [of prv, OF p(1) upchain_refl] by (simp add: chain_Suc chain_0)
    ultimately show ?thesis
      using step h Suc.prems(2) by (cases n) (auto simp: OLSR_MAX_HOPS_def word_le_nat_alt)
  qed
qed

text \<open>
  What the search needs of the graph. The upper bound keeps the cost of any path without a
  cycle far below the saturation value.
\<close>

locale link_graph =
  fixes E :: edge_fun
  assumes cost_pos: "(v, w) \<in> set (E u) \<Longrightarrow> 0 < unat w"
    and cost_bound: "(v, w) \<in> set (E u) \<Longrightarrow> unat w < 2 ^ 16"
begin

lemma prev_label:
  assumes "sr_prev (shortest E src) v = Some p"
  obtains w where "(v, w) \<in> set (E p)"
    and "label (shortest E src) v = label (shortest E src) p + unat w"
    and "sr_dist (shortest E src) p \<noteq> None"
proof -
  from search_invD(4) [OF shortest_inv assms] obtain w where w: "(v, w) \<in> set (E p)"
    "label (shortest E src) p + unat w \<le> label (shortest E src) v" "sr_dist (shortest E src) p \<noteq> None"
    by blast
  moreover have "label (shortest E src) v \<le> label (shortest E src) p + unat w"
    using shortest_relaxed [of E src p _ v w] w(1,3) by fastforce
  ultimately show thesis using that by force
qed

lemma no_saturation:
  assumes "sr_dist (shortest E src) v \<noteq> None"
  shows "label (shortest E src) v
           \<le> 2 ^ 16 * card {u. label (shortest E src) u < label (shortest E src) v}"
  using assms
proof (induction "label (shortest E src) v" arbitrary: v rule: less_induct)
  case less
  let ?l = "label (shortest E src)"
  show ?case
  proof (cases "v = src")
    case True
    then show ?thesis using search_invD(1) [OF shortest_inv] by simp
  next
    case False
    then obtain p where "sr_prev (shortest E src) v = Some p"
      using search_invD(5) [OF shortest_inv less.prems] by auto
    then obtain w where w: "(v, w) \<in> set (E p)" "?l v = ?l p + unat w"
      "sr_dist (shortest E src) p \<noteq> None" by (rule prev_label)
    then have lt: "?l p < ?l v" using cost_pos by simp
    have "card (insert p {u. ?l u < ?l p}) \<le> card {u. ?l u < ?l v}"
      using lt by (intro card_mono) auto
    then have "2 ^ 16 * card {u. ?l u < ?l p} + 2 ^ 16 \<le> 2 ^ 16 * card {u. ?l u < ?l v}"
      by simp
    then show ?thesis
      using less.hyps [OF lt w(3)] w(2) cost_bound [OF w(1)] by linarith
  qed
qed

lemma label_small:
  assumes "sr_dist (shortest E src) v = Some d"
  shows "unat d + 2 ^ 16 < 2 ^ 32 - 1"
proof -
  have "card {u. label (shortest E src) u < label (shortest E src) v} \<le> card (UNIV :: u8 set)"
    by (intro card_mono) auto
  also have "\<dots> = 256" by (simp add: card_word)
  finally show ?thesis using no_saturation [of src v] assms by simp
qed

text \<open>Labels are lower bounds for all walks, and reachable nodes are labelled.\<close>

lemma label_le_walk:
  "walk E src v c n \<Longrightarrow> \<exists>d. sr_dist (shortest E src) v = Some d \<and> unat d \<le> c"
proof (induction rule: walk.induct)
  case (walk_refl src)
  then show ?case using search_invD(1) [OF shortest_inv] by simp
next
  case (walk_snoc src u c n v w)
  then obtain d where d: "sr_dist (shortest E src) u = Some d" "unat d \<le> c" by blast
  have "label (shortest E src) v \<le> unat d + unat w"
    using shortest_relaxed [OF d(1) walk_snoc(2)] by simp
  moreover have "unat d + unat w < 2 ^ 32 - 1"
    using label_small [OF d(1)] cost_bound [OF walk_snoc(2)] by linarith
  ultimately show ?case
    using d(2) by (cases "sr_dist (shortest E src) v") (auto simp: label_def u32_MAX_def)
qed

lemma chain_exists:
  assumes "sr_dist (shortest E src) v \<noteq> None"
  shows "\<exists>n. chain (sr_prev (shortest E src)) src v n"
  using assms
proof (induction "label (shortest E src) v" arbitrary: v rule: less_induct)
  case less
  show ?case
  proof (cases "v = src")
    case False
    then obtain p where p: "sr_prev (shortest E src) v = Some p"
      using search_invD(5) [OF shortest_inv less.prems] by auto
    then obtain w where "(v, w) \<in> set (E p)"
      "label (shortest E src) v = label (shortest E src) p + unat w"
      "sr_dist (shortest E src) p \<noteq> None" by (rule prev_label)
    then have "\<exists>n. chain (sr_prev (shortest E src)) src p n"
      using cost_pos by (intro less.hyps) auto
    then show ?thesis using p False chain_step by blast
  qed (auto intro: chain_src)
qed

text \<open>The predecessor chain is itself a walk of least cost.\<close>

lemma chain_walk:
  "chain (sr_prev (shortest E src)) src v n \<Longrightarrow> walk E src v (label (shortest E src) v) n"
proof (induction rule: chain.induct)
  case chain_src
  then show ?case using search_invD(1) [OF shortest_inv] by (simp add: walk_refl)
next
  case (chain_step v p n)
  from prev_label [OF chain_step(1)] obtain w where "(v, w) \<in> set (E p)"
    "label (shortest E src) v = label (shortest E src) p + unat w" by blast
  then show ?case using walk_snoc [OF chain_step(4)] by metis
qed

lemma upchain_walk:
  "upchain (sr_prev (shortest E src)) x v n \<Longrightarrow>
     label (shortest E src) x \<le> label (shortest E src) v
     \<and> walk E x v (label (shortest E src) v - label (shortest E src) x) n"
proof (induction rule: upchain.induct)
  case (upchain_step v p n)
  from prev_label [OF upchain_step(1)] obtain w where "(v, w) \<in> set (E p)"
    "label (shortest E src) v = label (shortest E src) p + unat w" by blast
  with upchain_step.IH walk_snoc [of E x p _ n v w] show ?case by fastforce
qed (simp add: walk_refl)

text \<open>
  A route of at most nine hops starts with an edge from the source, followed by a walk of least
  cost from the next hop to the destination.
\<close>

lemma first_hop:
  assumes v: "sr_dist (shortest E src) v = Some d" "v \<noteq> src"
    and b: "walk_back (sr_prev (shortest E src)) src v 0 = (x, h)"
  obtains n where "walk E src v (unat d) (Suc n)" and "unat h = min 8 (Suc n)"
    and "Suc n \<le> 9 \<Longrightarrow> \<exists>w. (x, w) \<in> set (E src) \<and> unat w \<le> unat d \<and> walk E x v (unat d - unat w) n"
proof -
  let ?prv = "sr_prev (shortest E src)"
  obtain m where m: "chain ?prv src v m" using chain_exists v(1) by blast
  then obtain n where n: "m = Suc n" using v(2) by (cases m) (auto simp: chain_0)
  note c = m [unfolded n]
  from walk_back_chain [OF c, of 0] b have h: "unat h = min 8 (Suc n)"
    and near: "Suc n \<le> 9 \<Longrightarrow> ?prv x = Some src \<and> upchain ?prv x v n" by auto
  have "\<exists>w. (x, w) \<in> set (E src) \<and> unat w \<le> unat d \<and> walk E x v (unat d - unat w) n"
    if "Suc n \<le> 9"
  proof -
    note nr = near [OF that]
    from prev_label [of src x src] nr obtain w where w: "(x, w) \<in> set (E src)"
      "label (shortest E src) x = label (shortest E src) src + unat w" by blast
    moreover have "label (shortest E src) src = 0"
      using search_invD(1) [OF shortest_inv] by simp
    ultimately show ?thesis using upchain_walk [of src x v n] nr v(1) by auto
  qed
  with chain_walk [OF c] v(1) h show thesis by (intro that) auto
qed

end

end
