(* ===== verification/Olsr.thy ===== *)
theory Olsr
  imports ShortestPath Frame
begin

text \<open>
  The router, crate \<^verbatim>\<open>tacticalmesh-olsr\<close>: message and table types, link costs, processing of
  HELLO and TC messages, computation of routes, ageing of neighbours, the periodic
  transmissions and the sending of a routed payload. Arithmetic is that of a release build. The
  clock is an argument, and so is the order in which a hash map is traversed: \<open>ord u\<close> is the
  order for the edges out of \<open>u\<close>.
\<close>

section \<open>Types\<close>

definition HELLO_INTERVAL_MS :: u64 where "HELLO_INTERVAL_MS = 1000"
definition TC_INTERVAL_MS :: u64 where "TC_INTERVAL_MS = 2000"
definition NEIGHBOR_TIMEOUT_MS :: u64 where "NEIGHBOR_TIMEOUT_MS = 3000"
definition AGING_TICK_MS :: u64 where "AGING_TICK_MS = 500"

record LinkQuality =
  lq_rssi_dbm :: i8
  lq_loss_rate_x100 :: u8
  lq_mcs :: u8

definition LinkQuality_default :: LinkQuality where
  "LinkQuality_default = \<lparr>lq_rssi_dbm = - 80, lq_loss_rate_x100 = 0, lq_mcs = 0\<rparr>"

record Hello =
  hello_sender :: u8
  hello_neighbors :: "(u8 \<times> LinkQuality) list"
  hello_sent_at_ms :: u64

record Tc =
  tc_sender :: u8
  tc_seq :: u16
  advertised_neighbors :: "(u8 \<times> LinkQuality) list"
  tc_sent_at_ms :: u64

datatype OlsrMessage = OlsrMessage_Hello Hello | OlsrMessage_Tc Tc

record RouteEntry =
  destination :: u8
  next_hop :: u8
  route_cost :: u32
  hop_count :: u8

record NeighborEntry =
  nb_node_id :: u8
  link_quality :: LinkQuality
  last_hello_ms :: u64
  last_seen_neighbors :: "u8 list"

record OlsrState =
  local_id :: u8
  neighbors :: "u8 \<rightharpoonup> NeighborEntry"
  two_hop :: "u8 \<rightharpoonup> u8 set"
  topology :: "u8 \<rightharpoonup> (u8 \<rightharpoonup> LinkQuality)"
  routes :: "u8 \<rightharpoonup> RouteEntry"
  last_tc_seq :: "u8 \<rightharpoonup> u16"

definition OlsrState_new :: "u8 \<Rightarrow> OlsrState" where
  "OlsrState_new i =
     \<lparr>local_id = i, neighbors = Map.empty, two_hop = Map.empty, topology = Map.empty,
      routes = Map.empty, last_tc_seq = Map.empty\<rparr>"

section \<open>Link costs\<close>

text \<open>The negation of the signal strength is an eight-bit operation and wraps at \<open>-128\<close>.\<close>

definition mcs_base :: "u8 \<Rightarrow> u32" where
  "mcs_base m =
     (if m = 0 then 100 else if m = 1 then 90 else if m = 2 then 80
      else if m = 3 then 70 else if m = 4 then 60 else 50)"

definition link_cost :: "LinkQuality \<Rightarrow> u32" where
  "link_cost q =
     (let base = mcs_base (lq_mcs q);
          loss_penalty = ucast (lq_loss_rate_x100 q) * 10;
          rssi_penalty = word_of_int (max (sint (- lq_rssi_dbm q) - 30) 0) * 2
      in base + loss_penalty + rssi_penalty)"

section \<open>Routes\<close>

type_synonym iter_order = "u8 \<Rightarrow> u8 list"

text \<open>A traversal of a map visits every key once, in some order.\<close>

definition order_ok :: "iter_order \<Rightarrow> bool" where
  "order_ok ord \<longleftrightarrow> (\<forall>u. distinct (ord u) \<and> set (ord u) = UNIV)"

definition edges :: "iter_order \<Rightarrow> OlsrState \<Rightarrow> edge_fun" where
  "edges ord s u =
     (if u = local_id s
      then map (\<lambda>(n, e). (n, link_cost (link_quality e))) (entries (ord u) (neighbors s))
      else case topology s u of
             None \<Rightarrow> []
           | Some m \<Rightarrow> map (\<lambda>(n, q). (n, link_cost q)) (entries (ord u) m))"

definition route_entry :: "u8 \<Rightarrow> search \<Rightarrow> u8 \<Rightarrow> u32 \<Rightarrow> RouteEntry" where
  "route_entry src r dest cost =
     (case walk_back (sr_prev r) src dest 0 of
        (nxt, hops) \<Rightarrow> \<lparr>destination = dest, next_hop = nxt, route_cost = cost, hop_count = hops\<rparr>)"

definition recompute_routes :: "iter_order \<Rightarrow> OlsrState \<Rightarrow> OlsrState" where
  "recompute_routes ord s =
     (let r = search_loop (edges ord s) (search_init (local_id s)) in
      s\<lparr>routes := (\<lambda>dest. if dest = local_id s then None
                        else map_option (route_entry (local_id s) r dest) (sr_dist r dest))\<rparr>)"

definition route_to :: "OlsrState \<Rightarrow> u8 \<Rightarrow> RouteEntry option" where
  "route_to s dst = routes s dst"

definition topology_edges :: "iter_order \<Rightarrow> u8 list \<Rightarrow> OlsrState \<Rightarrow> (u8 \<times> u8 \<times> LinkQuality) list" where
  "topology_edges ord srcs s =
     concat (map (\<lambda>(src, dsts). map (\<lambda>(dst, q). (src, dst, q)) (entries (ord src) dsts))
                 (entries srcs (topology s)))"

section \<open>HELLO and TC messages\<close>

definition gateways_without :: "u8 \<Rightarrow> (u8 \<rightharpoonup> u8 set) \<Rightarrow> u8 \<rightharpoonup> u8 set" where
  "gateways_without n m = retain (\<lambda>_ g. g \<noteq> {}) (\<lambda>k. map_option (\<lambda>g. g - {n}) (m k))"

definition add_gateway :: "OlsrState \<Rightarrow> u8 \<Rightarrow> (u8 \<rightharpoonup> u8 set) \<Rightarrow> u8 \<times> LinkQuality \<Rightarrow> u8 \<rightharpoonup> u8 set" where
  "add_gateway s gw m = (\<lambda>(n, _).
     if n \<noteq> local_id s \<and> neighbors s n = None then m(n \<mapsto> insert gw (unwrap_or (m n) {})) else m)"

definition process_hello ::
  "iter_order \<Rightarrow> u64 \<Rightarrow> Hello \<Rightarrow> u8 \<Rightarrow> i8 \<Rightarrow> OlsrState \<Rightarrow> OlsrState" where
  "process_hello ord now hello from_link rssi s =
     (let n = hello_sender hello in
      if n = local_id s then s
      else
        let mcs = unwrap_or (map_option (\<lambda>(_, q). lq_mcs q)
                    (find (\<lambda>(k, _). k = local_id s) (hello_neighbors hello))) 0;
            quality = \<lparr>lq_rssi_dbm = rssi, lq_loss_rate_x100 = 0, lq_mcs = mcs\<rparr>;
            s1 = s\<lparr>neighbors := (neighbors s)(n \<mapsto>
                     \<lparr>nb_node_id = n, link_quality = quality, last_hello_ms = now,
                      last_seen_neighbors = map fst (hello_neighbors hello)\<rparr>)\<rparr>;
            th = foldl (add_gateway s1 n) (gateways_without n (two_hop s1)) (hello_neighbors hello)
        in recompute_routes ord (s1\<lparr>two_hop := th\<rparr>))"

definition tc_duplicate :: "u16 \<Rightarrow> u16 \<Rightarrow> bool" where
  "tc_duplicate sq last_seq \<longleftrightarrow> sq \<le> last_seq \<and> last_seq - sq < 100"

definition tc_row :: "u8 \<Rightarrow> (u8 \<times> LinkQuality) list \<Rightarrow> u8 \<rightharpoonup> LinkQuality" where
  "tc_row self adv = foldl (\<lambda>m (n, q). if n \<noteq> self then m(n \<mapsto> q) else m) Map.empty adv"

definition process_tc :: "iter_order \<Rightarrow> Tc \<Rightarrow> u8 \<Rightarrow> OlsrState \<Rightarrow> bool \<times> OlsrState" where
  "process_tc ord tc from_link s =
     (if tc_sender tc = local_id s then (False, s)
      else
        let last_seq = unwrap_or (last_tc_seq s (tc_sender tc)) 0 in
        if tc_duplicate (tc_seq tc) last_seq then (False, s)
        else (True, recompute_routes ord
               (s\<lparr>last_tc_seq := (last_tc_seq s)(tc_sender tc \<mapsto> tc_seq tc),
                  topology := (topology s)(tc_sender tc \<mapsto>
                                tc_row (local_id s) (advertised_neighbors tc))\<rparr>)))"

definition should_forward_tc :: "OlsrState \<Rightarrow> Tc \<Rightarrow> bool" where
  "should_forward_tc s tc \<longleftrightarrow>
     tc_sender tc \<noteq> local_id s
     \<and> \<not> tc_duplicate (tc_seq tc) (unwrap_or (last_tc_seq s (tc_sender tc)) 0)"

section \<open>Ageing\<close>

definition is_stale :: "u64 \<Rightarrow> NeighborEntry \<Rightarrow> bool" where
  "is_stale now e \<longleftrightarrow> NEIGHBOR_TIMEOUT_MS < saturating_sub now (last_hello_ms e)"

definition remove_neighbor :: "OlsrState \<Rightarrow> u8 \<Rightarrow> OlsrState" where
  "remove_neighbor s i =
     s\<lparr>neighbors := (neighbors s)(i := None), topology := (topology s)(i := None),
       two_hop := gateways_without i (two_hop s)\<rparr>"

text \<open>One tick of \<^verbatim>\<open>aging_loop\<close>.\<close>

definition aging_tick :: "iter_order \<Rightarrow> u64 \<Rightarrow> OlsrState \<Rightarrow> OlsrState" where
  "aging_tick ord now s =
     (let stale = map fst (filter (\<lambda>(_, e). is_stale now e) (entries (ord (local_id s)) (neighbors s)));
          s' = foldl remove_neighbor s stale
      in if stale = [] then s'
         else if dom (neighbors s') = {} then s'\<lparr>routes := Map.empty\<rparr>
         else recompute_routes ord s')"

section \<open>Periodic transmissions and routed sends\<close>

text \<open>
  \<open>ser\<close> stands for \<^verbatim>\<open>bincode::serialize\<close>; its error is only logged. Each tick returns the
  packet that was handed to the socket, if any, and the link.
\<close>

definition make_hello :: "iter_order \<Rightarrow> u64 \<Rightarrow> OlsrState \<Rightarrow> Hello" where
  "make_hello ord now s =
     \<lparr>hello_sender = local_id s,
      hello_neighbors = map (\<lambda>(i, e). (i, link_quality e)) (entries (ord (local_id s)) (neighbors s)),
      hello_sent_at_ms = now\<rparr>"

definition make_tc :: "iter_order \<Rightarrow> u64 \<Rightarrow> u16 \<Rightarrow> OlsrState \<Rightarrow> Tc" where
  "make_tc ord now sq s =
     \<lparr>tc_sender = local_id s, tc_seq = sq,
      advertised_neighbors = map (\<lambda>(i, e). (i, link_quality e)) (entries (ord (local_id s)) (neighbors s)),
      tc_sent_at_ms = now\<rparr>"

definition send_olsr ::
  "crypto \<Rightarrow> (OlsrMessage \<Rightarrow> string + bytes) \<Rightarrow> u64 \<Rightarrow> bytes \<Rightarrow> bool \<Rightarrow> Identity \<Rightarrow> LinkAdapter
    \<Rightarrow> MsgKind \<Rightarrow> OlsrMessage \<Rightarrow> bytes option \<times> LinkAdapter" where
  "send_olsr C ser now random ok i l k m =
     (case ser m of
        Inl e \<Rightarrow> (None, l)
      | Inr p \<Rightarrow>
          (let frame = build_frame C now random \<lparr>kind = k, payload = p\<rparr> High BROADCAST i in
           case LinkAdapter_send ok l frame High of (pkt, res, l') \<Rightarrow> (Some pkt, l')))"

definition hello_tick ::
  "crypto \<Rightarrow> (OlsrMessage \<Rightarrow> string + bytes) \<Rightarrow> iter_order \<Rightarrow> u64 \<Rightarrow> bytes \<Rightarrow> bool \<Rightarrow> Identity
    \<Rightarrow> OlsrState \<Rightarrow> LinkAdapter \<Rightarrow> bytes option \<times> LinkAdapter" where
  "hello_tick C ser ord now random ok i s l =
     send_olsr C ser now random ok i l OlsrHello (OlsrMessage_Hello (make_hello ord now s))"

definition tc_tick ::
  "crypto \<Rightarrow> (OlsrMessage \<Rightarrow> string + bytes) \<Rightarrow> iter_order \<Rightarrow> u64 \<Rightarrow> bytes \<Rightarrow> bool \<Rightarrow> Identity
    \<Rightarrow> OlsrState \<Rightarrow> u16 \<Rightarrow> LinkAdapter \<Rightarrow> u16 \<times> bytes option \<times> LinkAdapter" where
  "tc_tick C ser ord now random ok i s sq l =
     (let sq' = sq + 1 in
      (sq', send_olsr C ser now random ok i l OlsrTc (OlsrMessage_Tc (make_tc ord now sq' s))))"

datatype route_error = NoRoute u8 | SendFailed link_error

definition route_and_send ::
  "crypto \<Rightarrow> u64 \<Rightarrow> bytes \<Rightarrow> bool \<Rightarrow> OlsrState \<Rightarrow> LinkAdapter \<Rightarrow> Identity \<Rightarrow> bytes \<Rightarrow> MsgKind \<Rightarrow> u8
    \<Rightarrow> Priority \<Rightarrow> bytes option \<times> (route_error + unit) \<times> LinkAdapter" where
  "route_and_send C now random ok s l i p k dst prio =
     (let msg = \<lparr>kind = k, payload = p\<rparr> in
      if dst = BROADCAST then
        (case LinkAdapter_send ok l (build_frame C now random msg prio dst i) prio of
           (pkt, Inl e, l') \<Rightarrow> (Some pkt, Inl (SendFailed e), l')
         | (pkt, Inr _, l') \<Rightarrow> (Some pkt, Inr (), l'))
      else case routes s dst of
        None \<Rightarrow> (None, Inl (NoRoute dst), l)
      | Some route \<Rightarrow>
          (case LinkAdapter_send ok l
                  (build_frame_for_route C now random msg prio dst i (next_hop route)) prio of
             (pkt, Inl e, l') \<Rightarrow> (Some pkt, Inl (SendFailed e), l')
           | (pkt, Inr _, l') \<Rightarrow> (Some pkt, Inr (), l')))"

section \<open>Bounds on link costs\<close>

lemma unat_mcs_base: "50 \<le> unat (mcs_base m)" "unat (mcs_base m) \<le> 100"
  by (simp_all add: mcs_base_def)

lemma unat_link_cost:
  "unat (link_cost q) = unat (mcs_base (lq_mcs q)) + 10 * unat (lq_loss_rate_x100 q)
     + 2 * nat (max (sint (- lq_rssi_dbm q) - 30) 0)"
proof -
  let ?r = "max (sint (- lq_rssi_dbm q) - 30) 0"
  have r: "0 \<le> ?r" "?r < 98"
    using sint_lt [of "- lq_rssi_dbm q"] by auto
  have l: "unat (lq_loss_rate_x100 q) < 256"
    using unsigned_less [of "lq_loss_rate_x100 q", where 'a = nat] by simp
  have "unat (word_of_int ?r :: u32) = nat ?r"
    using r by (simp add: unat_eq_nat_uint unsigned_of_int take_bit_int_eq_self)
  then have "unat (word_of_int ?r * 2 :: u32) = 2 * nat ?r"
    using r by (simp add: unat_word_ariths nat_less_iff)
  moreover have "unat (ucast (lq_loss_rate_x100 q) * 10 :: u32) = 10 * unat (lq_loss_rate_x100 q)"
    using l by (simp add: unat_word_ariths unsigned_ucast_eq take_bit_nat_eq_self)
  ultimately show ?thesis
    using unat_mcs_base [of "lq_mcs q"] l r
    by (simp add: link_cost_def Let_def unat_word_ariths)
qed

lemma link_cost_range: "50 \<le> unat (link_cost q)" "unat (link_cost q) \<le> 2844"
proof -
  have "nat (max (sint (- lq_rssi_dbm q) - 30) 0) \<le> 97"
    using sint_lt [of "- lq_rssi_dbm q"] by auto
  moreover have "unat (lq_loss_rate_x100 q) < 256"
    using unsigned_less [of "lq_loss_rate_x100 q", where 'a = nat] by simp
  ultimately show "50 \<le> unat (link_cost q)" "unat (link_cost q) \<le> 2844"
    using unat_mcs_base [of "lq_mcs q"] unfolding unat_link_cost by linarith+
qed

text \<open>The router's edges satisfy what the search needs.\<close>

lemma edges_cost: "(v, w) \<in> set (edges ord s u) \<Longrightarrow> \<exists>q. w = link_cost q"
  by (auto simp: edges_def split: if_splits option.splits)

interpretation olsr_graph: link_graph "edges ord s" for ord s
proof
  show "0 < unat w" if e: "(v, w) \<in> set (edges ord s u)" for u v w
  proof -
    obtain q where "w = link_cost q" using edges_cost [OF e] ..
    then have "50 \<le> unat w" using link_cost_range(1) [of q] by simp
    then show ?thesis by linarith
  qed
  show "unat w < 2 ^ 16" if e: "(v, w) \<in> set (edges ord s u)" for u v w
  proof -
    obtain q where "w = link_cost q" using edges_cost [OF e] ..
    then show ?thesis using link_cost_range(2) [of q] by simp
  qed
qed

end
