(* ===== verification/TargetBoard.thy ===== *)
theory TargetBoard
  imports Messages "HOL-Library.Product_Lexorder"
begin

text \<open>
  The replicated target board, \<^verbatim>\<open>tacticalmesh-app/src/crdt.rs\<close>. The interface \<open>max_store\<close> is a
  keyed store in which an update replaces the stored value of its key exactly when its rank is
  larger; the board is one, with the pair of target state and timestamp as the rank, and the
  convergence of replicas follows in the interface.
\<close>

section \<open>Types\<close>

datatype TargetState = Detected | Assigned | Engaged | Aborted | Destroyed

text \<open>The derived \<open>Ord\<close> follows the order of declaration.\<close>

fun TargetState_rank :: "TargetState \<Rightarrow> nat" where
  "TargetState_rank Detected = 0"
| "TargetState_rank Assigned = 1"
| "TargetState_rank Engaged = 2"
| "TargetState_rank Aborted = 3"
| "TargetState_rank Destroyed = 4"

lemma TargetState_rank_inject [simp]: "TargetState_rank a = TargetState_rank b \<longleftrightarrow> a = b"
  by (cases a; cases b) auto

instantiation TargetState :: linorder
begin

definition less_eq_TargetState :: "TargetState \<Rightarrow> TargetState \<Rightarrow> bool" where
  "less_eq_TargetState a b \<longleftrightarrow> TargetState_rank a \<le> TargetState_rank b"

definition less_TargetState :: "TargetState \<Rightarrow> TargetState \<Rightarrow> bool" where
  "less_TargetState a b \<longleftrightarrow> TargetState_rank a < TargetState_rank b"

instance
  by standard (auto simp: less_eq_TargetState_def less_TargetState_def order.strict_iff_order)

end

record Target =
  t_id :: u16
  t_kind :: TargetKind
  t_state :: TargetState
  t_lat :: f32
  t_lon :: f32
  updated_at_ms :: u64
  assigned_to :: "u8 option"

record TargetUpdate =
  upd_target :: Target

record TargetBoard =
  board_targets :: "u16 \<rightharpoonup> Target"

section \<open>Operations\<close>

definition TargetBoard_new :: TargetBoard where
  "TargetBoard_new = \<lparr>board_targets = Map.empty\<rparr>"

definition merge :: "TargetBoard \<Rightarrow> TargetUpdate \<Rightarrow> TargetBoard" where
  "merge b update =
     (let incoming = upd_target update in
      case board_targets b (t_id incoming) of
        None \<Rightarrow> b\<lparr>board_targets := (board_targets b)(t_id incoming \<mapsto> incoming)\<rparr>
      | Some existing \<Rightarrow>
          (let should_replace =
             (if t_state existing < t_state incoming then True
              else if t_state incoming = t_state existing
              then updated_at_ms existing < updated_at_ms incoming
              else False)
           in if should_replace
              then b\<lparr>board_targets := (board_targets b)(t_id incoming \<mapsto> incoming)\<rparr>
              else b))"

definition board_get :: "TargetBoard \<Rightarrow> u16 \<Rightarrow> Target option" where
  "board_get b i = board_targets b i"

definition board_list :: "u16 list \<Rightarrow> TargetBoard \<Rightarrow> Target list" where
  "board_list ord b = map snd (entries ord (board_targets b))"

section \<open>Stores in which the larger rank wins\<close>

locale max_store =
  fixes put :: "'s \<Rightarrow> 'u \<Rightarrow> 's"
    and val :: "'s \<Rightarrow> 'k \<Rightarrow> 'u option"
    and key :: "'u \<Rightarrow> 'k"
    and rank :: "'u \<Rightarrow> 'r::linorder"
    and blank :: 's
  assumes val_blank: "val blank k = None"
    and val_put: "val (put s u) k =
      (if key u = k \<and> (\<forall>v. val s k = Some v \<longrightarrow> rank v < rank u) then Some u else val s k)"
begin

text \<open>Idempotence and monotonicity.\<close>

lemma put_again: "val (put (put s u) u) k = val (put s u) k"
  by (auto simp: val_put)

lemma put_grows: "val s k = Some v \<Longrightarrow> \<exists>v'. val (put s u) k = Some v' \<and> rank v \<le> rank v'"
  by (auto simp: val_put)

lemma run_grows: "val s k = Some v \<Longrightarrow> \<exists>v'. val (foldl put s us) k = Some v' \<and> rank v \<le> rank v'"
proof (induction us arbitrary: s v)
  case (Cons u us)
  from put_grows [OF Cons.prems, of u] obtain v1 where v1: "val (put s u) k = Some v1" "rank v \<le> rank v1" by blast
  from Cons.IH [OF v1(1)] show ?case using v1(2) by fastforce
qed auto

text \<open>What a run of updates leaves: for each key, one of the updates of the largest rank.\<close>

lemma run_val:
  "val (foldl put blank us) k = None \<and> (\<forall>u \<in> set us. key u \<noteq> k)
   \<or> (\<exists>v \<in> set us. val (foldl put blank us) k = Some v \<and> key v = k
        \<and> (\<forall>u \<in> set us. key u = k \<longrightarrow> rank u \<le> rank v))"
proof (induction us rule: rev_induct)
  case (snoc u us)
  then show ?case
  proof (elim disjE conjE bexE)
    assume "val (foldl put blank us) k = None" "\<forall>u \<in> set us. key u \<noteq> k"
    then show ?thesis by (auto simp: val_put)
  next
    fix v
    assume v: "v \<in> set us" "val (foldl put blank us) k = Some v" "key v = k"
      "\<forall>u \<in> set us. key u = k \<longrightarrow> rank u \<le> rank v"
    show ?thesis
    proof (cases "key u = k \<and> rank v < rank u")
      case True
      then show ?thesis using v by (intro disjI2 bexI [of _ u]) (auto simp: val_put intro: order.trans less_imp_le)
    next
      case False
      then show ?thesis using v by (intro disjI2 bexI [of _ v]) (auto simp: val_put)
    qed
  qed
qed (simp add: val_blank)

text \<open>More precisely the first of these, in the order in which they were put.\<close>

lemma run_first:
  "val (foldl put blank us) k = find (\<lambda>u. key u = k \<and> (\<forall>v \<in> set us. key v = k \<longrightarrow> rank v \<le> rank u)) us"
proof (induction us rule: rev_induct)
  case (snoc u us)
  let ?top = "\<lambda>us u. key u = k \<and> (\<forall>v \<in> set us. key v = k \<longrightarrow> rank v \<le> rank u)"
  show ?case
  proof (cases "key u = k \<and> (\<forall>v. val (foldl put blank us) k = Some v \<longrightarrow> rank v < rank u)")
    case True
    then have higher: "\<forall>v \<in> set us. key v = k \<longrightarrow> rank v < rank u"
      using run_val [of us k] by (auto intro: le_less_trans)
    then have "find (?top (us @ [u])) us = None" using True by (auto simp: find_None_iff)
    moreover have "?top (us @ [u]) u" using True higher by (auto intro: less_imp_le)
    ultimately show ?thesis using True by (simp add: val_put find_snoc)
  next
    case False
    have "find (?top (us @ [u])) us = find (?top us) us"
    proof (rule find_cong [OF refl])
      fix x assume x: "x \<in> set us"
      have "rank u \<le> rank x" if "?top us x" "key u = k"
        using False run_val [of us k] x that by fastforce
      then show "?top (us @ [u]) x \<longleftrightarrow> ?top us x" by auto
    qed
    moreover have "find (?top us) us \<noteq> None \<or> \<not> ?top (us @ [u]) u"
      using False snoc.IH by auto
    ultimately show ?thesis
      using False snoc.IH by (auto simp: val_put find_snoc split: option.splits)
  qed
qed (simp add: val_blank)

text \<open>A tie is decided for the update that came first, until one of a higher rank comes.\<close>

lemma run_tie:
  assumes "key u = k" and "\<forall>w \<in> set us. key w = k \<longrightarrow> rank w < rank u"
    and "\<forall>w \<in> set later. key w = k \<longrightarrow> rank w \<le> rank u"
  shows "val (foldl put blank (us @ u # later)) k = Some u"
proof -
  let ?top = "\<lambda>x. key x = k \<and> (\<forall>v \<in> set (us @ u # later). key v = k \<longrightarrow> rank v \<le> rank x)"
  have "find ?top us = None" using assms by (auto simp: find_None_iff not_le)
  moreover have "?top u" using assms by (auto intro: less_imp_le)
  ultimately show ?thesis
    unfolding run_first by (simp add: find_filter split: list.splits)
qed

lemma run_pair:
  assumes same: "set us = set vs"
  obtains (none) "val (foldl put blank us) k = None" "val (foldl put blank vs) k = None"
    | (both) u v where "u \<in> set us" "v \<in> set us" "key u = k" "key v = k" "rank u = rank v"
      "val (foldl put blank us) k = Some u" "val (foldl put blank vs) k = Some v"
proof (cases "\<exists>u \<in> set us. key u = k")
  case False
  then have "val (foldl put blank us) k = None" "val (foldl put blank vs) k = None"
    using run_val [of us k] run_val [of vs k] same by auto
  then show thesis by (rule none)
next
  case True
  then obtain u v where u: "u \<in> set us" "val (foldl put blank us) k = Some u" "key u = k"
      "\<forall>w \<in> set us. key w = k \<longrightarrow> rank w \<le> rank u"
    and v: "v \<in> set us" "val (foldl put blank vs) k = Some v" "key v = k"
      "\<forall>w \<in> set us. key w = k \<longrightarrow> rank w \<le> rank v"
    using run_val [of us k] run_val [of vs k] unfolding same by blast
  then have "rank u = rank v" by (intro order.antisym) blast+
  with u v show thesis using both by blast
qed

lemma run_ranks:
  assumes "set us = set vs"
  shows "map_option rank (val (foldl put blank us) k) = map_option rank (val (foldl put blank vs) k)"
  using assms by (rule run_pair [where k = k]) simp_all

text \<open>Without ties between different updates, the order and the repetition of updates do not matter.\<close>

lemma run_converges:
  assumes "set us = set vs"
    and "\<And>u v. u \<in> set us \<Longrightarrow> v \<in> set us \<Longrightarrow> key u = key v \<Longrightarrow> rank u = rank v \<Longrightarrow> u = v"
  shows "val (foldl put blank us) k = val (foldl put blank vs) k"
  using assms(1) by (rule run_pair [where k = k]) (use assms(2) in auto)

end

section \<open>The board\<close>

definition target_rank :: "Target \<Rightarrow> TargetState \<times> u64" where
  "target_rank t = (t_state t, updated_at_ms t)"

lemma board_targets_merge:
  "board_targets (merge b u) k =
     (if t_id (upd_target u) = k
         \<and> (\<forall>v. board_targets b k = Some v \<longrightarrow> target_rank v < target_rank (upd_target u))
      then Some (upd_target u) else board_targets b k)"
  by (auto simp: merge_def Let_def target_rank_def split: option.splits)

lemma TargetUpdate_eta [simp]: "\<lparr>upd_target = upd_target u\<rparr> = u"
  by simp

definition board_update :: "TargetBoard \<Rightarrow> u16 \<Rightarrow> TargetUpdate option" where
  "board_update b k = map_option (\<lambda>t. \<lparr>upd_target = t\<rparr>) (board_targets b k)"

lemma board_update_eq: "board_update b k = board_update b' k \<longleftrightarrow> board_get b k = board_get b' k"
  by (auto simp: board_update_def board_get_def option.map_sel split: option.splits
      elim!: option.map_cong) (cases "board_targets b k"; cases "board_targets b' k"; auto)

interpretation board: max_store merge board_update "\<lambda>u. t_id (upd_target u)"
  "\<lambda>u. target_rank (upd_target u)" TargetBoard_new
  by unfold_locales (auto simp: board_update_def board_targets_merge TargetBoard_new_def)

section \<open>Properties\<close>

text \<open>
  (C24) Convergence: two boards that have merged the same set of updates, in any order and with
  any repetitions, agree on every target, provided no two different updates of one target have
  the same state and timestamp.
\<close>

theorem boards_converge:
  assumes "set us = set vs"
    and "\<forall>u \<in> set us. \<forall>v \<in> set us. t_id (upd_target u) = t_id (upd_target v)
           \<and> t_state (upd_target u) = t_state (upd_target v)
           \<and> updated_at_ms (upd_target u) = updated_at_ms (upd_target v) \<longrightarrow> u = v"
  shows "foldl merge TargetBoard_new us = foldl merge TargetBoard_new vs"
proof -
  have "board_update (foldl merge TargetBoard_new us) k = board_update (foldl merge TargetBoard_new vs) k" for k
    using assms by (intro board.run_converges) (auto simp: target_rank_def)
  then have "board_targets (foldl merge TargetBoard_new us) k = board_targets (foldl merge TargetBoard_new vs) k" for k
    by (simp add: board_update_eq board_get_def)
  then show ?thesis by (intro TargetBoard.equality) (auto simp: fun_eq_iff)
qed

text \<open>
  Even when updates tie, all boards that have merged the same set of updates agree on which
  targets exist and on the state and the timestamp of each.
\<close>

theorem boards_agree_on_state:
  assumes "set us = set vs"
  shows "map_option (\<lambda>t. (t_state t, updated_at_ms t)) (board_get (foldl merge TargetBoard_new us) k)
       = map_option (\<lambda>t. (t_state t, updated_at_ms t)) (board_get (foldl merge TargetBoard_new vs) k)"
  using board.run_ranks [OF assms, of k]
  by (simp add: board_update_def board_get_def target_rank_def option.map_comp o_def)

text \<open>
  A target never goes back: merging further updates keeps it on the board with a state and
  timestamp at least as high, and once destroyed it stays destroyed.
\<close>

theorem merge_monotone:
  assumes "board_get b k = Some t"
  shows "\<exists>t'. board_get (foldl merge b us) k = Some t'
     \<and> (t_state t < t_state t' \<or> t_state t = t_state t' \<and> updated_at_ms t \<le> updated_at_ms t')
     \<and> (t_state t = Destroyed \<longrightarrow> t_state t' = Destroyed)"
proof -
  have "board_update b k = Some \<lparr>upd_target = t\<rparr>"
    using assms by (simp add: board_update_def board_get_def)
  from board.run_grows [OF this, of us] obtain t' where t': "board_get (foldl merge b us) k = Some t'"
    "target_rank t \<le> target_rank t'"
    by (auto simp: board_update_def board_get_def)
  moreover have "t_state t = Destroyed \<Longrightarrow> t_state t' = Destroyed"
    using t'(2) by (cases "t_state t'") (auto simp: target_rank_def less_TargetState_def less_eq_TargetState_def)
  ultimately show ?thesis
    by (auto simp: target_rank_def)
qed

definition tie_update :: "f32 \<Rightarrow> TargetUpdate" where
  "tie_update lat = \<lparr>upd_target = \<lparr>t_id = 7, t_kind = Vehicle, t_state = Detected, t_lat = lat,
                       t_lon = 0, updated_at_ms = 100, assigned_to = None\<rparr>\<rparr>"

text \<open>
  (C39) What a board holds, whatever updates it has merged: for each target the first, in the order
  of merging, of its updates of the highest state and, among these, the highest time. So when two
  different updates of a target have the same state and time, two boards that receive them in
  different orders, each before any update of the target as high, hold different targets, and this
  stays so however often and in whatever order these two updates and any others of the target that
  are not higher, or of other targets, are merged later. The first update of the target that is
  higher reconciles the boards.
\<close>

theorem tied_updates_diverge:
  assumes "t_id (upd_target u) = k" and "t_id (upd_target v) = k" and "u \<noteq> v"
    and "t_state (upd_target u) = t_state (upd_target v)"
    and "updated_at_ms (upd_target u) = updated_at_ms (upd_target v)"
    and "\<forall>w \<in> set (before @ before'). t_id (upd_target w) = k \<longrightarrow> target_rank (upd_target w) < target_rank (upd_target u)"
    and "\<forall>w \<in> set (later @ later'). t_id (upd_target w) = k \<longrightarrow> target_rank (upd_target w) \<le> target_rank (upd_target u)"
  defines "b \<equiv> foldl merge TargetBoard_new (before @ u # later)"
    and "b' \<equiv> foldl merge TargetBoard_new (before' @ v # later')"
  shows "(\<forall>us i. board_get (foldl merge TargetBoard_new us) i = map_option upd_target
            (find (\<lambda>x. t_id (upd_target x) = i \<and> (\<forall>y \<in> set us. t_id (upd_target y) = i
               \<longrightarrow> (t_state (upd_target y), updated_at_ms (upd_target y))
                  \<le> (t_state (upd_target x), updated_at_ms (upd_target x)))) us))
    \<and> board_get b k = Some (upd_target u) \<and> board_get b' k = Some (upd_target v) \<and> upd_target u \<noteq> upd_target v
    \<and> (\<forall>w. t_id (upd_target w) = k \<and> target_rank (upd_target u) < target_rank (upd_target w)
          \<longrightarrow> board_get (merge b w) k = Some (upd_target w) \<and> board_get (merge b' w) k = Some (upd_target w))"
proof -
  have get: "board_get b k = map_option upd_target (board_update b k)" for b k
    by (cases "board_targets b k") (simp_all add: board_get_def board_update_def)
  have rank: "target_rank (upd_target v) = target_rank (upd_target u)"
    using assms(4,5) by (simp add: target_rank_def)
  have b: "board_update b k = Some u"
    unfolding b_def using assms(1,6,7) by (intro board.run_tie) auto
  have b': "board_update b' k = Some v"
    unfolding b'_def using assms(2,6,7) rank by (intro board.run_tie) auto
  have "upd_target u \<noteq> upd_target v" using assms(3) by (metis TargetUpdate_eta)
  moreover have "board_get (merge b w) k = Some (upd_target w) \<and> board_get (merge b' w) k = Some (upd_target w)"
    if "t_id (upd_target w) = k \<and> target_rank (upd_target u) < target_rank (upd_target w)" for w
    using that b b' rank by (auto simp: get board.val_put)
  ultimately show ?thesis
    using b b' by (simp add: get board.run_first target_rank_def)
qed

section \<open>Witnesses\<close>

definition demo_update :: "TargetState \<Rightarrow> u64 \<Rightarrow> TargetUpdate" where
  "demo_update st t = \<lparr>upd_target = \<lparr>t_id = 1, t_kind = Vehicle, t_state = st, t_lat = 0,
                        t_lon = 0, updated_at_ms = t, assigned_to = None\<rparr>\<rparr>"

theorem boards_converge_witness:
  "foldl merge TargetBoard_new [demo_update Detected 100, demo_update Engaged 50]
   = foldl merge TargetBoard_new [demo_update Engaged 50, demo_update Detected 100, demo_update Engaged 50]"
  by (rule boards_converge) (auto simp: demo_update_def)

text \<open>Two boards that merge the two updates a hundred times each, in opposite orders.\<close>

theorem tied_updates_diverge_witness:
  "let ours = concat (replicate 100 [tie_update 1, tie_update 2]);
       theirs = concat (replicate 100 [tie_update 2, tie_update 1])
   in map_option t_lat (board_get (foldl merge TargetBoard_new ours) 7) = Some 1
    \<and> map_option t_lat (board_get (foldl merge TargetBoard_new theirs) 7) = Some 2"
proof -
  let ?later = "\<lambda>x y. tie_update y # concat (replicate 99 [tie_update x, tie_update y])"
  have split: "concat (replicate 100 [tie_update x, tie_update y]) = [] @ tie_update x # ?later x y" for x y
    using replicate_Suc [of 99 "[tie_update x, tie_update y]"] by simp
  have rank: "target_rank (upd_target w) = target_rank (upd_target (tie_update 1))" if "w \<in> set (?later 1 2 @ ?later 2 1)" for w
    using that by (auto simp: target_rank_def tie_update_def)
  have "tie_update 1 \<noteq> tie_update 2" by (simp add: tie_update_def)
  moreover have "t_id (upd_target (tie_update x)) = 7" for x by (simp add: tie_update_def)
  moreover have "t_state (upd_target (tie_update 1)) = t_state (upd_target (tie_update 2))"
    "updated_at_ms (upd_target (tie_update 1)) = updated_at_ms (upd_target (tie_update 2))"
    by (simp_all add: tie_update_def)
  moreover have "\<forall>w \<in> set (?later 1 2 @ ?later 2 1). t_id (upd_target w) = 7
      \<longrightarrow> target_rank (upd_target w) \<le> target_rank (upd_target (tie_update 1))"
    using rank by (blast intro: eq_refl)
  moreover have "\<forall>w \<in> set ([] @ []). t_id (upd_target w) = 7
      \<longrightarrow> target_rank (upd_target w) < target_rank (upd_target (tie_update 1))" by simp
  ultimately have
    "board_get (foldl merge TargetBoard_new ([] @ tie_update 1 # ?later 1 2)) 7 = Some (upd_target (tie_update 1))
     \<and> board_get (foldl merge TargetBoard_new ([] @ tie_update 2 # ?later 2 1)) 7 = Some (upd_target (tie_update 2))"
    using tied_updates_diverge [of "tie_update 1" 7 "tie_update 2" "[]" "[]" "?later 1 2" "?later 2 1"] by blast
  moreover have "t_lat (upd_target (tie_update x)) = x" for x by (simp add: tie_update_def)
  ultimately show ?thesis unfolding split Let_def by (simp only: option.map simp_thms)
qed

theorem boards_agree_on_state_witness:
  "map_option (\<lambda>t. (t_state t, updated_at_ms t)) (board_get (foldl merge TargetBoard_new [tie_update 1, tie_update 2]) 7)
   = map_option (\<lambda>t. (t_state t, updated_at_ms t)) (board_get (foldl merge TargetBoard_new [tie_update 2, tie_update 1]) 7)"
  by (rule boards_agree_on_state) auto

theorem merge_monotone_witness:
  "\<exists>t'. board_get (foldl merge (merge TargetBoard_new (demo_update Destroyed 5)) [demo_update Detected 100]) 1 = Some t'
     \<and> t_state t' = Destroyed"
  using merge_monotone [of "merge TargetBoard_new (demo_update Destroyed 5)" 1
      "upd_target (demo_update Destroyed 5)" "[demo_update Detected 100]"]
  by (auto simp: board_get_def board_targets_merge TargetBoard_new_def demo_update_def)

end
