(* ===== verification/ImageCache.thy ===== *)
theory ImageCache
  imports Messages
begin

text \<open>
  Reassembly of images, \<^verbatim>\<open>tacticalmesh-app/src/image_cache.rs\<close>, and the theorem that an image
  cut into shards the way the sender does arrives whole, whatever the order, the repetition and
  the interleaving with shards of other images.
\<close>

type_synonym block_key = "u16 \<times> u8"

record ImageCache =
  shards :: "block_key \<rightharpoonup> (u8 \<times> bytes) list"
  block_k :: "block_key \<rightharpoonup> u8"
  assembled_blocks :: "block_key \<rightharpoonup> bytes"
  total_blocks_expected :: "u16 \<rightharpoonup> u8"
  complete :: "u16 \<rightharpoonup> bytes"

definition ImageCache_new :: ImageCache where
  "ImageCache_new =
     \<lparr>shards = Map.empty, block_k = Map.empty, assembled_blocks = Map.empty,
      total_blocks_expected = Map.empty, complete = Map.empty\<rparr>"

text \<open>\<^verbatim>\<open>entry(k).or_insert(v)\<close>.\<close>

definition or_insert :: "('k \<rightharpoonup> 'v) \<Rightarrow> 'k \<Rightarrow> 'v \<Rightarrow> 'k \<rightharpoonup> 'v" where
  "or_insert m k v = (case m k of None \<Rightarrow> m(k \<mapsto> v) | Some _ \<Rightarrow> m)"

definition put_shard :: "ImageCache \<Rightarrow> ImageShard \<Rightarrow> ImageCache" where
  "put_shard c shard =
     (let key = (is_target_id shard, is_block_id shard);
          c = (if 1 < is_total_blocks shard
               then c\<lparr>total_blocks_expected :=
                      or_insert (total_blocks_expected c) (is_target_id shard) (is_total_blocks shard)\<rparr>
               else c);
          c = c\<lparr>block_k := or_insert (block_k c) key (is_k shard)\<rparr>;
          bucket = unwrap_or (shards c key) [];
          bucket = (if list_ex (\<lambda>(idx, _). idx = is_index shard) bucket then bucket
                    else bucket @ [(is_index shard, is_data shard)])
      in c\<lparr>shards := (shards c)(key \<mapsto> bucket)\<rparr>)"

definition assemble_block :: "ImageCache \<Rightarrow> ImageShard \<Rightarrow> ImageCache" where
  "assemble_block c shard =
     (let key = (is_target_id shard, is_block_id shard);
          threshold = unat (unwrap_or (block_k c key) (is_k shard));
          bucket = unwrap_or (shards c key) []
      in if threshold \<le> length bucket \<and> assembled_blocks c key = None
         then c\<lparr>assembled_blocks := (assembled_blocks c)(key \<mapsto>
                  concat (map snd (sort_key fst bucket)))\<rparr>
         else c)"

definition all_blocks :: "ImageCache \<Rightarrow> u16 \<Rightarrow> u8 \<Rightarrow> bool" where
  "all_blocks c t expected \<longleftrightarrow>
     list_all (\<lambda>bid. assembled_blocks c (t, of_nat bid) \<noteq> None) [0..<unat expected]"

definition join_blocks :: "ImageCache \<Rightarrow> u16 \<Rightarrow> u8 \<Rightarrow> bytes" where
  "join_blocks c t expected =
     concat (map (\<lambda>bid. unwrap_or (assembled_blocks c (t, of_nat bid)) []) [0..<unat expected])"

definition try_complete :: "ImageCache \<Rightarrow> ImageShard \<Rightarrow> bool \<times> ImageCache" where
  "try_complete c shard =
     (let t = is_target_id shard in
      if complete c t \<noteq> None then (False, c)
      else
        let expected = unwrap_or (total_blocks_expected c t) 0 in
        if expected \<le> 1 then
          (case assembled_blocks c (t, is_block_id shard) of
             Some data \<Rightarrow> (True, c\<lparr>complete := (complete c)(t \<mapsto> data)\<rparr>)
           | None \<Rightarrow> (False, c))
        else if all_blocks c t expected
        then (True, c\<lparr>complete := (complete c)(t \<mapsto> join_blocks c t expected)\<rparr>)
        else (False, c))"

definition insert_shard :: "ImageCache \<Rightarrow> ImageShard \<Rightarrow> bool \<times> ImageCache" where
  "insert_shard c shard = try_complete (assemble_block (put_shard c shard) shard) shard"

definition get_complete :: "ImageCache \<Rightarrow> u16 \<Rightarrow> bytes option" where
  "get_complete c t = complete c t"

definition blocks_assembled :: "ImageCache \<Rightarrow> u16 \<Rightarrow> u8" where
  "blocks_assembled c t =
     of_nat (length (filter (\<lambda>bid. assembled_blocks c (t, of_nat bid) \<noteq> None)
                            [0..<unat (unwrap_or (total_blocks_expected c t) 1)]))"

definition has_shard :: "ImageCache \<Rightarrow> u16 \<Rightarrow> u8 \<Rightarrow> bool" where
  "has_shard c t b = (case shards c (t, b) of None \<Rightarrow> False | Some v \<Rightarrow> v \<noteq> [])"

section \<open>Shards of other targets\<close>

lemma or_insert_apply: "or_insert m k v x = (if x = k \<and> m k = None then Some v else m x)"
  by (auto simp: or_insert_def split: option.splits)

lemmas insert_defs = insert_shard_def try_complete_def assemble_block_def put_shard_def Let_def

lemma put_shard_other:
  assumes "is_target_id sh \<noteq> t"
  shows "shards (put_shard c sh) (t, b) = shards c (t, b)"
    and "block_k (put_shard c sh) (t, b) = block_k c (t, b)"
    and "assembled_blocks (put_shard c sh) (t, b) = assembled_blocks c (t, b)"
    and "total_blocks_expected (put_shard c sh) t = total_blocks_expected c t"
    and "complete (put_shard c sh) t = complete c t"
  using assms by (auto simp: put_shard_def Let_def or_insert_apply split: option.splits)

lemma assemble_block_other:
  assumes "is_target_id sh \<noteq> t"
  shows "shards (assemble_block c sh) = shards c"
    and "block_k (assemble_block c sh) = block_k c"
    and "assembled_blocks (assemble_block c sh) (t, b) = assembled_blocks c (t, b)"
    and "total_blocks_expected (assemble_block c sh) = total_blocks_expected c"
    and "complete (assemble_block c sh) = complete c"
  using assms by (auto simp: assemble_block_def Let_def split: option.splits)

lemma try_complete_other:
  assumes "is_target_id sh \<noteq> t"
  shows "shards (snd (try_complete c sh)) = shards c"
    and "block_k (snd (try_complete c sh)) = block_k c"
    and "assembled_blocks (snd (try_complete c sh)) = assembled_blocks c"
    and "total_blocks_expected (snd (try_complete c sh)) = total_blocks_expected c"
    and "complete (snd (try_complete c sh)) t = complete c t"
  using assms by (auto simp: try_complete_def Let_def split: option.splits)

lemma insert_other:
  assumes "is_target_id sh \<noteq> t"
  shows "shards (snd (insert_shard c sh)) (t, b) = shards c (t, b)"
    and "block_k (snd (insert_shard c sh)) (t, b) = block_k c (t, b)"
    and "assembled_blocks (snd (insert_shard c sh)) (t, b) = assembled_blocks c (t, b)"
    and "total_blocks_expected (snd (insert_shard c sh)) t = total_blocks_expected c t"
    and "complete (snd (insert_shard c sh)) t = complete c t"
  using put_shard_other [OF assms] assemble_block_other [OF assms] try_complete_other [OF assms]
  by (simp_all add: insert_shard_def)

section \<open>An image and its shards\<close>

text \<open>
  The shards that \<open>handle_request_image\<close> makes of the chunks of an image: one block per chunk,
  one shard per block.
\<close>

definition image_shard :: "u16 \<Rightarrow> bytes list \<Rightarrow> nat \<Rightarrow> ImageShard" where
  "image_shard t cs i =
     \<lparr>is_target_id = t, is_total_blocks = of_nat (length cs), is_block_id = of_nat i,
      is_index = 0, is_k = 1, is_n = 1, is_data = cs ! i\<rparr>"

text \<open>The part of the cache about one target, after the blocks in \<open>R\<close> have arrived.\<close>

definition received_blocks :: "ImageCache \<Rightarrow> u16 \<Rightarrow> bytes list \<Rightarrow> nat set \<Rightarrow> bool" where
  "received_blocks c t cs R \<longleftrightarrow> R \<subseteq> {..<length cs}
   \<and> (\<forall>i < length cs. shards c (t, of_nat i) = (if i \<in> R then Some [(0, cs ! i)] else None))
   \<and> (\<forall>i < length cs. block_k c (t, of_nat i) = (if i \<in> R then Some 1 else None))
   \<and> (\<forall>i < length cs. assembled_blocks c (t, of_nat i) = (if i \<in> R then Some (cs ! i) else None))
   \<and> total_blocks_expected c t = (if R \<noteq> {} \<and> 1 < length cs then Some (of_nat (length cs)) else None)
   \<and> complete c t = (if R = {..<length cs} then Some (concat cs) else None)"

lemma of_nat_u8_eq:
  assumes "i < 256" and "j < 256"
  shows "(of_nat i :: u8) = of_nat j \<longleftrightarrow> i = j"
proof
  assume "(of_nat i :: u8) = of_nat j"
  then have "unat (of_nat i :: u8) = unat (of_nat j :: u8)" by simp
  then show "i = j" using assms by simp
qed simp

lemma received_blocksD:
  assumes "received_blocks c t cs R"
  shows "R \<subseteq> {..<length cs}"
    and "\<And>i. i < length cs \<Longrightarrow> shards c (t, of_nat i) = (if i \<in> R then Some [(0, cs ! i)] else None)"
    and "\<And>i. i < length cs \<Longrightarrow> block_k c (t, of_nat i) = (if i \<in> R then Some 1 else None)"
    and "\<And>i. i < length cs \<Longrightarrow> assembled_blocks c (t, of_nat i) = (if i \<in> R then Some (cs ! i) else None)"
    and "total_blocks_expected c t = (if R \<noteq> {} \<and> 1 < length cs then Some (of_nat (length cs)) else None)"
    and "complete c t = (if R = {..<length cs} then Some (concat cs) else None)"
  using assms by (simp_all add: received_blocks_def)

lemma put_image_shard:
  assumes inv: "received_blocks c t cs R" and i: "i < length cs" and n: "length cs \<le> 255"
  defines "c1 \<equiv> put_shard c (image_shard t cs i)"
  shows "\<And>j. j < length cs \<Longrightarrow> shards c1 (t, of_nat j) = (if j \<in> insert i R then Some [(0, cs ! j)] else None)"
    and "\<And>j. j < length cs \<Longrightarrow> block_k c1 (t, of_nat j) = (if j \<in> insert i R then Some 1 else None)"
    and "total_blocks_expected c1 t = (if 1 < length cs then Some (of_nat (length cs)) else None)"
    and "assembled_blocks c1 = assembled_blocks c" and "complete c1 = complete c"
proof -
  note I = received_blocksD [OF inv]
  have eq: "j < length cs \<Longrightarrow> (of_nat j :: u8) = of_nat i \<longleftrightarrow> j = i" for j
    using i n by (intro of_nat_u8_eq) auto
  have lt: "1 < (of_nat (length cs) :: u8) \<longleftrightarrow> 1 < length cs"
    using n by (simp add: word_less_nat_alt)
  show "shards c1 (t, of_nat j) = (if j \<in> insert i R then Some [(0, cs ! j)] else None)" if "j < length cs" for j
    using I(2) [OF that] I(2) [OF i] eq [OF that]
    by (auto simp: c1_def put_shard_def image_shard_def Let_def)
  show "block_k c1 (t, of_nat j) = (if j \<in> insert i R then Some 1 else None)" if "j < length cs" for j
    using I(3) [OF that] I(3) [OF i] eq [OF that]
    by (auto simp: c1_def put_shard_def image_shard_def Let_def or_insert_apply)
  show "total_blocks_expected c1 t = (if 1 < length cs then Some (of_nat (length cs)) else None)"
    using I(5) lt by (auto simp: c1_def put_shard_def image_shard_def Let_def or_insert_apply)
  show "assembled_blocks c1 = assembled_blocks c" "complete c1 = complete c"
    by (simp_all add: c1_def put_shard_def Let_def)
qed

lemma assemble_image_shard:
  assumes inv: "received_blocks c t cs R" and i: "i < length cs" and n: "length cs \<le> 255"
  defines "c2 \<equiv> assemble_block (put_shard c (image_shard t cs i)) (image_shard t cs i)"
  shows "\<And>j. j < length cs \<Longrightarrow> assembled_blocks c2 (t, of_nat j) = (if j \<in> insert i R then Some (cs ! j) else None)"
    and "shards c2 = shards (put_shard c (image_shard t cs i))"
    and "block_k c2 = block_k (put_shard c (image_shard t cs i))"
    and "total_blocks_expected c2 = total_blocks_expected (put_shard c (image_shard t cs i))"
    and "complete c2 = complete (put_shard c (image_shard t cs i))"
proof -
  note P = put_image_shard [OF inv i n] and A = received_blocksD(4) [OF inv]
  have eq: "j < length cs \<Longrightarrow> (of_nat j :: u8) = of_nat i \<longleftrightarrow> j = i" for j
    using i n by (intro of_nat_u8_eq) auto
  have ids: "is_target_id (image_shard t cs i) = t" "is_block_id (image_shard t cs i) = of_nat i"
    by (simp_all add: image_shard_def)
  show "assembled_blocks c2 (t, of_nat j) = (if j \<in> insert i R then Some (cs ! j) else None)" if "j < length cs" for j
    using P(1,2) [OF i] A [OF that] A [OF i] eq [OF that]
    by (auto simp: c2_def assemble_block_def Let_def ids P(4))
  show "shards c2 = shards (put_shard c (image_shard t cs i))"
    "block_k c2 = block_k (put_shard c (image_shard t cs i))"
    "total_blocks_expected c2 = total_blocks_expected (put_shard c (image_shard t cs i))"
    "complete c2 = complete (put_shard c (image_shard t cs i))"
    by (simp_all add: c2_def assemble_block_def Let_def)
qed

lemma all_and_join:
  assumes "\<And>j. j < length cs \<Longrightarrow> assembled_blocks c (t, of_nat j) = (if j \<in> R then Some (cs ! j) else None)"
    and "R \<subseteq> {..<length cs}" and "length cs \<le> 255"
  shows "all_blocks c t (of_nat (length cs)) \<longleftrightarrow> R = {..<length cs}"
    and "R = {..<length cs} \<Longrightarrow> join_blocks c t (of_nat (length cs)) = concat cs"
proof -
  have n: "unat (of_nat (length cs) :: u8) = length cs" using assms(3) by simp
  show "all_blocks c t (of_nat (length cs)) \<longleftrightarrow> R = {..<length cs}"
    using assms(1,2) by (auto simp: all_blocks_def n list_all_iff)
  assume "R = {..<length cs}"
  then have "map (\<lambda>j. unwrap_or (assembled_blocks c (t, of_nat j)) []) [0..<length cs] = map ((!) cs) [0..<length cs]"
    using assms(1) by simp
  then show "join_blocks c t (of_nat (length cs)) = concat cs"
    by (simp add: join_blocks_def n map_nth)
qed

lemma insert_image_shard:
  assumes inv: "received_blocks c t cs R" and i: "i < length cs" and n: "length cs \<le> 255"
  shows "received_blocks (snd (insert_shard c (image_shard t cs i))) t cs (insert i R)"
    and "fst (insert_shard c (image_shard t cs i)) \<longleftrightarrow> insert i R = {..<length cs} \<and> R \<noteq> {..<length cs}"
proof -
  let ?sh = "image_shard t cs i"
  define c2 where "c2 = assemble_block (put_shard c ?sh) ?sh"
  note P = put_image_shard [OF inv i n] and A = assemble_image_shard [OF inv i n, folded c2_def]
  note I = received_blocksD [OF inv]
  have R: "insert i R \<subseteq> {..<length cs}" using I(1) i by simp
  note J = all_and_join [OF A(1) R n]
  have ids: "is_target_id ?sh = t" "is_block_id ?sh = of_nat i" by (simp_all add: image_shard_def)
  have big: "1 < length cs \<Longrightarrow> \<not> (of_nat (length cs) :: u8) \<le> 1" using n by (simp add: word_le_nat_alt)
  have step: "insert_shard c ?sh =
      (if R = {..<length cs} then (False, c2)
       else if insert i R = {..<length cs} then (True, c2\<lparr>complete := (complete c2)(t \<mapsto> concat cs)\<rparr>)
       else (False, c2))"
  proof (cases "1 < length cs")
    case True
    then show ?thesis
      using J I(6) big
      by (simp add: insert_shard_def c2_def [symmetric] try_complete_def Let_def ids A P)
  next
    case False
    then obtain x where cs: "cs = [x]" using i by (cases cs) auto
    then have i0: "i = 0" and R0: "R = {} \<or> R = {0}" using i I(1) by auto
    have all: "{..<length cs} = {0}" using cs by auto
    have asm: "assembled_blocks c2 (t, 0) = Some x" using A(1) [of 0] cs i0 by simp
    have expd: "total_blocks_expected c2 t = None" using A(4) P(3) cs by simp
    have comp: "complete c2 t = (if R = {0} then Some x else None)"
      using A(5) P(5) I(6) unfolding all by (simp add: cs)
    have tryc: "insert_shard c ?sh = try_complete c2 ?sh" by (simp add: insert_shard_def c2_def)
    have blk: "(of_nat i :: u8) = 0" "concat cs = x" by (simp_all add: i0 cs)
    show ?thesis
      unfolding tryc try_complete_def Let_def ids all comp expd blk
      using R0 by (elim disjE) (simp_all add: asm i0)
  qed
  have c2: "complete c2 = complete c" using A P by simp
  let ?c3 = "snd (insert_shard c ?sh)"
  have same: "shards ?c3 = shards c2" "block_k ?c3 = block_k c2"
    "assembled_blocks ?c3 = assembled_blocks c2" "total_blocks_expected ?c3 = total_blocks_expected c2"
    by (simp_all add: step)
  have "insert i R = {..<length cs}" if "R = {..<length cs}" using that i by auto
  then have "complete ?c3 t = (if insert i R = {..<length cs} then Some (concat cs) else None)"
    using I(6) c2 by (simp add: step)
  then show "received_blocks ?c3 t cs (insert i R)"
    unfolding received_blocks_def same using R A P by simp
  show "fst (insert_shard c ?sh) \<longleftrightarrow> insert i R = {..<length cs} \<and> R \<noteq> {..<length cs}"
    unfolding step by auto
qed

section \<open>The invariant of the cache\<close>

text \<open>
  A bucket never holds an index twice, and a block is assembled only when its bucket has reached
  the number of shards announced with its first shard.
\<close>

definition cache_ok :: "ImageCache \<Rightarrow> bool" where
  "cache_ok c \<longleftrightarrow>
     (\<forall>key b. shards c key = Some b \<longrightarrow> distinct (map fst b) \<and> block_k c key \<noteq> None)
   \<and> (\<forall>key. assembled_blocks c key \<noteq> None \<longrightarrow>
        (\<exists>b k. shards c key = Some b \<and> block_k c key = Some k \<and> unat k \<le> length b))"

lemma put_shard_fields:
  "shards (put_shard c sh) = (shards c)((is_target_id sh, is_block_id sh) \<mapsto>
     (let b = unwrap_or (shards c (is_target_id sh, is_block_id sh)) [] in
      if list_ex (\<lambda>(idx, _). idx = is_index sh) b then b else b @ [(is_index sh, is_data sh)]))"
  "block_k (put_shard c sh) = or_insert (block_k c) (is_target_id sh, is_block_id sh) (is_k sh)"
  "assembled_blocks (put_shard c sh) = assembled_blocks c"
  by (simp_all add: put_shard_def Let_def)

lemma list_ex_index: "list_ex (\<lambda>(idx, _). idx = x) b \<longleftrightarrow> x \<in> fst ` set b"
  by (induction b) auto

lemma put_shard_ok:
  assumes ok: "cache_ok c"
  shows "cache_ok (put_shard c sh)"
    and "shards (put_shard c sh) (is_target_id sh, is_block_id sh) \<noteq> None"
    and "block_k (put_shard c sh) (is_target_id sh, is_block_id sh) \<noteq> None"
proof -
  let ?key = "(is_target_id sh, is_block_id sh)"
  have d: "distinct (map fst (unwrap_or (shards c ?key) []))"
    using ok by (auto simp: cache_ok_def unwrap_or_def split: option.splits)
  show "cache_ok (put_shard c sh)"
    unfolding cache_ok_def
  proof (intro conjI allI impI)
    fix key b assume "shards (put_shard c sh) key = Some b"
    moreover have "distinct (map fst b) \<and> block_k c key \<noteq> None" if "shards c key = Some b"
      using ok that by (cases key) (simp add: cache_ok_def)
    ultimately show "distinct (map fst b)" "block_k (put_shard c sh) key \<noteq> None"
      using d
      by (auto simp: put_shard_fields Let_def or_insert_apply list_ex_index split: if_splits)
  next
    fix key assume "assembled_blocks (put_shard c sh) key \<noteq> None"
    then obtain b k where "shards c key = Some b" "block_k c key = Some k" "unat k \<le> length b"
      using ok unfolding cache_ok_def put_shard_fields by blast
    then show "\<exists>b k. shards (put_shard c sh) key = Some b \<and> block_k (put_shard c sh) key = Some k
        \<and> unat k \<le> length b"
      by (auto simp: put_shard_fields Let_def or_insert_apply)
  qed
  show "shards (put_shard c sh) ?key \<noteq> None" "block_k (put_shard c sh) ?key \<noteq> None"
    by (auto simp: put_shard_fields or_insert_apply)
qed

lemma insert_shard_ok:
  assumes "cache_ok c"
  shows "cache_ok (snd (insert_shard c sh))"
proof -
  note P = put_shard_ok [OF assms, of sh]
  have "cache_ok (assemble_block (put_shard c sh) sh)"
    using P unfolding cache_ok_def
    by (auto simp: assemble_block_def Let_def unwrap_or_def split: option.splits)
  then show ?thesis
    by (auto simp: insert_shard_def try_complete_def Let_def cache_ok_def split: option.splits)
qed

interpretation image_machine: event_machine "\<lambda>c sh. snd (insert_shard c sh)" cache_ok
  by unfold_locales (rule insert_shard_ok)

definition insert_all :: "ImageCache \<Rightarrow> ImageShard list \<Rightarrow> ImageCache" where
  "insert_all c shs = foldl (\<lambda>c sh. snd (insert_shard c sh)) c shs"

lemma insert_all_simps [simp]:
  "insert_all c [] = c" "insert_all c (sh # shs) = insert_all (snd (insert_shard c sh)) shs"
  by (simp_all add: insert_all_def)

lemma image_shard_inj:
  assumes "i < length cs" and "j < length cs" and "length cs \<le> 255"
  shows "image_shard t cs i = image_shard t cs j \<longleftrightarrow> i = j"
  using assms of_nat_u8_eq [of i j] by (auto simp: image_shard_def)

lemma received_other:
  assumes "received_blocks c t cs R" and "is_target_id sh \<noteq> t"
  shows "received_blocks (snd (insert_shard c sh)) t cs R"
  using assms(1) by (simp add: received_blocks_def insert_other [OF assms(2)])

lemma insert_all_received:
  assumes "received_blocks c t cs R" and "length cs \<le> 255"
    and "\<forall>sh \<in> set shs. is_target_id sh = t \<longrightarrow> (\<exists>i < length cs. sh = image_shard t cs i)"
  shows "received_blocks (insert_all c shs) t cs (R \<union> {i. i < length cs \<and> image_shard t cs i \<in> set shs})"
  using assms(1,3)
proof (induction shs arbitrary: c R)
  case (Cons sh shs)
  show ?case
  proof (cases "is_target_id sh = t")
    case True
    then obtain i where i: "i < length cs" "sh = image_shard t cs i" using Cons.prems(2) by auto
    have "{j. j < length cs \<and> image_shard t cs j \<in> set (sh # shs)} =
        insert i {j. j < length cs \<and> image_shard t cs j \<in> set shs}"
      using i image_shard_inj assms(2) by auto
    then show ?thesis
      using Cons.IH [OF insert_image_shard(1) [OF Cons.prems(1) i(1) assms(2)]] Cons.prems(2) i(2) by simp
  next
    case False
    then have "image_shard t cs j \<noteq> sh" for j by (auto simp: image_shard_def)
    then show ?thesis
      using Cons.IH [OF received_other [OF Cons.prems(1) False]] Cons.prems(2) by auto
  qed
qed simp

lemma image_complete_iff:
  assumes "\<forall>b. shards c (t, b) = None \<and> block_k c (t, b) = None \<and> assembled_blocks c (t, b) = None"
    and "total_blocks_expected c t = None" and "complete c t = None"
    and "0 < length cs" and "length cs \<le> 255"
    and "\<forall>sh \<in> set shs. is_target_id sh = t \<longrightarrow> (\<exists>i < length cs. sh = image_shard t cs i)"
  shows "get_complete (insert_all c shs) t =
    (if \<forall>i < length cs. image_shard t cs i \<in> set shs then Some (concat cs) else None)"
proof -
  have "received_blocks c t cs {}"
    using assms(1-4) by (auto simp: received_blocks_def)
  from insert_all_received [OF this assms(5,6)]
  have "complete (insert_all c shs) t =
      (if {i. i < length cs \<and> image_shard t cs i \<in> set shs} = {..<length cs} then Some (concat cs) else None)"
    by (simp add: received_blocks_def)
  moreover have "{i. i < length cs \<and> image_shard t cs i \<in> set shs} = {..<length cs}
      \<longleftrightarrow> (\<forall>i < length cs. image_shard t cs i \<in> set shs)" by auto
  ultimately show ?thesis by (simp add: get_complete_def)
qed

section \<open>Properties\<close>

text \<open>
  (C25) An image of one to 255 chunks arrives exactly once it is complete. Starting with a cache
  that has nothing of the target, after any sequence of shards in which those of the target are
  shards of the image, in any order, with repetitions and mixed with shards of other targets,
  the cache holds the image if all chunks have arrived, and otherwise nothing for the target.
\<close>

theorem image_reassembled:
  assumes "\<forall>b. shards c (t, b) = None \<and> block_k c (t, b) = None \<and> assembled_blocks c (t, b) = None"
    and "total_blocks_expected c t = None" and "complete c t = None"
    and "0 < length cs" and "length cs \<le> 255"
    and "\<forall>sh \<in> set shs. is_target_id sh = t \<longrightarrow> (\<exists>i < length cs. sh = image_shard t cs i)"
  shows "get_complete (insert_all c shs) t =
    (if \<forall>i < length cs. image_shard t cs i \<in> set shs then Some (concat cs) else None)"
  using assms by (rule image_complete_iff)

text \<open>
  A complete image is final: no further shard, of the same or a newer image of the target,
  changes it, and \<open>insert_shard\<close> never reports completion for it again.
\<close>

theorem complete_image_final:
  assumes "get_complete c t = Some d"
  shows "get_complete (insert_all c shs) t = Some d
    \<and> (is_target_id sh = t \<longrightarrow> \<not> fst (insert_shard (insert_all c shs) sh))"
proof -
  have "complete (insert_all c shs) t = Some d"
    using assms
  proof (induction shs arbitrary: c)
    case (Cons sh shs)
    have "complete (snd (insert_shard c sh)) t = Some d"
      using Cons.prems insert_other(5) [of sh t c]
      by (cases "is_target_id sh = t") (auto simp: insert_defs get_complete_def)
    then show ?case using Cons.IH by (simp add: get_complete_def)
  qed (simp add: get_complete_def)
  then show ?thesis by (auto simp: get_complete_def insert_defs)
qed

section \<open>Witnesses\<close>

theorem image_reassembled_witness:
  "get_complete (insert_all ImageCache_new
     (map (image_shard 9 [[1], [2], [3]]) [2, 0, 0, 1])) 9 = Some [1, 2, 3]"
proof -
  let ?cs = "[[1 :: u8], [2], [3]]" and ?shs = "map (image_shard 9 [[1], [2], [3]]) [2, 0, 0, 1]"
  have "\<forall>i < length ?cs. image_shard 9 ?cs i \<in> set ?shs"
    by (auto simp: less_Suc_eq numeral_eq_Suc)
  moreover have "\<forall>sh \<in> set ?shs. is_target_id sh = 9 \<longrightarrow> (\<exists>i < length ?cs. sh = image_shard 9 ?cs i)"
    by (auto intro: exI [of _ 0] exI [of _ 1] exI [of _ 2])
  ultimately show ?thesis
    using image_reassembled [of ImageCache_new 9 ?cs ?shs] by (simp add: ImageCache_new_def)
qed

theorem complete_image_final_witness:
  "get_complete (insert_all (ImageCache_new\<lparr>complete := [9 \<mapsto> [1, 2]]\<rparr>) [image_shard 9 [[5]] 0]) 9 = Some [1, 2]"
  using complete_image_final [of "ImageCache_new\<lparr>complete := [9 \<mapsto> [1, 2]]\<rparr>" 9 "[1, 2]" "[image_shard 9 [[5]] 0]"]
  by (simp add: get_complete_def)

end
