(* ===== verification/Node.thy ===== *)
theory Node
  imports Scheduler Olsr TargetBoard ImageCache AppState
begin

text \<open>
  The shared state of a node, \<^verbatim>\<open>tacticalmesh-bin/src/main.rs\<close>, and the message handlers,
  \<^verbatim>\<open>tacticalmesh-bin/src/handlers.rs\<close>. A handler that spawns a task returns it; a task that
  sleeps runs up to the sleep and returns its rest. The serializer and the image crate are
  parameters, collected in \<open>node_env\<close>; what a step reads from outside (the clock, the time and
  random bytes of each frame it builds, traversal orders, outcome of the \<^verbatim>\<open>iw\<close> command) is in
  \<open>step_io\<close>. Apart from the frames, a step reads the clock once.
\<close>

section \<open>Parameters\<close>

record node_env =
  env_crypto :: crypto
  ser_olsr :: "OlsrMessage \<Rightarrow> string + bytes"
  de_olsr :: "bytes \<Rightarrow> string + OlsrMessage"
  ser_app :: "AppMsg \<Rightarrow> string + bytes"
  de_app :: "bytes \<Rightarrow> string + AppMsg"
  jpeg_encode :: "bytes \<Rightarrow> u32 \<Rightarrow> u32 \<Rightarrow> u8 \<Rightarrow> bytes option"
  jpeg_decode :: "bytes \<Rightarrow> (bytes \<times> u32 \<times> u32) option"

record step_io =
  io_now :: u64
  io_frame :: "nat \<Rightarrow> u64 \<times> bytes"
  io_ord :: iter_order
  io_board_ord :: "u16 list"
  io_iw_spawned :: bool
  io_iw_success :: bool

section \<open>Shared state\<close>

text \<open>
  The scheduler and the other tasks hold the same link; it is kept once, in the scheduler. The last
  field is not of the struct: it is the channel to which \<open>set_channel\<close> has tuned the interface.
\<close>

record Shared =
  sh_olsr :: OlsrState
  sh_app :: AppState
  sh_board :: TargetBoard
  sh_images :: ImageCache
  sh_local_image :: "(bytes \<times> u32 \<times> u32) option"
  sh_nonces :: NonceCache
  sh_identity :: Identity
  sh_pubkeys :: PubkeyStore
  sh_sched :: TxScheduler
  sh_bad_sigs :: u64
  sh_time_drops :: u64
  sh_replay_drops :: u64
  sh_channel_hops :: u64
  sh_stream_rots :: u64
  sh_radio :: "u8 option"

definition sh_link :: "Shared \<Rightarrow> LinkAdapter" where
  "sh_link s = sched_link (sh_sched s)"

definition demo_pubkeys :: "crypto \<Rightarrow> bytes \<Rightarrow> PubkeyStore" where
  "demo_pubkeys C psk =
     foldl (\<lambda>ks nid. PubkeyStore_insert ks nid (verifying_key (Identity_from_seed C nid psk)))
       PubkeyStore_new [1, 2, 3]"

definition Shared_new ::
  "crypto \<Rightarrow> u8 \<Rightarrow> bytes \<Rightarrow> LinkAdapter \<Rightarrow> (bytes \<times> u32 \<times> u32) option \<Rightarrow> Shared" where
  "Shared_new C nid psk l img =
     \<lparr>sh_olsr = OlsrState_new nid, sh_app = AppState_new nid, sh_board = TargetBoard_new,
      sh_images = ImageCache_new, sh_local_image = img, sh_nonces = NonceCache_new,
      sh_identity = Identity_from_seed C nid psk, sh_pubkeys = demo_pubkeys C psk,
      sh_sched = TxScheduler_new l, sh_bad_sigs = 0, sh_time_drops = 0, sh_replay_drops = 0,
      sh_channel_hops = 0, sh_stream_rots = 0, sh_radio = None\<rparr>"

definition log_line :: "Shared \<Rightarrow> string \<Rightarrow> Shared" where
  "log_line s msg = s\<lparr>sh_app := push_log (sh_app s) msg\<rparr>"

definition sh_enqueue :: "Shared \<Rightarrow> bytes \<Rightarrow> Priority \<Rightarrow> Shared" where
  "sh_enqueue s frame prio = s\<lparr>sh_sched := enqueue (sh_sched s) frame prio\<rparr>"

text \<open>The \<open>k\<close>-th frame built in a step.\<close>

definition new_frame ::
  "node_env \<Rightarrow> step_io \<Rightarrow> nat \<Rightarrow> Shared \<Rightarrow> TacticalMessage \<Rightarrow> Priority \<Rightarrow> u8 \<Rightarrow> bytes" where
  "new_frame env io k s msg prio dst =
     build_frame (env_crypto env) (fst (io_frame io k)) (snd (io_frame io k)) msg prio dst (sh_identity s)"

definition route_frame ::
  "node_env \<Rightarrow> step_io \<Rightarrow> nat \<Rightarrow> Shared \<Rightarrow> TacticalMessage \<Rightarrow> Priority \<Rightarrow> u8 \<Rightarrow> u8 \<Rightarrow> bytes" where
  "route_frame env io k s msg prio dst nh =
     build_frame_for_route (env_crypto env) (fst (io_frame io k)) (snd (io_frame io k)) msg prio dst
       (sh_identity s) nh"

definition relay_frame ::
  "node_env \<Rightarrow> step_io \<Rightarrow> nat \<Rightarrow> Shared \<Rightarrow> TacticalMessage \<Rightarrow> Priority \<Rightarrow> u8 \<Rightarrow> bytes" where
  "relay_frame env io k s msg prio hops =
     build_frame_for_rebroadcast (env_crypto env) (fst (io_frame io k)) (snd (io_frame io k)) msg prio
       (sh_identity s) hops"

section \<open>Tasks\<close>

datatype task =
    Task_Tactical AppMsg u8
  | Task_RequestImage RequestImage u8
  | Task_SendShards RequestImage u8 nat "bytes list" "u32 \<times> u32 \<times> nat"
  | Task_Decode u16 bytes

section \<open>Handlers that update the target board\<close>

definition handle_target_detection :: "TargetDetection \<Rightarrow> Shared \<Rightarrow> Shared" where
  "handle_target_detection td s =
     s\<lparr>sh_board := merge (sh_board s)
        \<lparr>upd_target = \<lparr>t_id = td_target_id td, t_kind = td_kind td, t_state = Detected,
                       t_lat = td_lat td, t_lon = td_lon td, updated_at_ms = td_detected_at_ms td,
                       assigned_to = Some (td_detector td)\<rparr>\<rparr>\<rparr>"

definition known_place :: "Shared \<Rightarrow> u16 \<Rightarrow> f32 \<times> f32 \<times> TargetKind" where
  "known_place s i =
     (case board_get (sh_board s) i of
        Some t \<Rightarrow> (t_lat t, t_lon t, t_kind t)
      | None \<Rightarrow> (0, 0, Unknown))"

definition handle_bda :: "Bda \<Rightarrow> Shared \<Rightarrow> Shared" where
  "handle_bda bda s =
     (let (lat, lon, k) = known_place s (bda_target_id bda);
          st = (case bda_result bda of BdaDestroyed \<Rightarrow> Destroyed | BdaDamaged \<Rightarrow> Engaged | BdaMiss \<Rightarrow> Engaged)
      in s\<lparr>sh_board := merge (sh_board s)
            \<lparr>upd_target = \<lparr>t_id = bda_target_id bda, t_kind = k, t_state = st, t_lat = lat, t_lon = lon,
                           updated_at_ms = bda_at_ms bda, assigned_to = None\<rparr>\<rparr>\<rparr>)"

definition handle_command :: "u64 \<Rightarrow> Command \<Rightarrow> Shared \<Rightarrow> Shared" where
  "handle_command now cmd s =
     (let (lat, lon, k) = known_place s (cmd_target_id cmd);
          (st, asg) = (case cmd_op cmd of
                         Engage \<Rightarrow> (Engaged, None)
                       | Abort \<Rightarrow> (Aborted, None)
                       | Reassign \<Rightarrow> (Assigned, Some (cmd_issued_by cmd)))
      in s\<lparr>sh_board := merge (sh_board s)
            \<lparr>upd_target = \<lparr>t_id = cmd_target_id cmd, t_kind = k, t_state = st, t_lat = lat, t_lon = lon,
                           updated_at_ms = now, assigned_to = asg\<rparr>\<rparr>\<rparr>)"

section \<open>Reports, chat and alarms\<close>

definition handle_state_report :: "StateReport \<Rightarrow> Shared \<Rightarrow> Shared" where
  "handle_state_report sr s =
     log_line s (''[INFO] StateReport from NODE-'' @ show_word (sr_node_id sr) @ '': battery=''
                 @ show_word (sr_battery_pct sr) @ ''%'')"

definition handle_channel_hop :: "step_io \<Rightarrow> ChannelHop \<Rightarrow> Shared \<Rightarrow> Shared" where
  "handle_channel_hop io ch s =
     (let s = s\<lparr>sh_radio := snd (set_channel (io_iw_spawned io) (io_iw_success io) (sh_radio s) (ch_new_channel ch))\<rparr>;
          s = s\<lparr>sh_stream_rots := sh_stream_rots s + 1, sh_channel_hops := sh_channel_hops s + 1\<rparr>;
          msg = ''[INFO] Hopped to ch'' @ show_word (ch_new_channel ch) @ '', epoch ''
                @ show_word (ch_new_epoch ch)
      in log_line (s\<lparr>sh_app := (sh_app s)\<lparr>app_channel := ch_new_channel ch\<rparr>\<rparr>) msg)"

definition handle_jam_alert :: "step_io \<Rightarrow> JamAlert \<Rightarrow> Shared \<Rightarrow> Shared" where
  "handle_jam_alert io ja s =
     (let s = log_line s (''[WARN] JamAlert from NODE-'' @ show_word (ja_detected_by ja) @ '': ch=''
                          @ show_word (ja_channel ja) @ '' at='' @ show_word (ja_at_ms ja) @ ''ms'');
          s = s\<lparr>sh_channel_hops := sh_channel_hops s + 1\<rparr>;
          hop_ch = (if ja_channel ja = 36 then 40 else 36);
          hop = \<lparr>ch_new_channel = hop_ch, ch_new_epoch = current_epoch (sh_link s) + 1,
                 ch_initiated_by = id_node (sh_identity s)\<rparr>
      in handle_channel_hop io hop s)"

definition handle_chat :: "u64 \<Rightarrow> ChatMessage \<Rightarrow> Shared \<Rightarrow> Shared" where
  "handle_chat now chat s =
     (if chat_from chat = id_node (sh_identity s) then s
      else log_line s (''['' @ hms now @ ''] [CHAT] NODE-'' @ show_word (chat_from chat) @ '': ''
                       @ chat_text chat))"

definition handle_mayday :: "Mayday \<Rightarrow> Shared \<Rightarrow> Shared" where
  "handle_mayday m s =
     log_line s (''[MAYDAY] NODE-'' @ show_word (md_node_id m) @ '' at '' @ show_word (md_at_ms m)
                 @ ''ms '' @ em_dash @ '' all units respond'')"

section \<open>Images\<close>

definition handle_image_shard :: "ImageShard \<Rightarrow> Shared \<Rightarrow> Shared \<times> task list" where
  "handle_image_shard shard s =
     (let t = is_target_id shard;
          total_blocks = max (is_total_blocks shard) 1;
          (completed, cache) = insert_shard (sh_images s) shard;
          n_done = blocks_assembled cache t;
          s = s\<lparr>sh_images := cache\<rparr>
      in if completed then
           (case get_complete cache t of
              Some assembled \<Rightarrow> (s, [Task_Decode t assembled])
            | None \<Rightarrow> (s, []))
         else (s\<lparr>sh_app := (sh_app s)\<lparr>image_rx := Some \<lparr>rx_target_id = t, blocks_done = n_done,
                                                       blocks_total = total_blocks\<rparr>\<rparr>\<rparr>, []))"

text \<open>The task that decodes a complete image and shows it.\<close>

definition finish_decode :: "node_env \<Rightarrow> u16 \<Rightarrow> bytes \<Rightarrow> Shared \<Rightarrow> Shared" where
  "finish_decode env t assembled s =
     (let (pixels, w, h) = unwrap_or (jpeg_decode env assembled) (assembled, 640, 480);
          app = (sh_app s)\<lparr>image_rx := None,
                           app_image := Some \<lparr>id_target_id = t, id_pixels = pixels, id_width = w,
                                              id_height = h\<rparr>\<rparr>
      in s\<lparr>sh_app := push_log app (''[IMG] Image for target '' @ show_word t @ '' ready (''
                      @ show_word w @ times_sign @ show_word h @ '')'')\<rparr>)"

definition SHARD_SIZE :: nat where "SHARD_SIZE = 1207"
definition BURST :: nat where "BURST = 4"

text \<open>The first part of \<open>handle_request_image\<close>, up to the loop over the chunks.\<close>

definition handle_request_image :: "node_env \<Rightarrow> RequestImage \<Rightarrow> u8 \<Rightarrow> Shared \<Rightarrow> Shared \<times> task list" where
  "handle_request_image env req src s =
     (if ri_requester req = id_node (sh_identity s) then (s, [])
      else case sh_local_image s of
        None \<Rightarrow> (s, [])
      | Some (raw, w, h) \<Rightarrow>
          (case jpeg_encode env raw w h 75 of
             None \<Rightarrow> (s, [])
           | Some image_bytes \<Rightarrow>
               (let cs = chunks SHARD_SIZE image_bytes
                in (s, [Task_SendShards req (of_nat (length cs)) 0 cs (w, h, length image_bytes)]))))"

definition shard_of :: "RequestImage \<Rightarrow> u8 \<Rightarrow> nat \<Rightarrow> bytes \<Rightarrow> ImageShard" where
  "shard_of req total_blocks block_id data =
     \<lparr>is_target_id = ri_target_id req, is_total_blocks = total_blocks, is_block_id = of_nat block_id,
      is_index = 0, is_k = 1, is_n = 1, is_data = data\<rparr>"

definition send_shard :: "node_env \<Rightarrow> step_io \<Rightarrow> RequestImage \<Rightarrow> nat \<Rightarrow> bytes \<Rightarrow> Shared \<Rightarrow> Shared" where
  "send_shard env io req block_id p s =
     (let wire = \<lparr>kind = Data, payload = p\<rparr>;
          frame = (case route_to (sh_olsr s) (ri_requester req) of
                     Some route \<Rightarrow> route_frame env io block_id s wire Bulk (ri_requester req) (next_hop route)
                   | None \<Rightarrow> new_frame env io block_id s wire Bulk BROADCAST)
      in sh_enqueue s frame Bulk)"

text \<open>The loop over the chunks, up to the next pause or the end.\<close>

fun send_burst ::
  "node_env \<Rightarrow> step_io \<Rightarrow> RequestImage \<Rightarrow> u8 \<Rightarrow> nat \<Rightarrow> bytes list \<Rightarrow> Shared
    \<Rightarrow> Shared \<times> (nat \<times> bytes list) option" where
  "send_burst env io req total_blocks block_id [] s = (s, None)"
| "send_burst env io req total_blocks block_id (data # rest) s =
     (case ser_app env (Msg_ImageShard (shard_of req total_blocks block_id data)) of
        Inl e \<Rightarrow> send_burst env io req total_blocks (block_id + 1) rest s
      | Inr p \<Rightarrow>
          (let s = send_shard env io req block_id p s in
           if (block_id + 1) mod BURST = 0 then (s, Some (block_id + 1, rest))
           else send_burst env io req total_blocks (block_id + 1) rest s))"

definition send_shards ::
  "node_env \<Rightarrow> step_io \<Rightarrow> RequestImage \<Rightarrow> u8 \<Rightarrow> nat \<Rightarrow> bytes list \<Rightarrow> u32 \<times> u32 \<times> nat \<Rightarrow> Shared
    \<Rightarrow> Shared \<times> task list" where
  "send_shards env io req total_blocks block_id cs = (\<lambda>(w, h, len) s.
     case send_burst env io req total_blocks block_id cs s of
       (s, Some (b, rest)) \<Rightarrow> (s, [Task_SendShards req total_blocks b rest (w, h, len)])
     | (s, None) \<Rightarrow>
         (log_line s (''[IMG] Sending '' @ show_word total_blocks @ '' shards for target ''
            @ show_word (ri_target_id req) @ '' to NODE-'' @ show_word (ri_requester req) @ '' (''
            @ show_word w @ times_sign @ show_word h @ '' JPEG '' @ show_nat len @ '' bytes)''), []))"

section \<open>Dispatch\<close>

definition handle_tactical :: "node_env \<Rightarrow> step_io \<Rightarrow> AppMsg \<Rightarrow> u8 \<Rightarrow> Shared \<Rightarrow> Shared \<times> task list" where
  "handle_tactical env io msg src s =
     (case msg of
        Msg_TargetDetection td \<Rightarrow> (handle_target_detection td s, [])
      | Msg_Bda bda \<Rightarrow> (handle_bda bda s, [])
      | Msg_Command cmd \<Rightarrow> (handle_command (io_now io) cmd s, [])
      | Msg_StateReport sr \<Rightarrow> (handle_state_report sr s, [])
      | Msg_ImageShard shard \<Rightarrow> handle_image_shard shard s
      | Msg_RequestImage req \<Rightarrow> (s, [Task_RequestImage req src])
      | Msg_JamAlert ja \<Rightarrow> (handle_jam_alert io ja s, [])
      | Msg_ChannelHop ch \<Rightarrow> (handle_channel_hop io ch s, [])
      | Msg_Mayday m \<Rightarrow> (handle_mayday m s, [])
      | Msg_Chat chat \<Rightarrow> (handle_chat (io_now io) chat s, [])
      | Msg_Ack _ \<Rightarrow> (s, [])
      | Msg_Olsr _ \<Rightarrow> (s, []))"

fun run_task :: "node_env \<Rightarrow> step_io \<Rightarrow> task \<Rightarrow> Shared \<Rightarrow> Shared \<times> task list" where
  "run_task env io (Task_Tactical msg src) s = handle_tactical env io msg src s"
| "run_task env io (Task_RequestImage req src) s = handle_request_image env req src s"
| "run_task env io (Task_SendShards req total_blocks b cs dims) s = send_shards env io req total_blocks b cs dims s"
| "run_task env io (Task_Decode t assembled) s = (finish_decode env t assembled s, [])"

end
