(* ===== verification/Receive.thy ===== *)
theory Receive
  imports Node
begin

text \<open>
  The receive loop and jam detection, \<^verbatim>\<open>tacticalmesh-bin/src/rx.rs\<close>: \<open>rx_step\<close> is one round of
  \<^verbatim>\<open>rx_loop\<close> on a frame that a link reader delivered.
\<close>

section \<open>Jam detection\<close>

record JamWindow =
  jw_entries :: "(u64 \<times> Priority) list"

definition JamWindow_new :: JamWindow where
  "JamWindow_new = \<lparr>jw_entries = []\<rparr>"

definition evict :: "JamWindow \<Rightarrow> u64 \<Rightarrow> JamWindow" where
  "evict w now = w\<lparr>jw_entries := dropWhile (\<lambda>(ts, _). 500 < saturating_sub now ts) (jw_entries w)\<rparr>"

definition jw_record :: "JamWindow \<Rightarrow> Priority \<Rightarrow> u64 \<Rightarrow> JamWindow" where
  "jw_record w prio now = evict (w\<lparr>jw_entries := jw_entries w @ [(now, prio)]\<rparr>) now"

definition is_jammed :: "JamWindow \<Rightarrow> bool" where
  "is_jammed w \<longleftrightarrow>
     (if jw_entries w = [] then False
      else
        let hello_count = length (filter (\<lambda>(_, p). p = High) (jw_entries w));
            bulk_count = length (filter (\<lambda>(_, p). p = Bulk) (jw_entries w))
        in hello_count = 0 \<and> 150 < bulk_count)"

section \<open>Rounds of the receive loop\<close>

record RxState =
  jam_window :: JamWindow
  jam_detected :: bool

definition RxState_new :: RxState where
  "RxState_new = \<lparr>jam_window = JamWindow_new, jam_detected = False\<rparr>"

text \<open>A frame that is dropped only counts.\<close>

definition count_drop :: "FrameError \<Rightarrow> Shared \<Rightarrow> Shared" where
  "count_drop e s =
     (case e of
        BadSignature \<Rightarrow> s\<lparr>sh_bad_sigs := sh_bad_sigs s + 1\<rparr>
      | TimeWindowExpired \<Rightarrow> s\<lparr>sh_time_drops := sh_time_drops s + 1\<rparr>
      | ReplayedNonce \<Rightarrow> s\<lparr>sh_replay_drops := sh_replay_drops s + 1\<rparr>
      | _ \<Rightarrow> s)"

text \<open>The routing decision.\<close>

definition deliver_local :: "u8 \<Rightarrow> ParsedFrame \<Rightarrow> bool" where
  "deliver_local self f \<longleftrightarrow> dst_node (auth f) = self \<or> dst_node (auth f) = BROADCAST"

definition rebroadcast :: "ParsedFrame \<Rightarrow> bool" where
  "rebroadcast f \<longleftrightarrow>
     dst_node (auth f) = BROADCAST \<and> hops_taken (routed f) < WIRE_MAX_HOPS \<and> msg_kind (auth f) \<noteq> Data"

definition forward_unicast :: "u8 \<Rightarrow> ParsedFrame \<Rightarrow> bool" where
  "forward_unicast self f \<longleftrightarrow> dst_node (auth f) \<noteq> self \<and> dst_node (auth f) \<noteq> BROADCAST"

definition rx_relay :: "node_env \<Rightarrow> step_io \<Rightarrow> ParsedFrame \<Rightarrow> Shared \<Rightarrow> Shared" where
  "rx_relay env io f s =
     (let a = auth f;
          wire = \<lparr>kind = msg_kind a, payload = plaintext f\<rparr>;
          s = (if rebroadcast f
               then sh_enqueue s (relay_frame env io 0 s wire (priority a)
                                    (saturating_add (hops_taken (routed f)) 1)) (priority a)
               else s)
      in if forward_unicast (id_node (sh_identity s)) f
         then (case route_to (sh_olsr s) (dst_node a) of
                 Some r \<Rightarrow> sh_enqueue s (route_frame env io 1 s wire (priority a) (dst_node a) (next_hop r))
                             (priority a)
               | None \<Rightarrow> s)
         else s)"

text \<open>Dispatch by kind; the spawned task comes back.\<close>

definition rx_dispatch ::
  "node_env \<Rightarrow> step_io \<Rightarrow> i8 \<Rightarrow> ParsedFrame \<Rightarrow> Shared \<Rightarrow> Shared \<times> task list" where
  "rx_dispatch env io rssi f s =
     (let src = src_node (auth f) in
      case msg_kind (auth f) of
        OlsrHello \<Rightarrow>
          (case de_olsr env (plaintext f) of
             Inr (OlsrMessage_Hello hello) \<Rightarrow>
               (s\<lparr>sh_olsr := process_hello (io_ord io) (io_now io) hello src rssi (sh_olsr s)\<rparr>, [])
           | _ \<Rightarrow> (s, []))
      | OlsrTc \<Rightarrow>
          (case de_olsr env (plaintext f) of
             Inr (OlsrMessage_Tc tc) \<Rightarrow>
               (let (forward, olsr) = process_tc (io_ord io) tc src (sh_olsr s);
                    s = s\<lparr>sh_olsr := olsr\<rparr>
                in if forward
                   then (sh_enqueue s (new_frame env io 2 s \<lparr>kind = OlsrTc, payload = plaintext f\<rparr>
                                         High BROADCAST) High, [])
                   else (s, []))
           | _ \<Rightarrow> (s, []))
      | Data \<Rightarrow>
          (case de_app env (plaintext f) of
             Inr msg \<Rightarrow> (s, [Task_Tactical msg src])
           | Inl e \<Rightarrow> (s, []))
      | Ack \<Rightarrow> (s, [])
      | SessionKeyRotation \<Rightarrow> (s\<lparr>sh_stream_rots := sh_stream_rots s + 1\<rparr>, []))"

text \<open>
  The answer to a jam, as the states after its steps: the hop, the alert in the queue, the line in
  the log. The other tasks, the transmit loop among them, can run between any two of them.
\<close>

definition jam_respond :: "node_env \<Rightarrow> step_io \<Rightarrow> Shared \<Rightarrow> Shared list" where
  "jam_respond env io s =
     (let ja = \<lparr>ja_detected_by = id_node (sh_identity s), ja_channel = app_channel (sh_app s),
                ja_at_ms = io_now io\<rparr>;
          hopped = handle_jam_alert io ja s;
          queued = (case ser_app env (Msg_JamAlert ja) of
                      Inr p \<Rightarrow> sh_enqueue hopped (new_frame env io 3 hopped \<lparr>kind = Data, payload = p\<rparr>
                                                   Emergency BROADCAST) Emergency
                    | Inl e \<Rightarrow> hopped);
          logged = log_line queued (''[WARN] Jam detected '' @ em_dash @ '' broadcasting JamAlert'')
      in [hopped, queued, logged])"

definition rx_jam_check ::
  "node_env \<Rightarrow> step_io \<Rightarrow> RxState \<Rightarrow> Shared \<Rightarrow> RxState \<times> Shared" where
  "rx_jam_check env io rx s =
     (let (rx, s) =
        (if \<not> jam_detected rx \<and> is_jammed (jam_window rx) then
           (rx\<lparr>jam_detected := True\<rparr>, last (jam_respond env io s))
         else (rx, s))
      in (if jam_detected rx \<and> \<not> is_jammed (jam_window rx) then rx\<lparr>jam_detected := False\<rparr> else rx, s))"

definition rx_step ::
  "node_env \<Rightarrow> step_io \<Rightarrow> bytes \<Rightarrow> RxMeta \<Rightarrow> RxState \<Rightarrow> Shared \<Rightarrow> RxState \<times> Shared \<times> task list" where
  "rx_step env io raw meta rx s =
     (case parse_and_verify_frame (env_crypto env) raw (sh_pubkeys s) (sh_nonces s) (io_now io)
             (id_session_key (sh_identity s)) of
        (Inl e, nc) \<Rightarrow> (rx, count_drop e (s\<lparr>sh_nonces := nc\<rparr>), [])
      | (Inr f, nc) \<Rightarrow>
          (let s = s\<lparr>sh_nonces := nc\<rparr>;
               rx = rx\<lparr>jam_window := jw_record (jam_window rx) (priority (auth f)) (io_now io)\<rparr>;
               s = rx_relay env io f s
           in if \<not> deliver_local (id_node (sh_identity s)) f then (rx, s, [])
              else
                let (s, tasks) = rx_dispatch env io (rssi_dbm meta) f s;
                    (rx, s) = rx_jam_check env io rx s
                in (rx, s, tasks)))"

end
