(* ===== verification/NodeLoops.thy ===== *)
theory NodeLoops
  imports Receive
begin

text \<open>
  The other tasks of the node binary: the copy of the state for the display and the outbound
  queue, \<^verbatim>\<open>tacticalmesh-bin/src/loops.rs\<close>, and the terminal loop with its key commands, the
  spoofer and the jammer, \<^verbatim>\<open>tacticalmesh-bin/src/tui_loop.rs\<close>. Keys are single-byte characters.
\<close>

section \<open>Outbound messages\<close>

record OutboundMsg =
  out_app_msg :: AppMsg
  out_dst :: u8
  out_prio :: Priority

definition outbound_step :: "node_env \<Rightarrow> step_io \<Rightarrow> OutboundMsg \<Rightarrow> Shared \<Rightarrow> Shared" where
  "outbound_step env io out s =
     (case ser_app env (out_app_msg out) of
        Inl e \<Rightarrow> s
      | Inr p \<Rightarrow>
          (let wire = \<lparr>kind = Data, payload = p\<rparr> in
           if out_dst out = BROADCAST
           then sh_enqueue s (new_frame env io 0 s wire (out_prio out) BROADCAST) (out_prio out)
           else case route_to (sh_olsr s) (out_dst out) of
                  Some r \<Rightarrow> sh_enqueue s (route_frame env io 0 s wire (out_prio out) (out_dst out) (next_hop r))
                              (out_prio out)
                | None \<Rightarrow> s))"

section \<open>Epoch rotation\<close>

text \<open>
  A tick of \<open>epoch_rotation_loop\<close>: the loop holds a shared reference, through which the link cannot
  be rotated, and only logs.
\<close>

definition epoch_rotation_tick :: "LinkAdapter \<Rightarrow> LinkAdapter" where
  "epoch_rotation_tick l = l"

section \<open>Copying the state for the display\<close>

definition node_name :: "u8 \<Rightarrow> string" where
  "node_name n = ''NODE-'' @ show_word n"

fun TargetKind_debug :: "TargetKind \<Rightarrow> string" where
  "TargetKind_debug Vehicle = ''Vehicle''"
| "TargetKind_debug Personnel = ''Personnel''"
| "TargetKind_debug Emplacement = ''Emplacement''"
| "TargetKind_debug Unknown = ''Unknown''"

fun TargetState_debug :: "TargetState \<Rightarrow> string" where
  "TargetState_debug Detected = ''Detected''"
| "TargetState_debug Assigned = ''Assigned''"
| "TargetState_debug Engaged = ''Engaged''"
| "TargetState_debug Aborted = ''Aborted''"
| "TargetState_debug Destroyed = ''Destroyed''"

text \<open>\<open>rks\<close> and \<open>srcs\<close> are the traversal orders of the routes and of the topology rows.\<close>

definition display_routes :: "u8 list \<Rightarrow> OlsrState \<Rightarrow> RouteDisplay list" where
  "display_routes rks o1 =
     map (\<lambda>(_, r). \<lparr>rd_dest = node_name (destination r), rd_via = node_name (next_hop r),
                    rd_cost = route_cost r, rd_hops = hop_count r\<rparr>) (entries rks (routes o1))"

definition display_neighbors :: "iter_order \<Rightarrow> OlsrState \<Rightarrow> NeighborDisplay list" where
  "display_neighbors ord o1 =
     map (\<lambda>(_, e). \<lparr>nd_name = node_name (nb_node_id e), nd_rssi = scast (lq_rssi_dbm (link_quality e)),
                    nd_last_hello_ms = last_hello_ms e\<rparr>) (entries (ord (local_id o1)) (neighbors o1))"

definition display_topology :: "iter_order \<Rightarrow> u8 list \<Rightarrow> OlsrState \<Rightarrow> (string \<times> string \<times> u32) list" where
  "display_topology ord srcs o1 =
     map (\<lambda>(src, dst, q). (node_name src, node_name dst, link_cost q)) (topology_edges ord srcs o1)"

definition display_targets :: "u16 list \<Rightarrow> TargetBoard \<Rightarrow> TargetDisplay list" where
  "display_targets ks b =
     map (\<lambda>t. \<lparr>tdi_id = t_id t, tdi_kind = TargetKind_debug (t_kind t),
               tdi_state = TargetState_debug (t_state t), tdi_lat = t_lat t, tdi_lon = t_lon t,
               tdi_assigned_to = assigned_to t\<rparr>) (board_list ks b)"

definition sync_tick ::
  "step_io \<Rightarrow> u8 list \<Rightarrow> u8 list \<Rightarrow> u64 \<Rightarrow> bool \<Rightarrow> Shared \<Rightarrow> bool \<times> Shared" where
  "sync_tick io rks srcs start_ms converged s =
     (let rs = display_routes rks (sh_olsr s);
          ns = display_neighbors (io_ord io) (sh_olsr s);
          topo = display_topology (io_ord io) srcs (sh_olsr s);
          first = (\<not> converged \<and> rs \<noteq> []);
          app = (if first
                 then (sh_app s)\<lparr>olsr_converged_in_ms := Some (saturating_sub (io_now io) start_ms)\<rparr>
                 else sh_app s);
          app = app\<lparr>routing_table := rs, app_neighbors := ns, app_topology_edges := topo,
                    app_targets := display_targets (io_board_ord io) (sh_board s),
                    app_epoch := current_epoch (sh_link s),
                    counters := (counters app)\<lparr>bad_sigs_dropped := sh_bad_sigs s,
                                               time_window_drops := sh_time_drops s,
                                               replayed_nonces := sh_replay_drops s,
                                               ac_channel_hops := sh_channel_hops s,
                                               stream_rotations := sh_stream_rots s\<rparr>\<rparr>
      in (converged \<or> first, s\<lparr>sh_app := app\<rparr>))"

section \<open>The terminal\<close>

datatype TuiEvent = KeyPress char | Enter | Backspace | Escape

text \<open>
  \<^verbatim>\<open>next_event\<close> of \<^verbatim>\<open>tacticalmesh-app/src/tui/mod.rs\<close>: what the terminal library reports, if
  anything, as an event of the program. Control-C and control-D count as escape.
\<close>

datatype KeyCode = Key_Esc | Key_Enter | Key_Backspace | Key_Delete | Key_Char char | Key_Other

datatype KeyEventKind = Key_Press | Key_Repeat | Key_Release

datatype term_event = Event_Key KeyCode KeyEventKind bool | Event_Other

fun next_event :: "term_event option \<Rightarrow> TuiEvent option" where
  "next_event (Some (Event_Key code knd control)) =
     (if knd = Key_Press \<or> knd = Key_Repeat then
        (case code of
           Key_Esc \<Rightarrow> Some Escape
         | Key_Enter \<Rightarrow> Some Enter
         | Key_Backspace \<Rightarrow> Some Backspace
         | Key_Delete \<Rightarrow> Some Backspace
         | Key_Char c \<Rightarrow>
             (if control \<and> (c = CHR ''c'' \<or> c = CHR ''d'') then Some Escape
              else if c = CHR 0x7F then Some Backspace
              else Some (KeyPress c))
         | Key_Other \<Rightarrow> None)
      else None)"
| "next_event _ = None"

record TuiState =
  spoof_active :: bool
  jam_active :: bool
  blackout :: bool

text \<open>\<^verbatim>\<open>trim().is_empty()\<close> on single-byte characters.\<close>

definition is_blank :: "string \<Rightarrow> bool" where
  "is_blank t \<longleftrightarrow> list_all (\<lambda>c. c = CHR '' '' \<or> (9 \<le> (of_char c :: nat) \<and> (of_char c :: nat) \<le> 13)) t"

definition tui_input :: "step_io \<Rightarrow> TuiEvent \<Rightarrow> Shared \<Rightarrow> Shared \<times> OutboundMsg list" where
  "tui_input io ev s =
     (let app = sh_app s; self = id_node (sh_identity s) in
      case ev of
        Escape \<Rightarrow> (s\<lparr>sh_app := app\<lparr>input_mode := False, input_buf := []\<rparr>\<rparr>, [])
      | Backspace \<Rightarrow> (s\<lparr>sh_app := app\<lparr>input_buf := butlast (input_buf app)\<rparr>\<rparr>, [])
      | Enter \<Rightarrow>
          (let t = input_buf app;
               s = s\<lparr>sh_app := app\<lparr>input_mode := False, input_buf := []\<rparr>\<rparr>
           in if is_blank t then (s, [])
              else (log_line s (''['' @ hms (io_now io) @ ''] [CHAT] NODE-'' @ show_word self @ '': '' @ t),
                    [\<lparr>out_app_msg = Msg_Chat \<lparr>chat_from = self, chat_text = t\<rparr>, out_dst = BROADCAST,
                      out_prio = High\<rparr>]))
      | KeyPress c \<Rightarrow> (s\<lparr>sh_app := app\<lparr>input_buf := input_buf app @ [c]\<rparr>\<rparr>, []))"

text \<open>
  The command keys. \<open>rnd_id\<close>, \<open>lat\<close> and \<open>lon\<close> are the random target number and the position that
  the floating-point code computes. The first component tells whether the loop ends.
\<close>

definition show_image :: "u16 \<Rightarrow> string \<Rightarrow> Shared \<Rightarrow> bytes \<times> u32 \<times> u32 \<Rightarrow> Shared" where
  "show_image t prefix s = (\<lambda>(pixels, w, h).
     log_line (s\<lparr>sh_app := (sh_app s)\<lparr>app_image :=
         Some \<lparr>id_target_id = t, id_pixels = pixels, id_width = w, id_height = h\<rparr>\<rparr>\<rparr>)
       (prefix @ '' loaded ('' @ show_word w @ times_sign @ show_word h @ '')''))"

definition key_target :: "step_io \<Rightarrow> u16 \<Rightarrow> f32 \<Rightarrow> f32 \<Rightarrow> Shared \<Rightarrow> Shared \<times> OutboundMsg list" where
  "key_target io rnd_id lat lon s =
     (log_line s ''[KEY t] TargetDetection broadcast'',
      [\<lparr>out_app_msg = Msg_TargetDetection
          \<lparr>td_target_id = rnd_id mod 900 + 100, td_kind = Vehicle, td_lat = lat, td_lon = lon,
           td_detected_at_ms = io_now io, td_detector = id_node (sh_identity s)\<rparr>,
        out_dst = BROADCAST, out_prio = Critical\<rparr>])"

definition key_bda :: "step_io \<Rightarrow> Shared \<Rightarrow> Shared \<times> OutboundMsg list" where
  "key_bda io s =
     (let t = (case map t_id (board_list (io_board_ord io) (sh_board s)) of
                 [] \<Rightarrow> 100 | i # is \<Rightarrow> foldl max i is)
      in (log_line s (''[KEY f] BDA DESTROYED for target '' @ show_word t),
          [\<lparr>out_app_msg = Msg_Bda \<lparr>bda_target_id = t, bda_result = BdaDestroyed, bda_at_ms = io_now io\<rparr>,
            out_dst = BROADCAST, out_prio = Critical\<rparr>]))"

definition key_image :: "step_io \<Rightarrow> Shared \<Rightarrow> Shared \<times> OutboundMsg list" where
  "key_image io s =
     (let self = id_node (sh_identity s);
          (t, image_node) = (case board_list (io_board_ord io) (sh_board s) of
                               [] \<Rightarrow> (100, None) | x # _ \<Rightarrow> (t_id x, assigned_to x))
      in if image_node = Some self
         then (case sh_local_image s of
                 Some img \<Rightarrow> (show_image t (''[KEY i] Local image for target '' @ show_word t) s img, [])
               | None \<Rightarrow> (log_line s (''[KEY i] No local image for target '' @ show_word t), []))
         else
           let dst = unwrap_or image_node BROADCAST;
               dst_label = (if dst = BROADCAST then ''broadcast'' else node_name dst)
           in (log_line s (''[KEY i] RequestImage for target '' @ show_word t @ '' to '' @ dst_label),
               [\<lparr>out_app_msg = Msg_RequestImage \<lparr>ri_target_id = t, ri_requester = self\<rparr>,
                 out_dst = dst, out_prio = Bulk\<rparr>]))"

definition key_blackout :: "TuiState \<Rightarrow> Shared \<Rightarrow> TuiState \<times> Shared" where
  "key_blackout u s =
     (let on = (\<not> blackout u);
          nodes = (if on then Some [id_node (sh_identity s)] else None);
          s = s\<lparr>sh_sched := (sh_sched s)\<lparr>sched_link := set_allow_list (sh_link s) nodes\<rparr>\<rparr>
      in (u\<lparr>blackout := on\<rparr>,
          log_line s (if on then ''[KEY b] Blackout ON (RX blocked)'' else ''[KEY b] Blackout OFF'')))"

definition key_report :: "char \<Rightarrow> f32 \<Rightarrow> f32 \<Rightarrow> Shared \<Rightarrow> Shared \<times> OutboundMsg list" where
  "key_report c lat lon s =
     (log_line s (''[KEY '' @ [c] @ ''] StateReport broadcast''),
      [\<lparr>out_app_msg = Msg_StateReport \<lparr>sr_node_id = id_node (sh_identity s), sr_battery_pct = 85,
                                       sr_lat = lat, sr_lon = lon\<rparr>,
        out_dst = BROADCAST, out_prio = High\<rparr>])"

definition tui_command ::
  "step_io \<Rightarrow> u16 \<Rightarrow> f32 \<Rightarrow> f32 \<Rightarrow> TuiEvent \<Rightarrow> TuiState \<Rightarrow> Shared
    \<Rightarrow> bool \<times> TuiState \<times> Shared \<times> OutboundMsg list" where
  "tui_command io rnd_id lat lon ev u s =
     (case ev of
        Escape \<Rightarrow> (True, u, s, [])
      | KeyPress c \<Rightarrow>
          (if c = CHR ''q'' then (True, u, s, [])
           else if c = CHR ''/'' then (False, u, s\<lparr>sh_app := (sh_app s)\<lparr>input_mode := True\<rparr>\<rparr>, [])
           else if c = CHR ''t'' then (False, u, key_target io rnd_id lat lon s)
           else if c = CHR ''f'' then (False, u, key_bda io s)
           else if c = CHR ''i'' then (False, u, key_image io s)
           else if c = CHR ''s'' then
             (False, u\<lparr>spoof_active := \<not> spoof_active u\<rparr>,
              log_line s (if \<not> spoof_active u then ''[KEY s] Spoofer ENABLED'' else ''[KEY s] Spoofer DISABLED''), [])
           else if c = CHR ''j'' then
             (False, u\<lparr>jam_active := \<not> jam_active u\<rparr>,
              log_line s (if \<not> jam_active u then ''[KEY j] Jammer ENABLED'' else ''[KEY j] Jammer DISABLED''), [])
           else if c = CHR ''b'' then (case key_blackout u s of (u', s') \<Rightarrow> (False, u', s', []))
           else if c = CHR ''p'' then
             (case sh_local_image s of
                Some img \<Rightarrow> (False, u, show_image 0 ''[KEY p] Local image'' s img, [])
              | None \<Rightarrow> (False, u, log_line s ''[KEY p] No local image available'', []))
           else if c = CHR ''o'' then
             (False, u, log_line s (''[OLSR] neighbors='' @ show_nat (card (dom (neighbors (sh_olsr s))))
                @ '' routes='' @ show_nat (card (dom (routes (sh_olsr s))))
                @ '' epoch='' @ show_word (current_epoch (sh_link s))), [])
           else if 49 \<le> (of_char c :: nat) \<and> (of_char c :: nat) \<le> 57 then (False, u, key_report c lat lon s)
           else (False, u, s, []))
      | _ \<Rightarrow> (False, u, s, []))"

definition tui_step ::
  "step_io \<Rightarrow> u16 \<Rightarrow> f32 \<Rightarrow> f32 \<Rightarrow> TuiEvent \<Rightarrow> TuiState \<Rightarrow> Shared
    \<Rightarrow> bool \<times> TuiState \<times> Shared \<times> OutboundMsg list" where
  "tui_step io rnd_id lat lon ev u s =
     (if input_mode (sh_app s) then (False, u, tui_input io ev s)
      else tui_command io rnd_id lat lon ev u s)"

section \<open>Spoofer and jammer\<close>

text \<open>\<open>seed\<close> is the random signing key of the fake identity; the counter is that of bad signatures.\<close>

definition spoofer_tick ::
  "node_env \<Rightarrow> step_io \<Rightarrow> bytes \<Rightarrow> bytes \<Rightarrow> bool \<Rightarrow> bool \<Rightarrow> Shared \<Rightarrow> Shared" where
  "spoofer_tick env io seed key active ok s =
     (if active then
        (let fake = Identity_generate (env_crypto env) seed key 255;
             frame = build_frame (env_crypto env) (fst (io_frame io 0)) (snd (io_frame io 0))
                       \<lparr>kind = Data, payload = [83, 80, 79, 79, 70]\<rparr> Critical BROADCAST fake;
             l = snd (snd (LinkAdapter_send ok (sh_link s) frame Critical))
         in s\<lparr>sh_sched := (sh_sched s)\<lparr>sched_link := l\<rparr>, sh_bad_sigs := sh_bad_sigs s + 1\<rparr>)
      else s)"

definition jammer_tick :: "bytes \<Rightarrow> bool \<Rightarrow> bool \<Rightarrow> Shared \<Rightarrow> Shared" where
  "jammer_tick garbage active ok s =
     (if active
      then s\<lparr>sh_sched := (sh_sched s)\<lparr>sched_link :=
               snd (snd (LinkAdapter_send ok (sh_link s) garbage Bulk))\<rparr>\<rparr>
      else s)"

end
