(* ===== verification/Behaviour.thy ===== *)
theory Behaviour
  imports NodeLoops
begin

text \<open>
  What a node does with the frames it receives: dropped frames leave no trace but a count, data
  messages reach the handler of every addressed node, control messages are relayed a bounded
  number of times, and the jam window is what its definition says over any run.
\<close>

section \<open>Serialization\<close>

text \<open>The serializer is used through this law only: what was written can be read back.\<close>

definition codec_ok :: "('m \<Rightarrow> string + bytes) \<Rightarrow> (bytes \<Rightarrow> string + 'm) \<Rightarrow> bool" where
  "codec_ok ser de \<longleftrightarrow> (\<forall>m b. ser m = Inr b \<longrightarrow> de b = Inr m)"

lemma codec_okD: "codec_ok ser de \<Longrightarrow> ser m = Inr b \<Longrightarrow> de b = Inr m"
  by (simp add: codec_ok_def)

section \<open>Frame conditions of the handlers\<close>

lemma log_line_fields [simp]:
  "sh_olsr (log_line s m) = sh_olsr s" "sh_board (log_line s m) = sh_board s"
  "sh_images (log_line s m) = sh_images s" "sh_nonces (log_line s m) = sh_nonces s"
  "sh_identity (log_line s m) = sh_identity s" "sh_pubkeys (log_line s m) = sh_pubkeys s"
  "sh_sched (log_line s m) = sh_sched s" "sh_local_image (log_line s m) = sh_local_image s"
  by (simp_all add: log_line_def)

lemma sh_enqueue_fields [simp]:
  "sh_olsr (sh_enqueue s f p) = sh_olsr s" "sh_board (sh_enqueue s f p) = sh_board s"
  "sh_images (sh_enqueue s f p) = sh_images s" "sh_nonces (sh_enqueue s f p) = sh_nonces s"
  "sh_identity (sh_enqueue s f p) = sh_identity s" "sh_pubkeys (sh_enqueue s f p) = sh_pubkeys s"
  "sh_app (sh_enqueue s f p) = sh_app s" "sh_link (sh_enqueue s f p) = sh_link s"
  by (simp_all add: sh_enqueue_def sh_link_def enqueue_def)

lemma rx_relay_fields [simp]:
  "sh_olsr (rx_relay env io f s) = sh_olsr s" "sh_board (rx_relay env io f s) = sh_board s"
  "sh_images (rx_relay env io f s) = sh_images s" "sh_nonces (rx_relay env io f s) = sh_nonces s"
  "sh_identity (rx_relay env io f s) = sh_identity s" "sh_pubkeys (rx_relay env io f s) = sh_pubkeys s"
  "sh_app (rx_relay env io f s) = sh_app s" "sh_link (rx_relay env io f s) = sh_link s"
  by (simp_all add: rx_relay_def Let_def split: option.splits)

lemma count_drop_fields [simp]:
  "sh_olsr (count_drop e s) = sh_olsr s" "sh_board (count_drop e s) = sh_board s"
  "sh_images (count_drop e s) = sh_images s" "sh_nonces (count_drop e s) = sh_nonces s"
  "sh_identity (count_drop e s) = sh_identity s" "sh_pubkeys (count_drop e s) = sh_pubkeys s"
  "sh_app (count_drop e s) = sh_app s" "sh_sched (count_drop e s) = sh_sched s"
  by (simp_all add: count_drop_def split: FrameError.splits)

section \<open>Frames that fail verification\<close>

definition rx_run ::
  "node_env \<Rightarrow> RxState \<Rightarrow> Shared \<Rightarrow> (step_io \<times> bytes \<times> RxMeta) list \<Rightarrow> RxState \<times> Shared \<times> task list" where
  "rx_run env rx s es =
     foldl (\<lambda>(rx, s, ts) (io, raw, meta).
              case rx_step env io raw meta rx s of (rx', s', ts') \<Rightarrow> (rx', s', ts @ ts'))
       (rx, s, []) es"

text \<open>Frames that no receiver with these keys accepts, whatever it has seen before.\<close>

definition unverifiable :: "node_env \<Rightarrow> PubkeyStore \<Rightarrow> bytes \<Rightarrow> u64 \<Rightarrow> bytes \<Rightarrow> bool" where
  "unverifiable env ks key now raw \<longleftrightarrow>
     (\<forall>nc. \<exists>e nc'. parse_and_verify_frame (env_crypto env) raw ks nc now key = (Inl e, nc'))"

lemma short_unverifiable: "length raw < MIN_FRAME_LEN \<Longrightarrow> unverifiable env ks key now raw"
  by (simp add: unverifiable_def parse_and_verify_frame_def)

text \<open>
  (C36) A jammer that floods the channel with frames that do not verify is invisible to the jam
  detection: however many arrive, the window, the alarm, the routes, the targets, the images,
  the log and the transmit queues stay as they are and no message is handed to a handler.
\<close>

theorem unverifiable_flood_invisible:
  assumes "\<forall>(io, raw, meta) \<in> set es.
             unverifiable env (sh_pubkeys s) (id_session_key (sh_identity s)) (io_now io) raw"
    and "rx_run env rx s es = (rx', s', ts)"
  shows "rx' = rx \<and> ts = [] \<and> sh_olsr s' = sh_olsr s \<and> sh_board s' = sh_board s
    \<and> sh_images s' = sh_images s \<and> sh_app s' = sh_app s \<and> sh_sched s' = sh_sched s"
proof -
  have "\<exists>s'. rx_run env rx s es = (rx, s', []) \<and> sh_olsr s' = sh_olsr s \<and> sh_board s' = sh_board s
      \<and> sh_images s' = sh_images s \<and> sh_app s' = sh_app s \<and> sh_sched s' = sh_sched s
      \<and> sh_pubkeys s' = sh_pubkeys s \<and> sh_identity s' = sh_identity s"
    using assms(1)
  proof (induction es rule: rev_induct)
    case Nil
    then show ?case by (simp add: rx_run_def)
  next
    case (snoc e es)
    obtain io raw meta where e: "e = (io, raw, meta)" by (cases e)
    from snoc obtain s1 where s1: "rx_run env rx s es = (rx, s1, [])" "sh_olsr s1 = sh_olsr s"
      "sh_board s1 = sh_board s" "sh_images s1 = sh_images s" "sh_app s1 = sh_app s"
      "sh_sched s1 = sh_sched s" "sh_pubkeys s1 = sh_pubkeys s" "sh_identity s1 = sh_identity s"
      by auto
    from snoc.prems e s1(7,8) obtain err nc where
      "parse_and_verify_frame (env_crypto env) raw (sh_pubkeys s1) (sh_nonces s1) (io_now io)
         (id_session_key (sh_identity s1)) = (Inl err, nc)"
      by (force simp: unverifiable_def)
    then have "rx_step env io raw meta rx s1 = (rx, count_drop err (s1\<lparr>sh_nonces := nc\<rparr>), [])"
      by (simp add: rx_step_def)
    then have "rx_run env rx s (es @ [e]) = (rx, count_drop err (s1\<lparr>sh_nonces := nc\<rparr>), [])"
      using s1(1) by (simp add: rx_run_def e)
    then show ?case using s1 by simp
  qed
  then show ?thesis using assms(2) by auto
qed

section \<open>The jam window\<close>

lemma evict_sorted:
  fixes es :: "(u64 \<times> Priority) list"
  assumes "sorted (map fst es)"
  shows "dropWhile (\<lambda>(ts, _). 500 < saturating_sub now ts) es =
         filter (\<lambda>(ts, _). unat now \<le> unat ts + 500) es"
  using assms
proof (induction es)
  case (Cons e es)
  obtain ts p where e: "e = (ts, p)" by fastforce
  have old: "500 < saturating_sub now ts \<longleftrightarrow> \<not> unat now \<le> unat ts + 500" for ts :: u64
    by (auto simp: word_less_nat_alt unat_saturating_sub)
  have "\<forall>(ts', _) \<in> set es. unat ts \<le> unat ts'"
    using Cons.prems e by (auto simp: word_le_nat_alt)
  then have "unat now \<le> unat ts + 500 \<Longrightarrow> filter (\<lambda>(ts, _). unat now \<le> unat ts + 500) es = es"
    by (auto intro!: filter_True)
  with Cons e show ?case by (simp add: old)
qed simp

definition jw_run :: "JamWindow \<Rightarrow> (u64 \<times> Priority) list \<Rightarrow> JamWindow" where
  "jw_run w fs = foldl (\<lambda>w (t, p). jw_record w p t) w fs"

text \<open>
  (C33) After any run of frames with non-decreasing times, the window holds exactly the frames of
  the last 500 ms, in order; the node counts as jammed exactly when more than 150 of them are
  bulk frames and none has the priority of HELLOs.
\<close>

theorem jam_window_exact:
  assumes "sorted (map fst (fs @ [(now, p)]))"
  shows "jw_entries (jw_run JamWindow_new (fs @ [(now, p)])) =
           filter (\<lambda>(t, _). unat now \<le> unat t + 500) (fs @ [(now, p)])
    \<and> (is_jammed (jw_run JamWindow_new (fs @ [(now, p)])) \<longleftrightarrow>
         150 < length (filter (\<lambda>(t, q). unat now \<le> unat t + 500 \<and> q = Bulk) (fs @ [(now, p)]))
         \<and> (\<forall>(t, q) \<in> set (fs @ [(now, p)]). unat now \<le> unat t + 500 \<longrightarrow> q \<noteq> High))"
proof -
  have run: "jw_entries (jw_run JamWindow_new (fs @ [(now, p)])) =
      filter (\<lambda>(t, _). unat now \<le> unat t + 500) (fs @ [(now, p)])" if "sorted (map fst (fs @ [(now, p)]))" for fs now p
    using that
  proof (induction fs arbitrary: now p rule: rev_induct)
    case Nil
    then show ?case
      using evict_sorted [of "[(now, p)]" now]
      by (simp add: jw_run_def jw_record_def evict_def JamWindow_new_def)
  next
    case (snoc f fs)
    obtain t q where f: "f = (t, q)" by fastforce
    have s: "sorted (map fst (fs @ [(t, q)]))" and le: "t \<le> now"
      using snoc.prems f by (auto simp: sorted_append)
    let ?w = "filter (\<lambda>(t', _). unat t \<le> unat t' + 500) (fs @ [(t, q)])"
    have "sorted (map fst (?w @ [(now, p)]))"
      using snoc.prems f sorted_filter [of fst "fs @ [(t, q)]" "\<lambda>(t', _). unat t \<le> unat t' + 500"]
      by (auto simp: sorted_append)
    from evict_sorted [OF this, of now] show ?case
      using snoc.IH [OF s] le
      by (auto simp: jw_run_def f jw_record_def evict_def word_le_nat_alt intro!: filter_cong)
  qed
  note eq = run [OF assms]
  have ne: "jw_entries (jw_run JamWindow_new (fs @ [(now, p)])) \<noteq> []" unfolding eq by simp
  show ?thesis
    unfolding is_jammed_def Let_def if_not_P [OF ne] unfolding eq
    by (auto simp: filter_empty_conv case_prod_unfold conj_commute)
qed

section \<open>Accepted frames\<close>

text \<open>The frame that a receiver of \<open>build_frame_inner\<close> parses, whatever the path it took.\<close>

definition parsed_built ::
  "node_env \<Rightarrow> step_io \<Rightarrow> nat \<Rightarrow> Shared \<Rightarrow> TacticalMessage \<Rightarrow> Priority \<Rightarrow> u8 \<Rightarrow> u8 \<Rightarrow> u8 \<Rightarrow> ParsedFrame" where
  "parsed_built env io k s msg prio dst last_hop hops =
     \<lparr>routed = frame_routed last_hop hops,
      auth = frame_auth (env_crypto env) (fst (io_frame io k)) (snd (io_frame io k)) msg prio dst (sh_identity s),
      plaintext = payload msg, pf_rssi_dbm = 0\<rparr>"

text \<open>
  Node \<open>b\<close> can take node \<open>a\<close>'s \<open>k\<close>-th frame: it knows \<open>a\<close>'s key, both have the session key, the
  clocks agree within 30 s and the nonce is new to \<open>b\<close>.
\<close>

definition can_receive :: "node_env \<Rightarrow> step_io \<Rightarrow> nat \<Rightarrow> Shared \<Rightarrow> u64 \<Rightarrow> Shared \<Rightarrow> bool" where
  "can_receive env io k a now b \<longleftrightarrow>
     crypto_ok (env_crypto env)
   \<and> registered (env_crypto env) (sh_pubkeys b) (sh_identity a)
   \<and> id_session_key (sh_identity a) = id_session_key (sh_identity b)
   \<and> length (snd (io_frame io k)) = 5
   \<and> unat now \<le> unat (fst (io_frame io k)) + 30000 \<and> unat (fst (io_frame io k)) \<le> unat now + 30000
   \<and> seen (sh_nonces b) (id_node (sh_identity a), fst (io_frame io k),
        snd (build_nonce (snd (io_frame io k)) (id_node (sh_identity a)) (fst (io_frame io k)))) = None"

lemma can_receive_parse:
  assumes "can_receive env io k a now b"
  obtains nc where "parse_and_verify_frame (env_crypto env)
      (build_frame_inner (env_crypto env) (fst (io_frame io k)) (snd (io_frame io k)) msg prio dst
         (sh_identity a) last_hop hops)
      (sh_pubkeys b) (sh_nonces b) now (id_session_key (sh_identity b))
      = (Inr (parsed_built env io k a msg prio dst last_hop hops), nc)"
proof -
  have "abs_diff now (fst (io_frame io k)) \<le> TIME_WINDOW_MS"
    using assms by (simp add: can_receive_def abs_diff_le_iff nonce_consts)
  then obtain nc where "check_and_insert (sh_nonces b) (id_node (sh_identity a)) (fst (io_frame io k))
      (snd (build_nonce (snd (io_frame io k)) (id_node (sh_identity a)) (fst (io_frame io k)))) now = (Inr (), nc)"
    using assms by (simp add: can_receive_def check_accept)
  then show thesis
    using parse_built [of "env_crypto env" "sh_pubkeys b" "sh_identity a" "snd (io_frame io k)" "sh_nonces b"
        "fst (io_frame io k)" now nc msg prio dst last_hop hops] assms that
    by (simp add: can_receive_def parsed_built_def)
qed

lemma frame_builders:
  "new_frame env io k s msg prio dst = build_frame_inner (env_crypto env) (fst (io_frame io k))
     (snd (io_frame io k)) msg prio dst (sh_identity s) (id_node (sh_identity s)) 0"
  "route_frame env io k s msg prio dst nh = build_frame_inner (env_crypto env) (fst (io_frame io k))
     (snd (io_frame io k)) msg prio dst (sh_identity s) nh 0"
  "relay_frame env io k s msg prio hops = build_frame_inner (env_crypto env) (fst (io_frame io k))
     (snd (io_frame io k)) msg prio BROADCAST (sh_identity s) (id_node (sh_identity s)) hops"
  by (simp_all add: new_frame_def route_frame_def relay_frame_def build_frame_def build_frame_for_route_def
      build_frame_for_rebroadcast_def)

lemma parsed_built_simps [simp]:
  "plaintext (parsed_built env io k s msg prio dst lh hops) = payload msg"
  "msg_kind (auth (parsed_built env io k s msg prio dst lh hops)) = kind msg"
  "dst_node (auth (parsed_built env io k s msg prio dst lh hops)) = dst"
  "src_node (auth (parsed_built env io k s msg prio dst lh hops)) = id_node (sh_identity s)"
  "priority (auth (parsed_built env io k s msg prio dst lh hops)) = prio"
  "hops_taken (routed (parsed_built env io k s msg prio dst lh hops)) = hops"
  "last_hop_id (routed (parsed_built env io k s msg prio dst lh hops)) = lh"
  by (simp_all add: parsed_built_def frame_routed_def)

text \<open>The transmit queue of one priority.\<close>

definition sh_lane :: "Shared \<Rightarrow> Priority \<Rightarrow> bytes list" where
  "sh_lane s p = queue_lane (queues (sh_sched s)) p"

lemma sh_lane_enqueue:
  "queues_ok (queues (sh_sched s)) \<Longrightarrow>
     sh_lane (sh_enqueue s f p) = (sh_lane s)(p := sh_lane s p @ [f])"
  using tx_queue.lane_enq by (auto simp: sh_lane_def sh_enqueue_def enqueue_def fun_eq_iff)

lemma queues_ok_enqueue [simp]:
  "queues_ok (queues (sh_sched (sh_enqueue s f p))) = queues_ok (queues (sh_sched s))"
  by (simp add: sh_enqueue_def enqueue_def queues_ok_def push_def Let_def)

section \<open>Delivery of messages\<close>

text \<open>
  (C18) A message that one node hands to its outbound queue, to everybody or to a node it has a
  route to, becomes one frame at the end of the queue of its priority; and when that frame
  reaches an addressed node, that node hands exactly this message, with the sender's identity,
  to its message handler.
\<close>

theorem outbound_message_delivered:
  assumes "codec_ok (ser_app env) (de_app env)" and "ser_app env (out_app_msg out) = Inr p"
    and "queues_ok (queues (sh_sched a))" and "can_receive env ioa 0 a (io_now iob) b"
    and "out_dst out = BROADCAST
         \<or> out_dst out = id_node (sh_identity b) \<and> route_to (sh_olsr a) (out_dst out) \<noteq> None"
  shows "\<exists>frame rx' b'.
     sh_lane (outbound_step env ioa out a) (out_prio out) = sh_lane a (out_prio out) @ [frame]
   \<and> rx_step env iob frame meta rx b =
       (rx', b', [Task_Tactical (out_app_msg out) (id_node (sh_identity a))])"
proof -
  let ?msg = "\<lparr>kind = Data, payload = p\<rparr>"
  obtain lh where out: "outbound_step env ioa out a = sh_enqueue a
      (build_frame_inner (env_crypto env) (fst (io_frame ioa 0)) (snd (io_frame ioa 0)) ?msg (out_prio out)
         (out_dst out) (sh_identity a) lh 0) (out_prio out)"
    using assms(2,5)
    by (cases "out_dst out = BROADCAST") (auto simp: outbound_step_def Let_def frame_builders)
  let ?frame = "build_frame_inner (env_crypto env) (fst (io_frame ioa 0)) (snd (io_frame ioa 0)) ?msg
      (out_prio out) (out_dst out) (sh_identity a) lh 0"
  obtain nc where nc: "parse_and_verify_frame (env_crypto env) ?frame (sh_pubkeys b) (sh_nonces b) (io_now iob)
      (id_session_key (sh_identity b)) = (Inr (parsed_built env ioa 0 a ?msg (out_prio out) (out_dst out) lh 0), nc)"
    using can_receive_parse [OF assms(4)] .
  let ?f = "parsed_built env ioa 0 a ?msg (out_prio out) (out_dst out) lh 0"
  have "deliver_local (id_node (sh_identity b)) ?f"
    using assms(5) by (auto simp: deliver_local_def)
  moreover have "rx_dispatch env iob r ?f s = (s, [Task_Tactical (out_app_msg out) (id_node (sh_identity a))])" for r s
    using codec_okD [OF assms(1,2)] by (simp add: rx_dispatch_def)
  ultimately have "\<exists>rx' b'. rx_step env iob ?frame meta rx b =
      (rx', b', [Task_Tactical (out_app_msg out) (id_node (sh_identity a))])"
    by (simp add: rx_step_def nc Let_def split: prod.splits)
  then show ?thesis
    using assms(3) by (auto simp: out sh_lane_enqueue)
qed

section \<open>The answer to a jammer\<close>



lemma jam_alert_frame:
  "sh_lane (handle_jam_alert io ja s) = sh_lane s" "sh_identity (handle_jam_alert io ja s) = sh_identity s"
  "queues (sh_sched (handle_jam_alert io ja s)) = queues (sh_sched s)"
  by (simp_all add: handle_jam_alert_def handle_channel_hop_def log_line_def sh_lane_def fun_eq_iff Let_def
      split: prod.splits)

lemma lane_log [simp]: "sh_lane (log_line s m) = sh_lane s"
  by (simp add: sh_lane_def fun_eq_iff)


section \<open>Relaying\<close>

lemma rx_relay_control:
  assumes "dst_node (auth f) = BROADCAST" and "msg_kind (auth f) \<noteq> Data" and "queues_ok (queues (sh_sched s))"
  shows "sh_lane (rx_relay env io f s) p = sh_lane s p @
    (if p = priority (auth f) \<and> hops_taken (routed f) < 2
     then [relay_frame env io 0 s \<lparr>kind = msg_kind (auth f), payload = plaintext f\<rparr> (priority (auth f))
             (hops_taken (routed f) + 1)] else [])"
    and "queues_ok (queues (sh_sched (rx_relay env io f s)))"
proof -
  have "saturating_add (hops_taken (routed f)) 1 = hops_taken (routed f) + 1" if "hops_taken (routed f) < 2"
    using that by (simp add: word_unat_eq_iff unat_saturating_add word_less_nat_alt unat_word_ariths)
  then show "sh_lane (rx_relay env io f s) p = sh_lane s p @
    (if p = priority (auth f) \<and> hops_taken (routed f) < 2
     then [relay_frame env io 0 s \<lparr>kind = msg_kind (auth f), payload = plaintext f\<rparr> (priority (auth f))
             (hops_taken (routed f) + 1)] else [])"
    and "queues_ok (queues (sh_sched (rx_relay env io f s)))"
    using assms by (auto simp: rx_relay_def Let_def rebroadcast_def WIRE_MAX_HOPS_def forward_unicast_def sh_lane_enqueue)
qed

text \<open>A TC that the router takes for new is sent on by the dispatch, as a frame of the node's own.\<close>

definition new_tc :: "node_env \<Rightarrow> Shared \<Rightarrow> ParsedFrame \<Rightarrow> bool" where
  "new_tc env s f \<longleftrightarrow> msg_kind (auth f) = OlsrTc
     \<and> (case de_olsr env (plaintext f) of
          Inr (OlsrMessage_Tc tc) \<Rightarrow> should_forward_tc (sh_olsr s) tc
        | _ \<Rightarrow> False)"

lemma new_tc_cong: "sh_olsr s = sh_olsr t \<Longrightarrow> new_tc env s f = new_tc env t f"
  by (simp add: new_tc_def split: sum.splits OlsrMessage.splits)

lemma process_tc_forwards: "fst (process_tc ord tc from_link s) \<longleftrightarrow> should_forward_tc s tc"
  by (simp add: process_tc_def should_forward_tc_def Let_def)

lemma lane_olsr: "sh_lane (s\<lparr>sh_olsr := x\<rparr>) = sh_lane s" "sh_lane (s\<lparr>sh_stream_rots := c\<rparr>) = sh_lane s"
  "sh_lane (s\<lparr>sh_nonces := nc\<rparr>) = sh_lane s"
  by (simp_all add: sh_lane_def fun_eq_iff)

lemma rx_dispatch_control:
  assumes "msg_kind (auth f) \<noteq> Data" and "queues_ok (queues (sh_sched s))"
  shows "sh_lane (fst (rx_dispatch env io r f s)) p = sh_lane s p @
    (if p = High \<and> new_tc env s f
     then [new_frame env io 2 s \<lparr>kind = OlsrTc, payload = plaintext f\<rparr> High BROADCAST] else [])"
    and "queues_ok (queues (sh_sched (fst (rx_dispatch env io r f s))))"
proof -
  have step: "sh_lane (fst (rx_dispatch env io r f s)) p = sh_lane s p @
      (if p = High \<and> new_tc env s f
       then [new_frame env io 2 s \<lparr>kind = OlsrTc, payload = plaintext f\<rparr> High BROADCAST] else [])
    \<and> queues_ok (queues (sh_sched (fst (rx_dispatch env io r f s))))"
  proof (cases "\<exists>tc. msg_kind (auth f) = OlsrTc \<and> de_olsr env (plaintext f) = Inr (OlsrMessage_Tc tc)")
    case True
    then obtain tc where tc: "msg_kind (auth f) = OlsrTc" "de_olsr env (plaintext f) = Inr (OlsrMessage_Tc tc)"
      by blast
    obtain fw os where os: "process_tc (io_ord io) tc (src_node (auth f)) (sh_olsr s) = (fw, os)" by fastforce
    then have fw: "fw \<longleftrightarrow> should_forward_tc (sh_olsr s) tc" using process_tc_forwards by (metis fst_conv)
    have "new_frame env io 2 (s\<lparr>sh_olsr := os\<rparr>) m pr d = new_frame env io 2 s m pr d" for m pr d
      by (simp add: new_frame_def)
    then show ?thesis
      using assms(2) tc os fw by (simp add: rx_dispatch_def new_tc_def Let_def sh_lane_enqueue lane_olsr)
  next
    case False
    then have "\<not> new_tc env s f"
      by (auto simp: new_tc_def split: sum.splits OlsrMessage.splits)
    with False show ?thesis
      using assms by (auto simp: rx_dispatch_def lane_olsr Let_def split: MsgKind.splits sum.splits OlsrMessage.splits)
  qed
  then show "sh_lane (fst (rx_dispatch env io r f s)) p = sh_lane s p @
      (if p = High \<and> new_tc env s f
       then [new_frame env io 2 s \<lparr>kind = OlsrTc, payload = plaintext f\<rparr> High BROADCAST] else [])"
    and "queues_ok (queues (sh_sched (fst (rx_dispatch env io r f s))))" by simp_all
qed

lemma rx_jam_check_lanes:
  assumes "queues_ok (queues (sh_sched s))"
  obtains alerts where "\<And>p. sh_lane (snd (rx_jam_check env io rx s)) p = sh_lane s p @ (if p = Emergency then alerts else [])"
    and "alerts = [] \<or> (\<exists>b. alerts = [new_frame env io 3 s \<lparr>kind = Data, payload = b\<rparr> Emergency BROADCAST])"
proof (cases "\<not> jam_detected rx \<and> is_jammed (jam_window rx)")
  case False
  then have "snd (rx_jam_check env io rx s) = s" by (auto simp: rx_jam_check_def Let_def split: if_splits)
  with that [of "[]"] show thesis by simp
next
  case True
  let ?ja = "\<lparr>ja_detected_by = id_node (sh_identity s), ja_channel = app_channel (sh_app s), ja_at_ms = io_now io\<rparr>"
  have frame: "new_frame env io 3 (handle_jam_alert io ja s) m pr d = new_frame env io 3 s m pr d" for ja m pr d
    by (simp add: new_frame_def jam_alert_frame)
  have snd: "snd (rx_jam_check env io rx s) = last (jam_respond env io s)"
    using True by (simp add: rx_jam_check_def Let_def)
  show thesis
  proof (cases "ser_app env (Msg_JamAlert ?ja)")
    case (Inl e)
    then show thesis
      using that [of "[]"] by (simp add: snd jam_respond_def Let_def jam_alert_frame)
  next
    case (Inr b)
    then show thesis
      using assms
      by (intro that [of "[new_frame env io 3 s \<lparr>kind = Data, payload = b\<rparr> Emergency BROADCAST]"])
        (auto simp: snd jam_respond_def Let_def jam_alert_frame frame sh_lane_enqueue)
  qed
qed

text \<open>Everything that a round queues for an accepted control broadcast.\<close>

lemma control_queued:
  assumes "parse_and_verify_frame (env_crypto env) raw (sh_pubkeys s) (sh_nonces s) (io_now io)
        (id_session_key (sh_identity s)) = (Inr f, nc)"
    and "dst_node (auth f) = BROADCAST" and "msg_kind (auth f) \<noteq> Data" and "queues_ok (queues (sh_sched s))"
    and "rx_step env io raw meta rx s = (rx', s', tasks)"
  shows "\<exists>alerts. (alerts = [] \<or> (\<exists>b. alerts = [new_frame env io 3 s \<lparr>kind = Data, payload = b\<rparr> Emergency BROADCAST]))
    \<and> (\<forall>p. sh_lane s' p = sh_lane s p
      @ (if p = priority (auth f) \<and> hops_taken (routed f) < 2
         then [relay_frame env io 0 s \<lparr>kind = msg_kind (auth f), payload = plaintext f\<rparr> (priority (auth f))
                 (hops_taken (routed f) + 1)] else [])
      @ (if p = High \<and> new_tc env s f
         then [new_frame env io 2 s \<lparr>kind = OlsrTc, payload = plaintext f\<rparr> High BROADCAST] else [])
      @ (if p = Emergency then alerts else []))"
proof -
  let ?s0 = "s\<lparr>sh_nonces := nc\<rparr>"
  let ?rx = "rx\<lparr>jam_window := jw_record (jam_window rx) (priority (auth f)) (io_now io)\<rparr>"
  let ?s1 = "rx_relay env io f ?s0"
  let ?s2 = "fst (rx_dispatch env io (rssi_dbm meta) f ?s1)"
  have q: "queues_ok (queues (sh_sched ?s0))" using assms(4) by simp
  note relay = rx_relay_control [OF assms(2,3) q, of env io]
  note disp = rx_dispatch_control [OF assms(3) relay(2), of env io "rssi_dbm meta"]
  have deliver: "deliver_local n f" for n using assms(2) by (simp add: deliver_local_def)
  have ident: "sh_identity ?s2 = sh_identity s"
    by (auto simp: rx_dispatch_def Let_def split: MsgKind.splits sum.splits OlsrMessage.splits prod.splits)
  have s': "s' = snd (rx_jam_check env io ?rx ?s2)"
    using assms(1,5) deliver by (auto simp: rx_step_def Let_def split: prod.splits)
  obtain alerts where a: "\<And>p. sh_lane s' p = sh_lane ?s2 p @ (if p = Emergency then alerts else [])"
    "alerts = [] \<or> (\<exists>b. alerts = [new_frame env io 3 ?s2 \<lparr>kind = Data, payload = b\<rparr> Emergency BROADCAST])"
    using rx_jam_check_lanes [OF disp(2), of env io ?rx] unfolding s' by blast
  have same: "relay_frame env io 0 ?s0 m pr h = relay_frame env io 0 s m pr h"
    "new_frame env io 2 ?s1 m pr d = new_frame env io 2 s m pr d"
    "new_frame env io 3 ?s2 m pr d = new_frame env io 3 s m pr d" for m pr h d
    by (simp_all add: relay_frame_def new_frame_def ident)
  have tc: "new_tc env ?s1 f = new_tc env s f" by (rule new_tc_cong) simp
  show ?thesis
    using a relay(1) disp(1) by (intro exI [of _ alerts]) (simp_all add: same tc lane_olsr)
qed

text \<open>
  The copies that descend from a frame: what any node queues when it has accepted a control frame
  among them, in any state and at any time.
\<close>

inductive passed_on :: "node_env \<Rightarrow> bytes \<Rightarrow> nat \<Rightarrow> bytes \<Rightarrow> bool" for env and origin where
  passed_origin: "passed_on env origin 0 origin"
| passed_hop:
    "passed_on env origin n raw
     \<Longrightarrow> parse_and_verify_frame (env_crypto env) raw (sh_pubkeys s) (sh_nonces s) (io_now io)
           (id_session_key (sh_identity s)) = (Inr f, nc)
     \<Longrightarrow> msg_kind (auth f) \<noteq> Data \<Longrightarrow> queues_ok (queues (sh_sched s))
     \<Longrightarrow> rx_step env io raw meta rx s = (rx', s', tasks)
     \<Longrightarrow> sh_lane s' p = sh_lane s p @ new \<Longrightarrow> copy \<in> set new
     \<Longrightarrow> passed_on env origin (Suc n) copy"

lemma passed_on_hops:
  assumes "passed_on env origin n raw"
    and "hash_len_ok (env_crypto env)"
    and "parse_and_verify_frame (env_crypto env) origin ks0 cache0 now0 key0 = (Inr f0, nc0)"
    and "dst_node (auth f0) = BROADCAST" and "msg_kind (auth f0) \<notin> {Data, OlsrTc}"
    and "parse_and_verify_frame (env_crypto env) raw ks cache now key = (Inr f, nc)" and "msg_kind (auth f) \<noteq> Data"
  shows "msg_kind (auth f) = msg_kind (auth f0) \<and> dst_node (auth f) = BROADCAST
    \<and> payload_hash (auth f) = payload_hash (auth f0)
    \<and> unat (hops_taken (routed f)) = unat (hops_taken (routed f0)) + n
    \<and> (0 < n \<longrightarrow> unat (hops_taken (routed f0)) + n \<le> 2)"
  using assms(1,6,7)
proof (induction arbitrary: f ks cache now key nc)
  case passed_origin
  then show ?case using accepted_headers [OF assms(3) passed_origin(1)] assms(4) by simp
next
  case (passed_hop n raw s io g nc' meta rx rx' s' tasks p new copy)
  let ?C = "env_crypto env"
  have g: "msg_kind (auth g) = msg_kind (auth f0)" "dst_node (auth g) = BROADCAST"
    "payload_hash (auth g) = payload_hash (auth f0)"
    "unat (hops_taken (routed g)) = unat (hops_taken (routed f0)) + n"
    using passed_hop.IH [OF passed_hop.hyps(2,3)] by simp_all
  obtain alerts where q: "\<forall>p. sh_lane s' p = sh_lane s p
      @ (if p = priority (auth g) \<and> hops_taken (routed g) < 2
         then [relay_frame env io 0 s \<lparr>kind = msg_kind (auth g), payload = plaintext g\<rparr> (priority (auth g))
                 (hops_taken (routed g) + 1)] else [])
      @ (if p = High \<and> new_tc env s g
         then [new_frame env io 2 s \<lparr>kind = OlsrTc, payload = plaintext g\<rparr> High BROADCAST] else [])
      @ (if p = Emergency then alerts else [])"
    and alerts: "alerts = [] \<or> (\<exists>b. alerts = [new_frame env io 3 s \<lparr>kind = Data, payload = b\<rparr> Emergency BROADCAST])"
    using control_queued [OF passed_hop.hyps(2) g(2) passed_hop.hyps(3,4,5)] by (elim exE conjE) (rule that)
  have "\<not> new_tc env s g" using g(1) assms(5) by (simp add: new_tc_def)
  then have lanes: "set new \<subseteq> set (if p = priority (auth g) \<and> hops_taken (routed g) < 2
         then [relay_frame env io 0 s \<lparr>kind = msg_kind (auth g), payload = plaintext g\<rparr> (priority (auth g))
                 (hops_taken (routed g) + 1)] else []) \<union> set alerts"
    using q [THEN spec, of p] passed_hop.hyps(6) by (simp split: if_splits)
  have "copy \<notin> set alerts"
    using alerts passed_hop.prems accepted_built(1) [OF assms(2)] unfolding frame_builders by fastforce
  then have copy: "copy = relay_frame env io 0 s \<lparr>kind = msg_kind (auth g), payload = plaintext g\<rparr> (priority (auth g))
      (hops_taken (routed g) + 1)" and hops: "hops_taken (routed g) < 2"
    using lanes passed_hop.hyps(6,7) by (auto split: if_splits)
  note built = accepted_built [OF assms(2) passed_hop.prems(1) [unfolded copy frame_builders]]
  have "unat (hops_taken (routed g) + 1) = unat (hops_taken (routed g)) + 1"
    using hops by (simp add: word_less_nat_alt unat_word_ariths)
  then show ?case
    using g hops built parse_accept(4) [OF passed_hop.hyps(2)]
    by (simp add: frame_routed_def word_less_nat_alt frame_auth_def)
qed

text \<open>
  (C30) Bounded flooding of control messages. When a node accepts a control broadcast, its round
  queues exactly this, each at the end of its queue: if the frame has made fewer than two hops, a
  copy with one more hop; if it is a TC that the router takes for new, the TC once more, as a fresh
  frame of the node's own with no hops; and at most one data frame, the alert when the round detects a jam. A node that can
  receive the copy accepts it with the same payload, one hop more. Along any path of any nodes, a
  broadcast that is neither data nor a TC is therefore passed on at most twice: whatever is accepted
  after \<open>n\<close> rounds, and is not an alert, is the same message and has made \<open>n\<close> hops more than the
  original, and these are two at most. For a TC there is no such bound: every node that has not seen
  it sends it on with the hops counted from zero.
\<close>

theorem control_relay_limited:
  assumes "parse_and_verify_frame (env_crypto env) raw (sh_pubkeys a) (sh_nonces a) (io_now io)
        (id_session_key (sh_identity a)) = (Inr f, nc)"
    and "dst_node (auth f) = BROADCAST" and "msg_kind (auth f) \<noteq> Data" and "queues_ok (queues (sh_sched a))"
    and "rx_step env io raw meta rx a = (rx', a', tasks)"
  defines "copy \<equiv> relay_frame env io 0 a \<lparr>kind = msg_kind (auth f), payload = plaintext f\<rparr> (priority (auth f))
        (hops_taken (routed f) + 1)"
  shows "(\<exists>alerts. (alerts = [] \<or> (\<exists>b. alerts = [new_frame env io 3 a \<lparr>kind = Data, payload = b\<rparr> Emergency BROADCAST]))
       \<and> (\<forall>p. sh_lane a' p = sh_lane a p
            @ (if p = priority (auth f) \<and> hops_taken (routed f) < 2 then [copy] else [])
            @ (if p = High \<and> new_tc env a f
               then [new_frame env io 2 a \<lparr>kind = OlsrTc, payload = plaintext f\<rparr> High BROADCAST] else [])
            @ (if p = Emergency then alerts else [])))
     \<and> (\<forall>now b. can_receive env io 0 a now b \<longrightarrow>
          (\<exists>f' nc'. parse_and_verify_frame (env_crypto env) copy (sh_pubkeys b) (sh_nonces b) now
              (id_session_key (sh_identity b)) = (Inr f', nc')
           \<and> plaintext f' = plaintext f \<and> msg_kind (auth f') = msg_kind (auth f)
           \<and> hops_taken (routed f') = hops_taken (routed f) + 1))
     \<and> (msg_kind (auth f) \<noteq> OlsrTc \<longrightarrow> hash_len_ok (env_crypto env) \<longrightarrow>
          (\<forall>n later ks cache now key g nc'. passed_on env raw n later
             \<longrightarrow> parse_and_verify_frame (env_crypto env) later ks cache now key = (Inr g, nc') \<longrightarrow> msg_kind (auth g) \<noteq> Data
             \<longrightarrow> msg_kind (auth g) = msg_kind (auth f) \<and> payload_hash (auth g) = payload_hash (auth f)
                \<and> unat (hops_taken (routed g)) = unat (hops_taken (routed f)) + n
                \<and> (0 < n \<longrightarrow> unat (hops_taken (routed f)) + n \<le> 2)))"
proof (intro conjI allI impI)
  show "\<exists>alerts. (alerts = [] \<or> (\<exists>b. alerts = [new_frame env io 3 a \<lparr>kind = Data, payload = b\<rparr> Emergency BROADCAST]))
       \<and> (\<forall>p. sh_lane a' p = sh_lane a p
            @ (if p = priority (auth f) \<and> hops_taken (routed f) < 2 then [copy] else [])
            @ (if p = High \<and> new_tc env a f
               then [new_frame env io 2 a \<lparr>kind = OlsrTc, payload = plaintext f\<rparr> High BROADCAST] else [])
            @ (if p = Emergency then alerts else []))"
    unfolding copy_def by (rule control_queued [OF assms(1-5)])
next
  fix now b
  assume "can_receive env io 0 a now b"
  from can_receive_parse [OF this] obtain nc' where
    "parse_and_verify_frame (env_crypto env) copy (sh_pubkeys b) (sh_nonces b) now (id_session_key (sh_identity b))
     = (Inr (parsed_built env io 0 a \<lparr>kind = msg_kind (auth f), payload = plaintext f\<rparr> (priority (auth f)) BROADCAST
              (id_node (sh_identity a)) (hops_taken (routed f) + 1)), nc')"
    unfolding copy_def frame_builders by blast
  then show "\<exists>f' nc'. parse_and_verify_frame (env_crypto env) copy (sh_pubkeys b) (sh_nonces b) now
              (id_session_key (sh_identity b)) = (Inr f', nc')
           \<and> plaintext f' = plaintext f \<and> msg_kind (auth f') = msg_kind (auth f)
           \<and> hops_taken (routed f') = hops_taken (routed f) + 1"
    by fastforce
next
  fix n later ks cache now key g nc'
  assume "msg_kind (auth f) \<noteq> OlsrTc" and hash: "hash_len_ok (env_crypto env)" and passed: "passed_on env raw n later"
    and acc: "parse_and_verify_frame (env_crypto env) later ks cache now key = (Inr g, nc')" "msg_kind (auth g) \<noteq> Data"
  then have "msg_kind (auth f) \<notin> {Data, OlsrTc}" using assms(3) by simp
  note hops = passed_on_hops [OF passed hash assms(1,2) this acc]
  from hops show "msg_kind (auth g) = msg_kind (auth f)" "payload_hash (auth g) = payload_hash (auth f)"
    "unat (hops_taken (routed g)) = unat (hops_taken (routed f)) + n" by simp_all
  show "unat (hops_taken (routed f)) + n \<le> 2" if "0 < n" using hops that by simp
qed

text \<open>
  Unicast forwarding looks neither at who was named as the next hop nor at the hop count: a
  node that overhears a frame for another node it has a route to queues a copy, whatever the
  routed header says, and the copy starts again with zero hops.
\<close>

theorem unicast_forward_unlimited:
  assumes "forward_unicast (id_node (sh_identity a)) f" and "route_to (sh_olsr a) (dst_node (auth f)) = Some r"
    and "queues_ok (queues (sh_sched a))" and "can_receive env io 1 a now b"
  shows "\<exists>frame nc f'. (\<forall>hdr. sh_lane (rx_relay env io (f\<lparr>routed := hdr\<rparr>) a) (priority (auth f))
                            = sh_lane a (priority (auth f)) @ [frame])
     \<and> parse_and_verify_frame (env_crypto env) frame (sh_pubkeys b) (sh_nonces b) now
         (id_session_key (sh_identity b)) = (Inr f', nc)
     \<and> plaintext f' = plaintext f \<and> dst_node (auth f') = dst_node (auth f)
     \<and> hops_taken (routed f') = 0 \<and> last_hop_id (routed f') = next_hop r"
proof -
  let ?msg = "\<lparr>kind = msg_kind (auth f), payload = plaintext f\<rparr>"
  let ?frame = "route_frame env io 1 a ?msg (priority (auth f)) (dst_node (auth f)) (next_hop r)"
  have "\<not> rebroadcast (f\<lparr>routed := hdr\<rparr>)" for hdr
    using assms(1) by (simp add: rebroadcast_def forward_unicast_def)
  moreover have "forward_unicast (id_node (sh_identity a)) (f\<lparr>routed := hdr\<rparr>)" for hdr
    using assms(1) by (simp add: forward_unicast_def)
  ultimately have "rx_relay env io (f\<lparr>routed := hdr\<rparr>) a = sh_enqueue a ?frame (priority (auth f))" for hdr
    using assms(2) by (simp add: rx_relay_def Let_def)
  then have "sh_lane (rx_relay env io (f\<lparr>routed := hdr\<rparr>) a) (priority (auth f)) =
      sh_lane a (priority (auth f)) @ [?frame]" for hdr
    using assms(3) by (simp add: sh_lane_enqueue)
  moreover obtain nc where "parse_and_verify_frame (env_crypto env) ?frame (sh_pubkeys b) (sh_nonces b) now
      (id_session_key (sh_identity b)) =
      (Inr (parsed_built env io 1 a ?msg (priority (auth f)) (dst_node (auth f)) (next_hop r) 0), nc)"
    using can_receive_parse [OF assms(4)] unfolding frame_builders by blast
  ultimately show ?thesis by fastforce
qed

end
