(* ===== verification/OlsrRouting.thy ===== *)
theory OlsrRouting
  imports Olsr
begin

text \<open>
  What the router guarantees: the invariant of its tables over every sequence of HELLO, TC and
  ageing events, that the route table always holds the least-cost routes of the current tables,
  duplicate suppression of TC messages, and the ageing of neighbours.
\<close>

section \<open>The route table as a function of the other tables\<close>

definition table_routes :: "iter_order \<Rightarrow> OlsrState \<Rightarrow> u8 \<rightharpoonup> RouteEntry" where
  "table_routes ord s = routes (recompute_routes ord s)"

lemma recompute_simps [simp]:
  "local_id (recompute_routes ord s) = local_id s"
  "neighbors (recompute_routes ord s) = neighbors s"
  "two_hop (recompute_routes ord s) = two_hop s"
  "topology (recompute_routes ord s) = topology s"
  "last_tc_seq (recompute_routes ord s) = last_tc_seq s"
  by (simp_all add: recompute_routes_def Let_def)

lemma edges_cong:
  "local_id s' = local_id s \<Longrightarrow> neighbors s' = neighbors s \<Longrightarrow> topology s' = topology s \<Longrightarrow>
     edges ord s' = edges ord s"
  by (rule ext) (simp add: edges_def)

lemma table_routes_cong:
  "local_id s' = local_id s \<Longrightarrow> neighbors s' = neighbors s \<Longrightarrow> topology s' = topology s \<Longrightarrow>
     table_routes ord s' = table_routes ord s"
  using edges_cong [of s' s ord] by (simp add: table_routes_def recompute_routes_def Let_def cong: if_cong)

lemma table_routes_Some:
  "table_routes ord s v = Some r \<longleftrightarrow> v \<noteq> local_id s \<and>
     (\<exists>d. sr_dist (shortest (edges ord s) (local_id s)) v = Some d
        \<and> r = route_entry (local_id s) (shortest (edges ord s) (local_id s)) v d)"
  by (auto simp: table_routes_def recompute_routes_def Let_def shortest_def)

lemma route_entry_simps [simp]:
  "destination (route_entry src r v d) = v" "route_cost (route_entry src r v d) = d"
  "next_hop (route_entry src r v d) = fst (walk_back (sr_prev r) src v 0)"
  "hop_count (route_entry src r v d) = snd (walk_back (sr_prev r) src v 0)"
  by (simp_all add: route_entry_def split: prod.splits)

lemma table_route_least:
  assumes "table_routes ord s v = Some r"
  shows "destination r = v" and "\<exists>n. walk (edges ord s) (local_id s) v (unat (route_cost r)) n"
    and "walk (edges ord s) (local_id s) v c m \<Longrightarrow> unat (route_cost r) \<le> c"
proof -
  from assms obtain d where d: "sr_dist (shortest (edges ord s) (local_id s)) v = Some d"
    and r: "r = route_entry (local_id s) (shortest (edges ord s) (local_id s)) v d"
    by (auto simp: table_routes_Some)
  show "destination r = v" by (simp add: r)
  show "\<exists>n. walk (edges ord s) (local_id s) v (unat (route_cost r)) n"
    using search_invD(2) [OF shortest_inv d] by (simp add: r)
  show "unat (route_cost r) \<le> c" if "walk (edges ord s) (local_id s) v c m"
    using olsr_graph.label_le_walk [OF that] d by (simp add: r)
qed

lemma table_route_None:
  "table_routes ord s v = None \<longleftrightarrow> v = local_id s \<or> \<not> (\<exists>c n. walk (edges ord s) (local_id s) v c n)"
proof -
  have "sr_dist (shortest (edges ord s) (local_id s)) v = None
      \<longleftrightarrow> \<not> (\<exists>c n. walk (edges ord s) (local_id s) v c n)"
    using olsr_graph.label_le_walk search_invD(2) [OF shortest_inv]
    by (metis not_Some_eq)
  then show ?thesis
    by (auto simp: table_routes_def recompute_routes_def Let_def shortest_def)
qed

lemma table_route_next_hop:
  assumes "table_routes ord s v = Some r"
  obtains n where "walk (edges ord s) (local_id s) v (unat (route_cost r)) (Suc n)"
    and "unat (hop_count r) = min 8 (Suc n)"
    and "Suc n \<le> 9 \<longrightarrow> (\<exists>w. (next_hop r, w) \<in> set (edges ord s (local_id s)) \<and> unat w \<le> unat (route_cost r)
           \<and> walk (edges ord s) (next_hop r) v (unat (route_cost r) - unat w) n)"
proof -
  from assms obtain d where d: "sr_dist (shortest (edges ord s) (local_id s)) v = Some d"
      "v \<noteq> local_id s"
    and r: "r = route_entry (local_id s) (shortest (edges ord s) (local_id s)) v d"
    by (auto simp: table_routes_Some)
  from olsr_graph.first_hop [OF d prod.collapse [symmetric]] show thesis
    using that by (auto simp: r)
qed

lemma set_edges_local:
  "order_ok ord \<Longrightarrow> (v, w) \<in> set (edges ord s (local_id s)) \<longleftrightarrow>
     (\<exists>e. neighbors s v = Some e \<and> w = link_cost (link_quality e))"
  by (auto simp: edges_def set_entries order_ok_def image_iff)

lemma set_edges:
  "order_ok ord \<Longrightarrow> set (edges ord s u) =
     (if u = local_id s then {(v, link_cost (link_quality e)) | v e. neighbors s v = Some e}
      else {(v, link_cost q) | v q. \<exists>m. topology s u = Some m \<and> m v = Some q})"
  by (cases "topology s u") (auto simp: edges_def set_entries order_ok_def image_iff)

lemma walk_cong:
  assumes "walk E a v c n" and "\<And>u. set (E u) = set (E' u)"
  shows "walk E' a v c n"
  using assms(1) by induction (auto intro: walk_refl walk_snoc simp: assms(2))

lemma walk_order:
  assumes "order_ok ord" and "order_ok ord'" and "walk (edges ord s) a v c n"
  shows "walk (edges ord' s) a v c n"
  using assms(3) by (rule walk_cong) (simp add: set_edges assms(1,2))

section \<open>The invariant\<close>

definition olsr_inv :: "OlsrState \<Rightarrow> bool" where
  "olsr_inv s \<longleftrightarrow>
     (\<forall>n e. neighbors s n = Some e \<longrightarrow> n \<noteq> local_id s \<and> nb_node_id e = n)
   \<and> (\<forall>n g. two_hop s n = Some g \<longrightarrow> n \<noteq> local_id s \<and> g \<noteq> {} \<and> g \<subseteq> dom (neighbors s))
   \<and> (\<forall>u m. topology s u = Some m \<longrightarrow> u \<noteq> local_id s \<and> local_id s \<notin> dom m \<and> last_tc_seq s u \<noteq> None)
   \<and> (\<exists>ord. order_ok ord \<and> routes s = table_routes ord s)"

lemma olsr_invD:
  assumes "olsr_inv s"
  shows "\<And>n e. neighbors s n = Some e \<Longrightarrow> n \<noteq> local_id s \<and> nb_node_id e = n"
    and "\<And>n g. two_hop s n = Some g \<Longrightarrow> n \<noteq> local_id s \<and> g \<noteq> {} \<and> g \<subseteq> dom (neighbors s)"
    and "\<And>u m. topology s u = Some m \<Longrightarrow> u \<noteq> local_id s \<and> local_id s \<notin> dom m \<and> last_tc_seq s u \<noteq> None"
    and "\<exists>ord. order_ok ord \<and> routes s = table_routes ord s"
  using assms unfolding olsr_inv_def by blast+

lemma routes_recompute: "routes (recompute_routes ord s) = table_routes ord (recompute_routes ord s)"
  using table_routes_cong [of "recompute_routes ord s" s ord] by (simp add: table_routes_def)

lemma olsr_inv_recompute:
  assumes "order_ok ord"
    and "\<And>n e. neighbors s n = Some e \<Longrightarrow> n \<noteq> local_id s \<and> nb_node_id e = n"
    and "\<And>n g. two_hop s n = Some g \<Longrightarrow> n \<noteq> local_id s \<and> g \<noteq> {} \<and> g \<subseteq> dom (neighbors s)"
    and "\<And>u m. topology s u = Some m \<Longrightarrow> u \<noteq> local_id s \<and> local_id s \<notin> dom m \<and> last_tc_seq s u \<noteq> None"
  shows "olsr_inv (recompute_routes ord s)"
  using assms routes_recompute unfolding olsr_inv_def by auto

lemma walk_no_edges: "walk E a v c n \<Longrightarrow> E a = [] \<Longrightarrow> v = a"
  by (induction rule: walk.induct) auto

lemma table_routes_isolated: "neighbors s = Map.empty \<Longrightarrow> table_routes ord s = Map.empty"
proof
  fix v
  assume "neighbors s = Map.empty"
  then have "edges ord s (local_id s) = []"
    by (simp add: edges_def entries_def map_filter_def)
  then show "table_routes ord s v = None"
    unfolding table_route_None using walk_no_edges by blast
qed

lemma gateways_without_Some:
  "gateways_without i m n = Some g \<longleftrightarrow> (\<exists>g'. m n = Some g' \<and> g = g' - {i} \<and> g \<noteq> {})"
  by (auto simp: gateways_without_def)

lemma add_gateways:
  assumes "foldl (add_gateway s gw) m ns n = Some g"
  shows "m n = Some g \<or> n \<noteq> local_id s \<and> gw \<in> g \<and> g \<subseteq> insert gw (unwrap_or (m n) {})"
  using assms
proof (induction ns arbitrary: m)
  case (Cons x ns)
  let ?m = "add_gateway s gw m x"
  have "?m n = m n \<or> n \<noteq> local_id s \<and> ?m n = Some (insert gw (unwrap_or (m n) {}))"
    by (cases x) (auto simp: add_gateway_def)
  then show ?case
    using Cons.IH [of ?m] Cons.prems by auto
qed simp

lemma process_hello_inv:
  assumes inv: "olsr_inv s" and ord: "order_ok ord"
  shows "olsr_inv (process_hello ord now hello from_link rssi s)"
proof (cases "hello_sender hello = local_id s")
  case False
  note I = olsr_invD [OF inv]
  show ?thesis
    unfolding process_hello_def Let_def if_not_P [OF False]
  proof (rule olsr_inv_recompute [OF ord], goal_cases)
    case (1 n e)
    then show ?case using I(1) False by (auto split: if_splits)
  next
    case (2 n g)
    then have *: "foldl (add_gateway (s\<lparr>neighbors := (neighbors s)(hello_sender hello \<mapsto> x)\<rparr>) (hello_sender hello))
        (gateways_without (hello_sender hello) (two_hop s)) (hello_neighbors hello) n = Some g
        \<Longrightarrow> n \<noteq> local_id s \<and> g \<noteq> {} \<and> g \<subseteq> insert (hello_sender hello) (dom (neighbors s))" for x
      using I(2)
      by (auto dest!: add_gateways simp: gateways_without_Some unwrap_or_def split: option.splits) blast+
    from 2 show ?case by (auto dest!: *)
  next
    case (3 u m)
    then show ?case using I(3) by auto
  qed
qed (use inv in \<open>simp add: process_hello_def\<close>)

lemma tc_row_self: "tc_row self adv self = None"
proof -
  have "m self = None \<Longrightarrow> foldl (\<lambda>m (n, q). if n \<noteq> self then m(n \<mapsto> q) else m) m adv self = None" for m
    by (induction adv arbitrary: m) auto
  then show ?thesis by (simp add: tc_row_def)
qed

lemma process_tc_inv:
  assumes inv: "olsr_inv s" and ord: "order_ok ord"
  shows "olsr_inv (snd (process_tc ord tc from_link s))"
proof -
  note I = olsr_invD [OF inv]
  have "olsr_inv (recompute_routes ord (s\<lparr>last_tc_seq := (last_tc_seq s)(tc_sender tc \<mapsto> tc_seq tc),
      topology := (topology s)(tc_sender tc \<mapsto> tc_row (local_id s) (advertised_neighbors tc))\<rparr>))"
    if "tc_sender tc \<noteq> local_id s"
    using I that by (intro olsr_inv_recompute [OF ord]) (auto simp: tc_row_self split: if_splits)
  then show ?thesis using inv by (simp add: process_tc_def Let_def)
qed

section \<open>Ageing\<close>

lemma remove_neighbors:
  "local_id (foldl remove_neighbor s is) = local_id s"
  "neighbors (foldl remove_neighbor s is) = (\<lambda>n. if n \<in> set is then None else neighbors s n)"
  "topology (foldl remove_neighbor s is) = (\<lambda>n. if n \<in> set is then None else topology s n)"
  "routes (foldl remove_neighbor s is) = routes s"
  "last_tc_seq (foldl remove_neighbor s is) = last_tc_seq s"
  by (induction "is" arbitrary: s) (auto simp: remove_neighbor_def)

lemma remove_neighbors_two_hop:
  "two_hop (foldl remove_neighbor s is) n = Some g \<Longrightarrow>
     \<exists>g'. two_hop s n = Some g' \<and> g = g' - set is \<and> (g' \<noteq> {} \<longrightarrow> g \<noteq> {})"
proof (induction "is" arbitrary: s)
  case (Cons i "is")
  from Cons.IH [of "remove_neighbor s i"] Cons.prems
  obtain g1 where g1: "two_hop (remove_neighbor s i) n = Some g1" "g = g1 - set is"
    "g1 \<noteq> {} \<longrightarrow> g \<noteq> {}" by auto
  from g1(1) obtain g' where "two_hop s n = Some g'" "g1 = g' - {i}" "g1 \<noteq> {}"
    by (auto simp: remove_neighbor_def gateways_without_Some)
  with g1(2,3) show ?case by (intro exI [of _ g']) auto
qed simp

definition stale_nodes :: "u64 \<Rightarrow> OlsrState \<Rightarrow> u8 set" where
  "stale_nodes now s = {n. \<exists>e. neighbors s n = Some e \<and> is_stale now e}"

lemma set_stale:
  "order_ok ord \<Longrightarrow>
     set (map fst (filter (\<lambda>(_, e). is_stale now e) (entries (ord (local_id s)) (neighbors s)))) = stale_nodes now s"
  by (auto simp: stale_nodes_def set_entries order_ok_def image_iff)

text \<open>The effect of a tick on the tables, and the routes it leaves.\<close>

lemma aging_tables:
  assumes "order_ok ord"
  shows "local_id (aging_tick ord now s) = local_id s"
    and "neighbors (aging_tick ord now s) = (\<lambda>n. if n \<in> stale_nodes now s then None else neighbors s n)"
    and "topology (aging_tick ord now s) = (\<lambda>n. if n \<in> stale_nodes now s then None else topology s n)"
    and "last_tc_seq (aging_tick ord now s) = last_tc_seq s"
  unfolding set_stale [OF assms, of now s, symmetric]
  by (simp_all add: aging_tick_def Let_def remove_neighbors del: set_map set_filter)

lemma aging_two_hop:
  assumes "order_ok ord" and "two_hop (aging_tick ord now s) n = Some g"
  shows "\<exists>g'. two_hop s n = Some g' \<and> g = g' - stale_nodes now s \<and> (g' \<noteq> {} \<longrightarrow> g \<noteq> {})"
  using assms(2) set_stale [OF assms(1), of now s] remove_neighbors_two_hop
  by (fastforce simp: aging_tick_def Let_def split: if_splits)

lemma aging_routes:
  assumes "order_ok ord"
  shows "routes (aging_tick ord now s) =
    (if stale_nodes now s = {} then routes s else table_routes ord (aging_tick ord now s))"
proof -
  let ?st = "map fst (filter (\<lambda>(_, e). is_stale now e) (entries (ord (local_id s)) (neighbors s)))"
  let ?s = "foldl remove_neighbor s ?st"
  have "?st = [] \<longleftrightarrow> stale_nodes now s = {}"
    using set_stale [OF assms, of now s] by (metis set_empty)
  moreover have "table_routes ord (?s\<lparr>routes := Map.empty\<rparr>) = Map.empty" if "dom (neighbors ?s) = {}"
    using that by (intro table_routes_isolated) simp
  ultimately show ?thesis
    using routes_recompute [of ord ?s] by (simp add: aging_tick_def Let_def remove_neighbors)
qed

lemma aging_inv:
  assumes inv: "olsr_inv s" and ord: "order_ok ord"
  shows "olsr_inv (aging_tick ord now s)"
proof -
  note I = olsr_invD [OF inv]
  have "\<exists>ord. order_ok ord \<and> routes (aging_tick ord' now s) = table_routes ord (aging_tick ord' now s)"
    if "ord' = ord" for ord'
  proof (cases "stale_nodes now s = {}")
    case True
    then have "table_routes o' (aging_tick ord now s) = table_routes o' s" for o'
      by (intro table_routes_cong) (simp_all add: aging_tables [OF ord])
    then show ?thesis using I(4) True aging_routes [OF ord] that by simp
  qed (use ord aging_routes [OF ord] that in auto)
  moreover have "n \<noteq> local_id s \<and> g \<noteq> {} \<and> g \<subseteq> dom (neighbors (aging_tick ord now s))"
    if "two_hop (aging_tick ord now s) n = Some g" for n g
    using aging_two_hop [OF ord that] I(2) [of n] by (auto simp: aging_tables [OF ord])
  ultimately show ?thesis
    unfolding olsr_inv_def using I(1,3) by (auto simp: aging_tables(1,3,4) [OF ord] aging_tables(2) [OF ord])
qed

section \<open>Reachable states\<close>

text \<open>
  The tables change only through received HELLO and TC messages and the ageing tick, in any
  order, each run under the write lock.
\<close>

inductive olsr_reach :: "u8 \<Rightarrow> OlsrState \<Rightarrow> bool" for i where
  reach_new: "olsr_reach i (OlsrState_new i)"
| reach_hello: "olsr_reach i s \<Longrightarrow> order_ok ord \<Longrightarrow> olsr_reach i (process_hello ord now hello from_link rssi s)"
| reach_tc: "olsr_reach i s \<Longrightarrow> order_ok ord \<Longrightarrow> olsr_reach i (snd (process_tc ord tc from_link s))"
| reach_aging: "olsr_reach i s \<Longrightarrow> order_ok ord \<Longrightarrow> olsr_reach i (aging_tick ord now s)"

definition id_order :: iter_order where
  "id_order u = map of_nat [0..<256]"

lemma id_order_ok: "order_ok id_order"
proof -
  have surj: "x \<in> (of_nat :: nat \<Rightarrow> u8) ` {0..<256}" for x :: u8
  proof (rule image_eqI)
    show "x = of_nat (unat x)" by simp
    show "unat x \<in> {0..<256}" using unsigned_less [of x, where 'a = nat] by simp
  qed
  have inj: "inj_on (of_nat :: nat \<Rightarrow> u8) {0..<256}"
  proof (rule inj_on_inverseI)
    show "unat (of_nat n :: u8) = n" if "n \<in> {0..<256}" for n using that by simp
  qed
  have "distinct (id_order u)" for u
    unfolding id_order_def distinct_map set_upt using distinct_upt inj by (rule conjI)
  moreover have "set (id_order u) = UNIV" for u
    unfolding id_order_def set_map set_upt using surj by (intro equalityI subset_UNIV subsetI)
  ultimately show ?thesis by (simp add: order_ok_def)
qed

lemma new_inv: "olsr_inv (OlsrState_new i)"
  using id_order_ok table_routes_isolated [of "OlsrState_new i" id_order]
  by (auto simp: olsr_inv_def OlsrState_new_def)

lemma process_hello_local [simp]: "local_id (process_hello ord now hello from_link rssi s) = local_id s"
  by (simp add: process_hello_def Let_def)

lemma process_tc_local [simp]: "local_id (snd (process_tc ord tc from_link s)) = local_id s"
  by (simp add: process_tc_def Let_def)

lemma reach_inv: "olsr_reach i s \<Longrightarrow> olsr_inv s \<and> local_id s = i"
proof (induction rule: olsr_reach.induct)
  case reach_new
  then show ?case using new_inv by (simp add: OlsrState_new_def)
qed (auto simp: process_hello_inv process_tc_inv aging_inv aging_tables)

lemma reach_routes:
  assumes "olsr_reach i s"
  obtains ord where "order_ok ord" and "routes s = table_routes ord s" and "local_id s = i"
  using reach_inv [OF assms] olsr_invD(4) by blast

section \<open>Properties\<close>

text \<open>
  (C2) In every state the router can reach, the route table is exactly the set of least-cost
  routes of its current neighbour and topology tables: a destination has no entry precisely when
  no walk reaches it, and the cost of an entry is the cost of a walk and no larger than that of
  any other walk. Neither saturation nor the traversal order of the hash maps affects this.
\<close>

theorem routes_are_least_cost:
  assumes "olsr_reach i s" and "order_ok ord"
  shows "(route_to s v = None \<longleftrightarrow> v = i \<or> \<not> (\<exists>c n. walk (edges ord s) i v c n))
    \<and> (\<forall>r. route_to s v = Some r \<longrightarrow> destination r = v
          \<and> (\<exists>n. walk (edges ord s) i v (unat (route_cost r)) n)
          \<and> (\<forall>c n. walk (edges ord s) i v c n \<longrightarrow> unat (route_cost r) \<le> c))"
proof -
  from reach_routes [OF assms(1)] obtain o' where o': "order_ok o'" "routes s = table_routes o' s"
    and i: "local_id s = i" by blast
  have eq: "walk (edges o' s) i v c n \<longleftrightarrow> walk (edges ord s) i v c n" for c n
    using walk_order o'(1) assms(2) by blast
  have "destination r = v \<and> (\<exists>n. walk (edges ord s) i v (unat (route_cost r)) n)
      \<and> (\<forall>c n. walk (edges ord s) i v c n \<longrightarrow> unat (route_cost r) \<le> c)"
    if "table_routes o' s v = Some r" for r
    using table_route_least [OF that] unfolding i eq by blast
  then show ?thesis
    using table_route_None [of o' s v] by (simp add: route_to_def o'(2) i eq)
qed

text \<open>
  (C13) The next hop of an entry. Every route belongs to a least-cost walk of some number of hops;
  if there are at most nine, the next hop is a direct neighbour from which the rest of that
  least-cost walk leads to the destination, and the hop count is the number of hops, capped at
  eight.
\<close>

theorem route_next_hop_correct:
  assumes "olsr_reach i s" and "route_to s v = Some r" and "order_ok ord"
  shows "\<exists>n. walk (edges ord s) i v (unat (route_cost r)) (Suc n)
     \<and> unat (hop_count r) = min 8 (Suc n)
     \<and> (Suc n \<le> 9 \<longrightarrow>
          (\<exists>e. neighbors s (next_hop r) = Some e
             \<and> unat (link_cost (link_quality e)) \<le> unat (route_cost r)
             \<and> walk (edges ord s) (next_hop r) v
                 (unat (route_cost r) - unat (link_cost (link_quality e))) n))"
proof -
  from reach_routes [OF assms(1)] obtain o' where o': "order_ok o'" "routes s = table_routes o' s"
    and i: "local_id s = i" by blast
  have eq: "walk (edges o' s) a b c n \<longleftrightarrow> walk (edges ord s) a b c n" for a b c n
    using walk_order o'(1) assms(3) by blast
  have "table_routes o' s v = Some r" using assms(2) o'(2) by (simp add: route_to_def)
  then obtain n where n: "walk (edges o' s) (local_id s) v (unat (route_cost r)) (Suc n)"
    "unat (hop_count r) = min 8 (Suc n)"
    and near: "Suc n \<le> 9 \<longrightarrow> (\<exists>w. (next_hop r, w) \<in> set (edges o' s (local_id s))
      \<and> unat w \<le> unat (route_cost r) \<and> walk (edges o' s) (next_hop r) v (unat (route_cost r) - unat w) n)"
    by (rule table_route_next_hop)
  from near have "Suc n \<le> 9 \<longrightarrow> (\<exists>e. neighbors s (next_hop r) = Some e
      \<and> unat (link_cost (link_quality e)) \<le> unat (route_cost r)
      \<and> walk (edges o' s) (next_hop r) v (unat (route_cost r) - unat (link_cost (link_quality e))) n)"
    unfolding set_edges_local [OF o'(1)] by blast
  with n show ?thesis unfolding eq i by blast
qed

text \<open>
  (C22) The tables stay consistent over every run: the node never lists itself, each neighbour
  entry carries its key, every two-hop entry has a gateway and all its gateways are current
  neighbours, and no topology row belongs to the node or points back to it.
\<close>

theorem tables_consistent:
  assumes "olsr_reach i s"
  shows "neighbors s i = None
    \<and> (\<forall>n e. neighbors s n = Some e \<longrightarrow> nb_node_id e = n)
    \<and> (\<forall>n g. two_hop s n = Some g \<longrightarrow> n \<noteq> i \<and> g \<noteq> {} \<and> g \<subseteq> dom (neighbors s))
    \<and> (\<forall>u m. topology s u = Some m \<longrightarrow> u \<noteq> i \<and> m i = None \<and> last_tc_seq s u \<noteq> None)"
proof -
  have inv: "olsr_inv s" and i: "local_id s = i" using reach_inv [OF assms] by auto
  note I = olsr_invD [OF inv, unfolded i]
  have "neighbors s i = None" using I(1) by (cases "neighbors s i") auto
  with I(1-3) show ?thesis by blast
qed

text \<open>
  (C29) Ageing. A tick removes exactly the neighbours that have been silent for more than three
  seconds, with their topology rows, keeps every other neighbour unchanged, and leaves routes
  that are those of the remaining tables; a neighbour that was heard of within three seconds is
  never dropped.
\<close>

theorem aging_removes_exactly_stale:
  assumes "olsr_reach i s" and "order_ok ord"
  shows "(\<forall>n. neighbors (aging_tick ord now s) n =
            (case neighbors s n of
               None \<Rightarrow> None
             | Some e \<Rightarrow> if unat now \<le> unat (last_hello_ms e) + 3000 then Some e else None))
    \<and> (\<forall>n. neighbors (aging_tick ord now s) n \<noteq> neighbors s n \<longrightarrow>
            topology (aging_tick ord now s) n = None)
    \<and> (\<forall>v. route_to (aging_tick ord now s) v = None \<longleftrightarrow>
            v = i \<or> \<not> (\<exists>c n. walk (edges ord (aging_tick ord now s)) i v c n))"
proof -
  have stale: "is_stale now e \<longleftrightarrow> \<not> unat now \<le> unat (last_hello_ms e) + 3000" for e
    by (auto simp: is_stale_def NEIGHBOR_TIMEOUT_MS_def word_less_nat_alt arith_nat)
  have i: "local_id s = i" using reach_inv [OF assms(1)] by simp
  from reach_inv [OF reach_aging [OF assms]] olsr_invD(4) obtain o'
    where o': "order_ok o'" "routes (aging_tick ord now s) = table_routes o' (aging_tick ord now s)"
    by blast
  have eq: "walk (edges o' s') a b c n \<longleftrightarrow> walk (edges ord s') a b c n" for s' a b c n
    using walk_order o'(1) assms(2) by blast
  have "route_to (aging_tick ord now s) v = None \<longleftrightarrow>
      v = i \<or> \<not> (\<exists>c n. walk (edges ord (aging_tick ord now s)) i v c n)" for v
    using table_route_None [of o' "aging_tick ord now s" v]
    by (simp add: route_to_def o'(2) aging_tables(1) [OF assms(2)] i eq)
  moreover have "neighbors (aging_tick ord now s) n =
      (case neighbors s n of None \<Rightarrow> None
       | Some e \<Rightarrow> if unat now \<le> unat (last_hello_ms e) + 3000 then Some e else None)" for n
    by (auto simp: aging_tables [OF assms(2)] stale_nodes_def stale split: option.splits)
  moreover have "neighbors (aging_tick ord now s) n \<noteq> neighbors s n \<longrightarrow> topology (aging_tick ord now s) n = None" for n
    by (simp add: aging_tables [OF assms(2)])
  ultimately show ?thesis by blast
qed

text \<open>
  Duplicate suppression. The read-only test \<open>should_forward_tc\<close> agrees with what
  \<open>process_tc\<close> reports; a message that is not new changes nothing; one that is new is recorded
  and the same message, or any of the hundred preceding sequence numbers that do not wrap, is
  then rejected.
\<close>

theorem tc_processed_once:
  "should_forward_tc s tc = fst (process_tc ord tc from_link s)
   \<and> (\<not> should_forward_tc s tc \<longrightarrow> snd (process_tc ord tc from_link s) = s)
   \<and> (should_forward_tc s tc \<longrightarrow>
        last_tc_seq (snd (process_tc ord tc from_link s)) (tc_sender tc) = Some (tc_seq tc)
      \<and> (\<forall>tc'. tc_sender tc' = tc_sender tc \<and> unat (tc_seq tc') \<le> unat (tc_seq tc)
            \<and> unat (tc_seq tc) < unat (tc_seq tc') + 100 \<longrightarrow>
            \<not> should_forward_tc (snd (process_tc ord tc from_link s)) tc'))"
proof -
  have dup: "tc_duplicate a b \<longleftrightarrow> unat a \<le> unat b \<and> unat b < unat a + 100" for a b
    unfolding tc_duplicate_def by (auto simp: word_le_nat_alt word_less_nat_alt unat_sub)
  show ?thesis
    by (auto simp: should_forward_tc_def process_tc_def Let_def dup)
qed

end
