(* ===== verification/NodeMachine.thy ===== *)
theory NodeMachine
  imports Behaviour OlsrRouting
begin

text \<open>
  The node as a whole: \<^verbatim>\<open>main\<close> starts the periodic router tasks, the scheduler, the reader
  threads, the receive loop, the display and outbound loops and the terminal, all on one shared
  state. A step of \<open>node_step\<close> is one round of one of them, between the points where it waits;
  rounds of different tasks interleave in any order.
\<close>

section \<open>State\<close>

record node_state =
  ns_shared :: Shared
  ns_rx :: RxState
  ns_tui :: TuiState
  ns_tasks :: "task list"
  ns_out :: "OutboundMsg list"
  ns_frames :: "(bytes \<times> RxMeta \<times> Priority) list"
  ns_tc_seq :: u16
  ns_converged :: bool
  ns_running :: bool

definition OUT_CHAN_DEPTH :: nat where "OUT_CHAN_DEPTH = 64"
definition FRAME_CHAN_DEPTH :: nat where "FRAME_CHAN_DEPTH = 2048"

definition TuiState_new :: TuiState where
  "TuiState_new = \<lparr>spoof_active = False, jam_active = False, blackout = False\<rparr>"

definition node_start :: "Shared \<Rightarrow> node_state" where
  "node_start s =
     \<lparr>ns_shared = s, ns_rx = RxState_new, ns_tui = TuiState_new, ns_tasks = [], ns_out = [],
      ns_frames = [], ns_tc_seq = 0, ns_converged = False, ns_running = True\<rparr>"

text \<open>
  \<^verbatim>\<open>main\<close> up to the spawning of the tasks. A file is the outcome of reading it, \<open>None\<close> when it is
  not named or does not exist; \<open>scale\<close> stands for \<^verbatim>\<open>decode_and_scale\<close> of the image crate and
  \<open>pattern\<close> for the test pattern, which is computed in floating point.
\<close>

datatype boot_error = ReadError string | BadPsk | BadImage | LinkFailed link_error

definition load_psk :: "(string + bytes) option \<Rightarrow> boot_error + bytes" where
  "load_psk psk_file =
     (case psk_file of
        Some (Inl e) \<Rightarrow> Inl (ReadError e)
      | Some (Inr b) \<Rightarrow> if length b = 32 then Inr b else Inl BadPsk
      | None \<Rightarrow> Inr (ascii ''TacticalMeshDemoPSK-hackathon!!!''))"

type_synonym picture = "bytes \<times> u32 \<times> u32"

definition IMG_MAX_W :: u32 where "IMG_MAX_W = 320"
definition IMG_MAX_H :: u32 where "IMG_MAX_H = 240"

definition load_local_image ::
  "(bytes \<Rightarrow> u32 \<Rightarrow> u32 \<Rightarrow> picture option) \<Rightarrow> picture \<Rightarrow> (string + bytes) option \<Rightarrow> (string + bytes) option
    \<Rightarrow> boot_error + picture option" where
  "load_local_image scale pattern image_file tank =
     (case image_file of
        Some (Inl e) \<Rightarrow> Inl (ReadError e)
      | Some (Inr b) \<Rightarrow>
          (if length b = 640 * 480 then Inr (Some (b, 640, 480))
           else case scale b IMG_MAX_W IMG_MAX_H of
                  None \<Rightarrow> Inl BadImage
                | Some pic \<Rightarrow> Inr (Some pic))
      | None \<Rightarrow>
          (case tank of
             Some (Inl e) \<Rightarrow> Inl (ReadError e)
           | Some (Inr b) \<Rightarrow>
               (case scale b IMG_MAX_W IMG_MAX_H of
                  Some pic \<Rightarrow> Inr (Some pic)
                | None \<Rightarrow> Inr (Some pattern))
           | None \<Rightarrow> Inr (Some pattern)))"

definition node_main ::
  "crypto \<Rightarrow> (Priority \<Rightarrow> bool) \<Rightarrow> (Priority \<Rightarrow> bool) \<Rightarrow> (bytes \<Rightarrow> u32 \<Rightarrow> u32 \<Rightarrow> picture option) \<Rightarrow> picture
    \<Rightarrow> u8 \<Rightarrow> (string + bytes) option \<Rightarrow> (string + bytes) option \<Rightarrow> (string + bytes) option
    \<Rightarrow> boot_error + node_state" where
  "node_main C tx_ok rx_ok scale pattern nid psk_file image_file tank =
     (case load_psk psk_file of
        Inl e \<Rightarrow> Inl e
      | Inr psk \<Rightarrow>
          (case LinkAdapter_new (blake3 C) tx_ok rx_ok nid psk of
             Inl e \<Rightarrow> Inl (LinkFailed e)
           | Inr l \<Rightarrow>
               (case load_local_image scale pattern image_file tank of
                  Inl e \<Rightarrow> Inl e
                | Inr img \<Rightarrow> Inr (node_start (Shared_new C nid psk l img)))))"

definition set_link :: "Shared \<Rightarrow> LinkAdapter \<Rightarrow> Shared" where
  "set_link s l = s\<lparr>sh_sched := (sh_sched s)\<lparr>sched_link := l\<rparr>\<rparr>"

section \<open>Steps\<close>

inductive node_step :: "node_env \<Rightarrow> node_state \<Rightarrow> node_state \<Rightarrow> bool" for env where
  step_hello:
    "hello_tick (env_crypto env) (ser_olsr env) ord now random ok (sh_identity (ns_shared ns))
        (sh_olsr (ns_shared ns)) (sh_link (ns_shared ns)) = (pkt, l)
     \<Longrightarrow> node_step env ns (ns\<lparr>ns_shared := set_link (ns_shared ns) l\<rparr>)"
| step_tc:
    "tc_tick (env_crypto env) (ser_olsr env) ord now random ok (sh_identity (ns_shared ns))
        (sh_olsr (ns_shared ns)) (ns_tc_seq ns) (sh_link (ns_shared ns)) = (sq, pkt, l)
     \<Longrightarrow> node_step env ns (ns\<lparr>ns_shared := set_link (ns_shared ns) l, ns_tc_seq := sq\<rparr>)"
| step_aging:
    "order_ok ord
     \<Longrightarrow> node_step env ns (ns\<lparr>ns_shared := (ns_shared ns)\<lparr>sh_olsr :=
           aging_tick ord now (sh_olsr (ns_shared ns))\<rparr>\<rparr>)"
| step_transmit:
    "run_step ok (sh_sched (ns_shared ns)) = Ret (r, sched)
     \<Longrightarrow> node_step env ns (ns\<lparr>ns_shared := (ns_shared ns)\<lparr>sh_sched := sched\<rparr>\<rparr>)"
| step_radio:
    "node_step env ns (ns\<lparr>ns_shared := set_link (ns_shared ns)
        (LinkAdapter_deliver (sh_link (ns_shared ns)) p frame)\<rparr>)"
| step_reader:
    "LinkAdapter_recv (sh_link (ns_shared ns)) p = Some ((frame, meta), l)
     \<Longrightarrow> length (ns_frames ns) < FRAME_CHAN_DEPTH
     \<Longrightarrow> node_step env ns (ns\<lparr>ns_shared := set_link (ns_shared ns) l,
                               ns_frames := ns_frames ns @ [(frame, meta, p)]\<rparr>)"
| step_rx:
    "ns_frames ns = (raw, meta, p) # rest \<Longrightarrow> order_ok (io_ord io)
     \<Longrightarrow> rx_step env io raw meta (ns_rx ns) (ns_shared ns) = (rx, s, new)
     \<Longrightarrow> node_step env ns (ns\<lparr>ns_shared := s, ns_rx := rx, ns_frames := rest,
                               ns_tasks := ns_tasks ns @ new\<rparr>)"
| step_task:
    "ns_tasks ns = before @ t # after
     \<Longrightarrow> run_task env io t (ns_shared ns) = (s, new)
     \<Longrightarrow> node_step env ns (ns\<lparr>ns_shared := s, ns_tasks := before @ after @ new\<rparr>)"
| step_outbound:
    "ns_out ns = out # rest
     \<Longrightarrow> node_step env ns (ns\<lparr>ns_shared := outbound_step env io out (ns_shared ns), ns_out := rest\<rparr>)"
| step_sync:
    "sync_tick io rks srcs start_ms (ns_converged ns) (ns_shared ns) = (conv, s)
     \<Longrightarrow> node_step env ns (ns\<lparr>ns_shared := s, ns_converged := conv\<rparr>)"
| step_key:
    "tui_step io rnd lat lon ev (ns_tui ns) (ns_shared ns) = (quit, u, s, outs)
     \<Longrightarrow> length (ns_out ns) + length outs \<le> OUT_CHAN_DEPTH
     \<Longrightarrow> node_step env ns (ns\<lparr>ns_shared := s, ns_tui := u, ns_out := ns_out ns @ outs,
                               ns_running := \<not> quit\<rparr>)"
| step_spoofer:
    "node_step env ns (ns\<lparr>ns_shared :=
        spoofer_tick env io seed key (spoof_active (ns_tui ns)) ok (ns_shared ns)\<rparr>)"
| step_jammer:
    "node_step env ns (ns\<lparr>ns_shared :=
        jammer_tick garbage (jam_active (ns_tui ns)) ok (ns_shared ns)\<rparr>)"
| step_epoch:
    "node_step env ns (ns\<lparr>ns_shared := set_link (ns_shared ns)
        (epoch_rotation_tick (sh_link (ns_shared ns)))\<rparr>)"

text \<open>When the terminal loop ends, so does the process.\<close>

inductive node_reach :: "node_env \<Rightarrow> node_state \<Rightarrow> node_state \<Rightarrow> bool" for env start where
  reach_start: "node_reach env start start"
| reach_step: "node_reach env start ns \<Longrightarrow> ns_running ns \<Longrightarrow> node_step env ns ns' \<Longrightarrow> node_reach env start ns'"

section \<open>The invariant of the shared state\<close>

text \<open>\<open>i\<close> and \<open>ks\<close> are the identity and the keys that the node was started with.\<close>

definition shared_inv :: "Identity \<Rightarrow> PubkeyStore \<Rightarrow> Shared \<Rightarrow> bool" where
  "shared_inv i ks s \<longleftrightarrow>
     sh_identity s = i \<and> sh_pubkeys s = ks
   \<and> olsr_reach (id_node i) (sh_olsr s)
   \<and> link_inv (sh_link s) \<and> node_id (sh_link s) = id_node i
   \<and> queues_ok (queues (sh_sched s))
   \<and> cache_ok (sh_images s) \<and> cache_inv (sh_nonces s)
   \<and> length (app_log (sh_app s)) \<le> 200"

definition node_inv :: "Identity \<Rightarrow> PubkeyStore \<Rightarrow> node_state \<Rightarrow> bool" where
  "node_inv i ks ns \<longleftrightarrow>
     shared_inv i ks (ns_shared ns)
   \<and> length (ns_frames ns) \<le> FRAME_CHAN_DEPTH \<and> length (ns_out ns) \<le> OUT_CHAN_DEPTH
   \<and> list_all (\<lambda>(frame, _). \<not> own_frame (id_node i) frame) (ns_frames ns)"

lemma sh_link_simps [simp]:
  "sh_link (s\<lparr>sh_olsr := x1\<rparr>) = sh_link s" "sh_link (s\<lparr>sh_app := x2\<rparr>) = sh_link s"
  "sh_link (s\<lparr>sh_board := x3\<rparr>) = sh_link s" "sh_link (s\<lparr>sh_images := x4\<rparr>) = sh_link s"
  "sh_link (s\<lparr>sh_nonces := x5\<rparr>) = sh_link s" "sh_link (s\<lparr>sh_sched := sc\<rparr>) = sched_link sc"
  "sh_link (s\<lparr>sh_bad_sigs := c1\<rparr>) = sh_link s" "sh_link (s\<lparr>sh_time_drops := c2\<rparr>) = sh_link s"
  "sh_link (s\<lparr>sh_replay_drops := c3\<rparr>) = sh_link s" "sh_link (s\<lparr>sh_channel_hops := c4\<rparr>) = sh_link s"
  "sh_link (s\<lparr>sh_stream_rots := c5\<rparr>) = sh_link s" "sh_link (s\<lparr>sh_radio := c6\<rparr>) = sh_link s"
  by (simp_all add: sh_link_def)

text \<open>The effect of an update of one field.\<close>

lemma shared_inv_olsr: "shared_inv i ks s \<Longrightarrow> olsr_reach (id_node i) os \<Longrightarrow> shared_inv i ks (s\<lparr>sh_olsr := os\<rparr>)"
  and shared_inv_app: "shared_inv i ks s \<Longrightarrow> length (app_log a) \<le> 200 \<Longrightarrow> shared_inv i ks (s\<lparr>sh_app := a\<rparr>)"
  and shared_inv_board: "shared_inv i ks s \<Longrightarrow> shared_inv i ks (s\<lparr>sh_board := b\<rparr>)"
  and shared_inv_images: "shared_inv i ks s \<Longrightarrow> cache_ok c \<Longrightarrow> shared_inv i ks (s\<lparr>sh_images := c\<rparr>)"
  and shared_inv_nonces: "shared_inv i ks s \<Longrightarrow> cache_inv nc \<Longrightarrow> shared_inv i ks (s\<lparr>sh_nonces := nc\<rparr>)"
  and shared_inv_link: "shared_inv i ks s \<Longrightarrow> link_inv l \<Longrightarrow> node_id l = node_id (sh_link s)
        \<Longrightarrow> shared_inv i ks (set_link s l)"
  and shared_inv_counters: "shared_inv i ks s \<Longrightarrow> shared_inv i ks (s\<lparr>sh_bad_sigs := c1\<rparr>)"
      "shared_inv i ks s \<Longrightarrow> shared_inv i ks (s\<lparr>sh_time_drops := c1\<rparr>)"
      "shared_inv i ks s \<Longrightarrow> shared_inv i ks (s\<lparr>sh_replay_drops := c1\<rparr>)"
      "shared_inv i ks s \<Longrightarrow> shared_inv i ks (s\<lparr>sh_channel_hops := c1\<rparr>)"
      "shared_inv i ks s \<Longrightarrow> shared_inv i ks (s\<lparr>sh_stream_rots := c1\<rparr>)"
      "shared_inv i ks s \<Longrightarrow> shared_inv i ks (s\<lparr>sh_radio := c6\<rparr>)"
  by (simp_all add: shared_inv_def set_link_def)

lemma shared_inv_log: "shared_inv i ks s \<Longrightarrow> shared_inv i ks (log_line s m)"
  by (simp add: log_line_def shared_inv_app shared_inv_def length_push_log)

lemma shared_inv_enqueue: "shared_inv i ks s \<Longrightarrow> shared_inv i ks (sh_enqueue s f p)"
  by (simp add: shared_inv_def)

lemma shared_invD:
  assumes "shared_inv i ks s"
  shows "olsr_reach (id_node i) (sh_olsr s)" "link_inv (sh_link s)" "node_id (sh_link s) = id_node i"
    "queues_ok (queues (sh_sched s))" "cache_ok (sh_images s)" "cache_inv (sh_nonces s)"
    "length (app_log (sh_app s)) \<le> 200" "sh_identity s = i" "sh_pubkeys s = ks"
  using assms by (simp_all add: shared_inv_def)

lemmas shared_inv_intros = shared_inv_app shared_inv_board shared_inv_counters shared_inv_log
  shared_inv_enqueue

section \<open>Every operation keeps it\<close>

lemma channel_hop_inv: "shared_inv i ks s \<Longrightarrow> shared_inv i ks (handle_channel_hop io ch s)"
  unfolding handle_channel_hop_def Let_def
  by (intro shared_inv_intros) (simp_all add: shared_invD)

lemma jam_alert_inv: "shared_inv i ks s \<Longrightarrow> shared_inv i ks (handle_jam_alert io ja s)"
  unfolding handle_jam_alert_def Let_def by (intro channel_hop_inv shared_inv_intros)

lemma image_shard_inv:
  assumes "shared_inv i ks s"
  shows "shared_inv i ks (fst (handle_image_shard shard s))"
proof -
  have "cache_ok (snd (insert_shard (sh_images s) shard))"
    using shared_invD(5) [OF assms] by (rule insert_shard_ok)
  then have "shared_inv i ks (s\<lparr>sh_images := snd (insert_shard (sh_images s) shard)\<rparr>)"
    using assms by (simp add: shared_inv_images)
  then show ?thesis
    using shared_invD(7) [OF assms]
    by (auto simp: handle_image_shard_def Let_def shared_inv_app split: prod.splits option.splits)
qed

lemma tactical_inv:
  assumes "shared_inv i ks s"
  shows "shared_inv i ks (fst (handle_tactical env io msg src s))"
  using assms image_shard_inv [OF assms]
  by (cases msg)
    (simp_all add: handle_tactical_def handle_target_detection_def handle_bda_def handle_command_def
      handle_state_report_def handle_chat_def handle_mayday_def shared_inv_board shared_inv_log
      channel_hop_inv jam_alert_inv split: prod.splits)

lemma send_burst_inv:
  "shared_inv i ks s \<Longrightarrow> shared_inv i ks (fst (send_burst env io req n b cs s))"
proof (induction env io req n b cs s rule: send_burst.induct)
  case (2 env io req n b data rest s)
  then show ?case
    by (auto simp: send_shard_def Let_def shared_inv_enqueue split: sum.splits)
qed simp

lemma task_inv:
  assumes "shared_inv i ks s"
  shows "shared_inv i ks (fst (run_task env io t s))"
proof (cases t)
  case (Task_Tactical msg src)
  then show ?thesis using assms by (simp add: tactical_inv)
next
  case (Task_RequestImage req src)
  then show ?thesis using assms by (simp add: handle_request_image_def Let_def split: option.splits)
next
  case (Task_SendShards req n b cs dims)
  then show ?thesis
    using send_burst_inv [OF assms, of env io req n b cs]
    by (auto simp: send_shards_def shared_inv_log split: prod.splits option.splits)
next
  case (Task_Decode t d)
  then show ?thesis
    using assms shared_invD(7) [OF assms]
    by (auto simp: finish_decode_def Let_def length_push_log intro!: shared_inv_app split: prod.splits)
qed

lemma relay_inv: "shared_inv i ks s \<Longrightarrow> shared_inv i ks (rx_relay env io f s)"
  by (auto simp: rx_relay_def Let_def shared_inv_enqueue split: option.splits)

lemma dispatch_inv:
  assumes "shared_inv i ks s" and "order_ok (io_ord io)"
  shows "shared_inv i ks (fst (rx_dispatch env io rssi f s))"
proof -
  note reach = shared_invD(1) [OF assms(1)]
  have tc: "shared_inv i ks (s\<lparr>sh_olsr := o'\<rparr>)"
    if "process_tc (io_ord io) tc src (sh_olsr s) = (fwd, o')" for tc src fwd o'
    using reach_tc [OF reach assms(2), of tc src] that assms(1) by (simp add: shared_inv_olsr)
  show ?thesis
    using assms(1) reach_hello [OF reach assms(2)] tc
    by (auto simp: rx_dispatch_def Let_def shared_inv_olsr shared_inv_counters
        intro!: shared_inv_enqueue
        split: MsgKind.splits sum.splits OlsrMessage.splits prod.splits)
qed

lemma jam_check_inv: "shared_inv i ks s \<Longrightarrow> shared_inv i ks (snd (rx_jam_check env io rx s))"
  by (auto simp: rx_jam_check_def jam_respond_def Let_def split: sum.splits
      intro!: shared_inv_log shared_inv_enqueue jam_alert_inv)

lemma nonce_check_inv: "cache_inv nc \<Longrightarrow> cache_inv (snd (nonce_check nc k t))"
  using nonce_machine.step_inv [of nc "(k, t)"] by simp

lemma parse_cache_inv:
  assumes "cache_inv nc"
  shows "cache_inv (snd (parse_and_verify_frame C raw ks nc now key))"
proof (cases rule: parse_cases [of C raw ks nc now key])
  case (checked a vk e)
  then show ?thesis using nonce_check_inv [OF assms, of "frame_key a" now] by simp
next
  case (decrypted a vk r pt)
  then show ?thesis using nonce_check_inv [OF assms, of "frame_key a" now] by simp
qed (use assms in simp)

lemma rx_step_inv:
  assumes "shared_inv i ks s" and "order_ok (io_ord io)"
    and "rx_step env io raw meta rx s = (rx', s', ts)"
  shows "shared_inv i ks s'"
proof -
  obtain res nc where p: "parse_and_verify_frame (env_crypto env) raw (sh_pubkeys s) (sh_nonces s) (io_now io)
      (id_session_key (sh_identity s)) = (res, nc)" by fastforce
  have nc: "shared_inv i ks (s\<lparr>sh_nonces := nc\<rparr>)"
    using shared_inv_nonces [OF assms(1)] parse_cache_inv [OF shared_invD(6) [OF assms(1)]] p by (metis snd_conv)
  show ?thesis
  proof (cases res)
    case (Inl e)
    then show ?thesis
      using assms(3) p nc
      by (auto simp: rx_step_def count_drop_def shared_inv_counters split: FrameError.splits)
  next
    case (Inr f)
    let ?s1 = "rx_relay env io f (s\<lparr>sh_nonces := nc\<rparr>)"
    have "shared_inv i ks ?s1" using nc by (rule relay_inv)
    moreover from this have "shared_inv i ks (fst (rx_dispatch env io (rssi_dbm meta) f ?s1))"
      using assms(2) by (rule dispatch_inv)
    ultimately show ?thesis
      using assms(3) p Inr jam_check_inv
      by (auto simp: rx_step_def Let_def split: if_splits prod.splits) (metis fst_conv snd_conv)
  qed
qed

lemma outbound_inv: "shared_inv i ks s \<Longrightarrow> shared_inv i ks (outbound_step env io out s)"
  by (auto simp: outbound_step_def Let_def shared_inv_enqueue split: sum.splits option.splits)

lemma sync_inv: "shared_inv i ks s \<Longrightarrow> shared_inv i ks (snd (sync_tick io rks srcs t conv s))"
  by (simp add: sync_tick_def Let_def shared_inv_app shared_invD)

lemma link_send_inv:
  assumes "shared_inv i ks s" and "LinkAdapter_send ok (sh_link s) d p = (pkt, res, l)"
  shows "shared_inv i ks (set_link s l)"
proof (rule shared_inv_link [OF assms(1)])
  show "link_inv l"
    using link_machine.step_inv [OF shared_invD(2) [OF assms(1)], of undefined "LinkSend ok d p"] assms(2) by simp
  show "node_id l = node_id (sh_link s)"
    using assms(2) by (auto simp: LinkAdapter_send_def Let_def split: prod.splits)
qed

lemma set_link_same [simp]: "set_link s (sh_link s) = s"
  by (simp add: set_link_def sh_link_def)

lemma send_olsr_inv:
  assumes "shared_inv i ks s" and "send_olsr C ser now random ok j (sh_link s) k m = (pkt, l)"
  shows "shared_inv i ks (set_link s l)"
  using assms link_send_inv
  by (auto simp: send_olsr_def Let_def split: sum.splits prod.splits)

lemma transmit_inv:
  assumes "shared_inv i ks s" and "run_step ok (sh_sched s) = Ret (r, sched)"
  shows "shared_inv i ks (s\<lparr>sh_sched := sched\<rparr>)"
proof -
  obtain x q where q: "pop_total (queues (sh_sched s)) = (x, q)" by fastforce
  have nxt: "pop_next (queues (sh_sched s)) = Ret (x, q)"
    using pop_next_total [OF shared_invD(4) [OF assms(1)]] q by simp
  have okq: "queues_ok q"
    using tx_queue.deq_None [OF shared_invD(4) [OF assms(1)]] tx_queue.deq_Some [OF shared_invD(4) [OF assms(1)]]
      shared_invD(4) [OF assms(1)] q by (cases x) auto
  show ?thesis
  proof (cases x)
    case None
    then show ?thesis
      using assms nxt okq by (auto simp: run_step_def shared_inv_def sh_link_def)
  next
    case (Some y)
    obtain f p where y: "y = (f, p)" by fastforce
    obtain pkt res l where snd: "LinkAdapter_send (ok (link_seq (sh_link s))) (sh_link s) f p = (pkt, res, l)"
      using prod_cases3 by blast
    then have "sched = \<lparr>queues = q, sched_link = l\<rparr>"
      using assms(2) nxt Some y by (auto simp: run_step_def sh_link_def)
    then show ?thesis
      using link_send_inv [OF assms(1) snd] okq by (simp add: shared_inv_def set_link_def)
  qed
qed

lemma show_image_inv: "shared_inv i ks s \<Longrightarrow> shared_inv i ks (show_image t pre s img)"
  by (cases img) (auto simp: show_image_def shared_invD intro!: shared_inv_intros)

lemma allow_list_inv: "link_inv l \<Longrightarrow> link_inv (l\<lparr>allow_list := x\<rparr>)"
  using link_machine.step_inv [of l undefined "LinkAllow x"] by (simp add: set_allow_list_def)

lemma blackout_inv: "shared_inv i ks s \<Longrightarrow> shared_inv i ks (snd (key_blackout u s))"
  unfolding key_blackout_def Let_def set_link_def [symmetric] snd_conv
  by (intro shared_inv_log shared_inv_link) (simp_all add: shared_invD allow_list_inv set_allow_list_def)

lemma tui_input_inv: "shared_inv i ks s \<Longrightarrow> shared_inv i ks (fst (tui_input io ev s))"
  by (cases ev) (auto simp: tui_input_def Let_def shared_invD intro!: shared_inv_intros)

lemma key_inv:
  assumes "shared_inv i ks s"
  shows "shared_inv i ks (fst (key_target io rnd lat lon s))" "shared_inv i ks (fst (key_bda io s))"
    "shared_inv i ks (fst (key_image io s))" "shared_inv i ks (fst (key_report c lat lon s))"
  using assms
  by (auto simp: key_target_def key_bda_def key_image_def key_report_def Let_def shared_inv_log show_image_inv
      split: option.splits list.splits)

lemma tui_inv:
  assumes "shared_inv i ks s"
  shows "shared_inv i ks (fst (snd (snd (tui_step io rnd lat lon ev u s))))"
proof -
  have "shared_inv i ks (fst (snd (snd (tui_command io rnd lat lon (KeyPress c) u s))))" for c
    using assms key_inv [OF assms] blackout_inv [OF assms, of u]
    by (auto simp: tui_command_def shared_inv_log show_image_inv shared_inv_app shared_invD(7) [OF assms]
        split: option.splits prod.splits)
  then show ?thesis
    using assms tui_input_inv [OF assms]
    by (cases ev) (auto simp: tui_step_def tui_command_def)
qed

lemma spoofer_inv:
  assumes "shared_inv i ks s"
  shows "shared_inv i ks (spoofer_tick env io seed key active ok s)"
proof -
  have "spoofer_tick env io seed key active ok s = s \<or> (\<exists>f l. (\<exists>pkt res. LinkAdapter_send ok (sh_link s) f Critical = (pkt, res, l))
      \<and> spoofer_tick env io seed key active ok s = (set_link s l)\<lparr>sh_bad_sigs := sh_bad_sigs s + 1\<rparr>)"
    by (cases active) (auto simp: spoofer_tick_def Let_def set_link_def, metis prod.collapse)
  then show ?thesis using assms link_send_inv shared_inv_counters(1) by metis
qed

lemma jammer_inv:
  assumes "shared_inv i ks s"
  shows "shared_inv i ks (jammer_tick garbage active ok s)"
  using assms link_send_inv [OF assms, of ok garbage Bulk]
  by (cases "LinkAdapter_send ok (sh_link s) garbage Bulk") (auto simp: jammer_tick_def set_link_def)

section \<open>Reachable states\<close>

lemma node_step_inv:
  assumes "node_step env ns ns'" and "node_inv i ks ns"
  shows "node_inv i ks ns'"
proof -
  have s: "shared_inv i ks (ns_shared ns)" using assms(2) by (simp add: node_inv_def)
  note keep = assms(2) [unfolded node_inv_def]
  from assms(1) show ?thesis
  proof cases
    case (step_hello ord now random ok pkt l)
    then show ?thesis using send_olsr_inv [OF s] keep by (simp add: hello_tick_def node_inv_def)
  next
    case (step_tc ord now random ok sq pkt l)
    then show ?thesis using send_olsr_inv [OF s] keep by (auto simp: tc_tick_def Let_def node_inv_def)
  next
    case (step_aging ord now)
    then show ?thesis
      using shared_inv_olsr [OF s reach_aging [OF shared_invD(1) [OF s]]] keep by (simp add: node_inv_def)
  next
    case (step_transmit ok r sched)
    then show ?thesis using transmit_inv [OF s] keep by (simp add: node_inv_def)
  next
    case (step_radio p frame)
    then show ?thesis
      using shared_inv_link [OF s link_inv_deliver [OF shared_invD(2) [OF s]]] keep
      by (simp add: node_inv_def LinkAdapter_deliver_def)
  next
    case (step_reader p frame meta l)
    from step_reader(2) have "\<not> own_frame (id_node i) frame" and l: "node_id l = node_id (sh_link (ns_shared ns))"
      using shared_invD(2,3) [OF s]
      by (auto simp: LinkAdapter_recv_def link_inv_def chan_ok_def split: list.splits) (metis list.set_intros(1) list_all_iff case_prodD)+
    then show ?thesis
      using step_reader shared_inv_link [OF s link_inv_recv [OF shared_invD(2) [OF s] step_reader(2)] l] keep
      by (simp add: node_inv_def)
  next
    case (step_rx raw meta p rest io rx s' new)
    then show ?thesis using rx_step_inv [OF s] keep by (simp add: node_inv_def)
  next
    case (step_task before t after io s' new)
    then show ?thesis using task_inv [OF s, of env io t] keep by (simp add: node_inv_def)
  next
    case (step_outbound out rest io)
    then show ?thesis using outbound_inv [OF s] keep by (simp add: node_inv_def)
  next
    case (step_sync io rks srcs start_ms conv s')
    then show ?thesis using sync_inv [OF s, of io rks srcs start_ms "ns_converged ns"] keep by (simp add: node_inv_def)
  next
    case (step_key io rnd lat lon ev quit u s' outs)
    then show ?thesis using tui_inv [OF s, of io rnd lat lon ev "ns_tui ns"] keep by (simp add: node_inv_def)
  next
    case (step_spoofer io seed key ok)
    then show ?thesis using spoofer_inv [OF s] keep by (simp add: node_inv_def)
  next
    case (step_jammer garbage ok)
    then show ?thesis using jammer_inv [OF s] keep by (simp add: node_inv_def)
  next
    case step_epoch
    then show ?thesis using keep by (simp add: node_inv_def epoch_rotation_tick_def)
  qed
qed

lemma node_main_inv:
  assumes "node_main C tx_ok rx_ok scale pattern nid psk_file image_file tank = Inr ns" and "load_psk psk_file = Inr psk"
  shows "node_inv (Identity_from_seed C nid psk) (demo_pubkeys C psk) ns"
proof -
  obtain l img where l: "LinkAdapter_new (blake3 C) tx_ok rx_ok nid psk = Inr l"
    and ns: "ns = node_start (Shared_new C nid psk l img)"
    using assms by (auto simp: node_main_def split: sum.splits)
  have "link_inv l" "node_id l = nid"
    using LinkAdapter_new_inv [OF l] l by (auto simp: LinkAdapter_new_def split: if_splits)
  then show ?thesis
    by (simp add: ns node_inv_def shared_inv_def node_start_def Shared_new_def sh_link_def TxScheduler_new_def
        AppState_new_def cache_ok_def ImageCache_new_def reach_new Identity_from_seed_def Identity_from_parts_def)
qed

lemma node_reach_inv:
  "node_reach env start ns \<Longrightarrow> node_inv i ks start \<Longrightarrow> node_inv i ks ns"
  by (induction rule: node_reach.induct) (auto intro: node_step_inv)

section \<open>What changes the router\<close>

lemma handlers_olsr [simp]:
  "sh_olsr (handle_channel_hop io ch s) = sh_olsr s" "sh_olsr (handle_jam_alert io ja s) = sh_olsr s"
  "sh_olsr (fst (handle_image_shard shard s)) = sh_olsr s"
  by (auto simp: handle_channel_hop_def handle_jam_alert_def handle_image_shard_def Let_def
      split: prod.splits option.splits)

lemma tactical_olsr [simp]: "sh_olsr (fst (handle_tactical env io msg src s)) = sh_olsr s"
  by (cases msg)
    (simp_all add: handle_tactical_def handle_target_detection_def handle_bda_def handle_command_def
      handle_state_report_def handle_chat_def handle_mayday_def split: prod.splits)

lemma send_burst_olsr: "sh_olsr (fst (send_burst env io req n b cs s)) = sh_olsr s"
  by (induction env io req n b cs s rule: send_burst.induct)
    (auto simp: send_shard_def Let_def split: sum.splits)

lemma run_task_olsr [simp]: "sh_olsr (fst (run_task env io t s)) = sh_olsr s"
proof (cases t)
  case (Task_SendShards req n b cs dims)
  then show ?thesis
    using send_burst_olsr [of env io req n b cs s]
    by (auto simp: send_shards_def split: prod.splits option.splits)
qed (auto simp: handle_request_image_def finish_decode_def Let_def split: option.splits prod.splits)

lemma loops_olsr [simp]:
  "sh_olsr (outbound_step env io out s) = sh_olsr s"
  "sh_olsr (snd (sync_tick io rks srcs start_ms conv s)) = sh_olsr s"
  "sh_olsr (spoofer_tick env io seed key active ok s) = sh_olsr s"
  "sh_olsr (jammer_tick garbage active ok s) = sh_olsr s"
  "sh_olsr (set_link s l) = sh_olsr s"
  by (auto simp: outbound_step_def sync_tick_def spoofer_tick_def jammer_tick_def set_link_def Let_def
      split: sum.splits option.splits)

lemma tui_olsr [simp]: "sh_olsr (fst (snd (snd (tui_step io rnd lat lon ev u s)))) = sh_olsr s"
proof -
  have "sh_olsr (fst (snd (snd (tui_command io rnd lat lon (KeyPress c) u s)))) = sh_olsr s" for c
    by (auto simp: tui_command_def key_target_def key_bda_def key_image_def key_blackout_def key_report_def
        show_image_def Let_def split: option.splits list.splits)
  moreover have "sh_olsr (fst (tui_input io ev s)) = sh_olsr s"
    by (cases ev) (auto simp: tui_input_def Let_def)
  ultimately show ?thesis by (cases ev) (auto simp: tui_step_def tui_command_def)
qed

lemma jam_check_olsr [simp]: "sh_olsr (snd (rx_jam_check env io rx s)) = sh_olsr s"
  by (auto simp: rx_jam_check_def jam_respond_def Let_def split: sum.splits)

lemma dispatch_olsr:
  "sh_olsr (fst (rx_dispatch env io rssi f s)) = sh_olsr s
   \<or> (\<exists>hello. msg_kind (auth f) = OlsrHello \<and> de_olsr env (plaintext f) = Inr (OlsrMessage_Hello hello)
        \<and> sh_olsr (fst (rx_dispatch env io rssi f s))
            = process_hello (io_ord io) (io_now io) hello (src_node (auth f)) rssi (sh_olsr s))
   \<or> (\<exists>tc. msg_kind (auth f) = OlsrTc \<and> de_olsr env (plaintext f) = Inr (OlsrMessage_Tc tc)
        \<and> sh_olsr (fst (rx_dispatch env io rssi f s))
            = snd (process_tc (io_ord io) tc (src_node (auth f)) (sh_olsr s)))"
  by (auto simp: rx_dispatch_def Let_def split: MsgKind.splits sum.splits OlsrMessage.splits prod.splits)

text \<open>The step of the router that a frame accepted from the air may cause.\<close>

definition router_input ::
  "node_env \<Rightarrow> ParsedFrame \<Rightarrow> RxMeta \<Rightarrow> iter_order \<Rightarrow> u64 \<Rightarrow> OlsrState \<Rightarrow> OlsrState \<Rightarrow> bool" where
  "router_input env f meta ord now os os' \<longleftrightarrow>
     (case (msg_kind (auth f), de_olsr env (plaintext f)) of
        (OlsrHello, Inr (OlsrMessage_Hello hello)) \<Rightarrow>
          os' = process_hello ord now hello (src_node (auth f)) (rssi_dbm meta) os
      | (OlsrTc, Inr (OlsrMessage_Tc tc)) \<Rightarrow> os' = snd (process_tc ord tc (src_node (auth f)) os)
      | _ \<Rightarrow> False)"

lemma rx_step_olsr:
  assumes "rx_step env io raw meta rx s = (rx', s', ts)"
  shows "sh_olsr s' = sh_olsr s
    \<or> (\<exists>f nc. parse_and_verify_frame (env_crypto env) raw (sh_pubkeys s) (sh_nonces s) (io_now io)
            (id_session_key (sh_identity s)) = (Inr f, nc)
         \<and> deliver_local (id_node (sh_identity s)) f
         \<and> router_input env f meta (io_ord io) (io_now io) (sh_olsr s) (sh_olsr s'))"
proof -
  obtain res nc where p: "parse_and_verify_frame (env_crypto env) raw (sh_pubkeys s) (sh_nonces s) (io_now io)
      (id_session_key (sh_identity s)) = (res, nc)" by fastforce
  show ?thesis
  proof (cases res)
    case (Inl e)
    then show ?thesis using assms p by (auto simp: rx_step_def)
  next
    case (Inr f)
    let ?s1 = "rx_relay env io f (s\<lparr>sh_nonces := nc\<rparr>)"
    show ?thesis
    proof (cases "deliver_local (id_node (sh_identity s)) f")
      case True
      then have "sh_olsr s' = sh_olsr (fst (rx_dispatch env io (rssi_dbm meta) f ?s1))"
        using assms p Inr
        by (auto simp: rx_step_def Let_def split: prod.splits) (metis jam_check_olsr snd_conv)
      with dispatch_olsr [of env io "rssi_dbm meta" f ?s1] True p Inr show ?thesis
        by (auto simp: router_input_def)
    qed (use assms p Inr in \<open>auto simp: rx_step_def Let_def\<close>)
  qed
qed

section \<open>Tasks\<close>

text \<open>A bound on the rounds that a spawned task and those it spawns in turn still need.\<close>

definition request_weight :: "node_env \<Rightarrow> (bytes \<times> u32 \<times> u32) option \<Rightarrow> nat" where
  "request_weight env img =
     (case img of
        None \<Rightarrow> 1
      | Some (raw, w, h) \<Rightarrow>
          (case jpeg_encode env raw w h 75 of
             None \<Rightarrow> 1
           | Some b \<Rightarrow> 2 + length (chunks SHARD_SIZE b)))"

fun task_weight :: "node_env \<Rightarrow> (bytes \<times> u32 \<times> u32) option \<Rightarrow> task \<Rightarrow> nat" where
  "task_weight env img (Task_Tactical msg src) =
     (case msg of
        Msg_RequestImage req \<Rightarrow> Suc (request_weight env img)
      | Msg_ImageShard _ \<Rightarrow> 2
      | _ \<Rightarrow> 1)"
| "task_weight env img (Task_RequestImage req src) = request_weight env img"
| "task_weight env img (Task_SendShards req n b cs dims) = 1 + length cs"
| "task_weight env img (Task_Decode t d) = 1"

abbreviation tasks_weight :: "node_env \<Rightarrow> (bytes \<times> u32 \<times> u32) option \<Rightarrow> task list \<Rightarrow> nat" where
  "tasks_weight env img ts \<equiv> sum_list (map (task_weight env img) ts)"

lemma send_burst_rest:
  "send_burst env io req n b cs s = (s', Some (b', rest)) \<Longrightarrow> length rest < length cs"
  by (induction env io req n b cs s rule: send_burst.induct)
    (auto simp: Let_def less_Suc_eq split: sum.splits if_splits)

lemma send_burst_local: "sh_local_image (fst (send_burst env io req n b cs s)) = sh_local_image s"
  by (induction env io req n b cs s rule: send_burst.induct)
    (auto simp: send_shard_def sh_enqueue_def Let_def split: sum.splits)

lemma run_task_local: "sh_local_image (fst (run_task env io t s)) = sh_local_image s"
proof (cases t)
  case (Task_Tactical msg src)
  then show ?thesis
    by (cases msg)
      (auto simp: handle_tactical_def handle_target_detection_def handle_bda_def handle_command_def
        handle_state_report_def handle_chat_def handle_mayday_def handle_channel_hop_def
        handle_jam_alert_def handle_image_shard_def Let_def split: prod.splits option.splits)
next
  case (Task_SendShards req n b cs dims)
  then show ?thesis
    using send_burst_local [of env io req n b cs s]
    by (auto simp: send_shards_def split: prod.splits option.splits)
qed (auto simp: handle_request_image_def finish_decode_def Let_def split: option.splits prod.splits)

lemma run_task_weight:
  assumes "run_task env io t s = (s', new)"
  shows "tasks_weight env (sh_local_image s) new < task_weight env (sh_local_image s) t"
proof (cases t)
  case (Task_Tactical msg src)
  then show ?thesis
    using assms
    by (cases msg)
      (auto simp: handle_tactical_def handle_image_shard_def Let_def
        split: prod.splits option.splits if_splits)
next
  case (Task_RequestImage req src)
  then show ?thesis
    using assms by (auto simp: handle_request_image_def request_weight_def Let_def split: option.splits if_splits)
next
  case (Task_SendShards req n b cs dims)
  then show ?thesis
    using assms send_burst_rest [of env io req n b cs s]
    by (auto simp: send_shards_def split: prod.splits option.splits)
next
  case (Task_Decode t d)
  then show ?thesis using assms by simp
qed

text \<open>\<open>k\<close> rounds of pending tasks, picked in any order.\<close>

inductive task_rounds :: "node_env \<Rightarrow> nat \<Rightarrow> task list \<Rightarrow> Shared \<Rightarrow> task list \<Rightarrow> Shared \<Rightarrow> bool" for env where
  rounds_0: "task_rounds env 0 ts s ts s"
| rounds_Suc: "task_rounds env k ts s (before @ t # after) s1 \<Longrightarrow> run_task env io t s1 = (s2, new)
     \<Longrightarrow> task_rounds env (Suc k) ts s (before @ after @ new) s2"

section \<open>Properties\<close>

text \<open>
  (C8) The invariant of the whole node. However its tasks interleave, and whatever arrives from
  the radio and the keyboard, a running node keeps its identity and key store, its router is in a
  reachable router state, every receive channel holds at most 2048 frames and none the node sent
  itself, the frame channel at most 2048, the outbound channel at most 64 messages, the log at
  most 200 lines, and the image and nonce caches keep their invariants.
\<close>

theorem node_keeps_invariant:
  assumes "node_main C tx_ok rx_ok scale pattern nid psk_file image_file tank = Inr start"
    and "load_psk psk_file = Inr psk" and "node_reach env start ns"
  shows "sh_identity (ns_shared ns) = Identity_from_seed C nid psk
    \<and> sh_pubkeys (ns_shared ns) = demo_pubkeys C psk
    \<and> olsr_reach nid (sh_olsr (ns_shared ns))
    \<and> (\<forall>p. length (rx_chans (sh_link (ns_shared ns)) p) \<le> 2048)
    \<and> (\<forall>p x. x \<in> set (rx_chans (sh_link (ns_shared ns)) p) \<longrightarrow> \<not> own_frame nid (fst x))
    \<and> (\<forall>x. x \<in> set (ns_frames ns) \<longrightarrow> \<not> own_frame nid (fst x))
    \<and> length (ns_frames ns) \<le> 2048 \<and> length (ns_out ns) \<le> 64
    \<and> length (app_log (sh_app (ns_shared ns))) \<le> 200
    \<and> queues_ok (queues (sh_sched (ns_shared ns)))
    \<and> cache_ok (sh_images (ns_shared ns)) \<and> cache_inv (sh_nonces (ns_shared ns))"
proof -
  let ?i = "Identity_from_seed C nid psk"
  have inv: "node_inv ?i (demo_pubkeys C psk) ns"
    using node_reach_inv [OF assms(3)] node_main_inv [OF assms(1,2)] .
  have nid: "id_node ?i = nid" by (simp add: Identity_from_seed_def Identity_from_parts_def)
  have s: "shared_inv ?i (demo_pubkeys C psk) (ns_shared ns)" using inv by (simp add: node_inv_def)
  have "chan_ok nid (rx_chans (sh_link (ns_shared ns)) p)" for p
    using shared_invD(2,3) [OF s] nid by (simp add: link_inv_def)
  then show ?thesis
    using inv shared_invD [OF s] nid
    by (auto simp: node_inv_def chan_ok_def list_all_iff FRAME_CHAN_DEPTH_def OUT_CHAN_DEPTH_def RX_CHAN_DEPTH_def)
qed

text \<open>
  (C16) The node implements the router: every step of the node is, seen on the routing tables, an
  ageing tick, the processing of a HELLO or TC, or nothing; and a HELLO or TC is processed only
  when it is the content of a frame that passed verification, was addressed to this node or to
  everybody and had the matching kind.
\<close>

theorem node_refines_router:
  assumes "node_step env ns ns'"
  shows "sh_olsr (ns_shared ns') = sh_olsr (ns_shared ns)
    \<or> (\<exists>ord now. order_ok ord \<and> sh_olsr (ns_shared ns') = aging_tick ord now (sh_olsr (ns_shared ns)))
    \<or> (\<exists>raw meta p rest f nc ord now. ns_frames ns = (raw, meta, p) # rest \<and> order_ok ord
         \<and> parse_and_verify_frame (env_crypto env) raw (sh_pubkeys (ns_shared ns))
             (sh_nonces (ns_shared ns)) now (id_session_key (sh_identity (ns_shared ns))) = (Inr f, nc)
         \<and> deliver_local (id_node (sh_identity (ns_shared ns))) f
         \<and> router_input env f meta ord now (sh_olsr (ns_shared ns)) (sh_olsr (ns_shared ns')))"
  using assms
proof cases
  case (step_rx raw meta p rest io rx s' new)
  then show ?thesis using rx_step_olsr [of env io raw meta "ns_rx ns" "ns_shared ns" rx s' new] by auto
next
  case (step_task before t after io s' new)
  then show ?thesis using run_task_olsr [of env io t "ns_shared ns"] by simp
next
  case (step_sync io rks srcs start_ms conv s')
  then show ?thesis using loops_olsr(2) [of io rks srcs start_ms "ns_converged ns" "ns_shared ns"] by simp
next
  case (step_key io rnd lat lon ev quit u s' outs)
  then show ?thesis using tui_olsr [of io rnd lat lon ev "ns_tui ns" "ns_shared ns"] by simp
qed auto

text \<open>
  (C28) Handling a message terminates. Whatever messages and tasks are pending, and in whatever
  order their rounds run, no more rounds are possible than the weight of the pending tasks: one
  for a plain message, two for an image shard, and for an image request at most three and one per
  chunk of the encoded image.
\<close>

theorem tasks_terminate:
  assumes "task_rounds env k ts s ts' s'"
  shows "k + tasks_weight env (sh_local_image s') ts' \<le> tasks_weight env (sh_local_image s) ts"
  using assms
proof (induction rule: task_rounds.induct)
  case (rounds_Suc k ts s before t after s1 io s2 new)
  then show ?case
    using run_task_weight [OF rounds_Suc.hyps(2)] run_task_local [of env io t s1] by simp
qed simp

end
