(* ===== verification/OlsrScenarios.thy ===== *)
theory OlsrScenarios
  imports OlsrRouting
begin

text \<open>
  What single messages do to the router, the limits of its route computation and of its
  duplicate test, and concrete runs: a two-node exchange and a line of eleven nodes.
\<close>

section \<open>The tables after a HELLO and after a TC\<close>

definition hello_mcs :: "u8 \<Rightarrow> Hello \<Rightarrow> u8" where
  "hello_mcs self hello =
     (case map_of (hello_neighbors hello) self of None \<Rightarrow> 0 | Some q \<Rightarrow> lq_mcs q)"

lemma find_map_of: "find (\<lambda>(k, _). k = x) xs = map_option (Pair x) (map_of xs x)"
  by (induction xs) auto

lemma process_hello_neighbors:
  "hello_sender hello \<noteq> local_id s \<Longrightarrow>
     neighbors (process_hello ord now hello from_link rssi s) = (neighbors s)(hello_sender hello \<mapsto>
       \<lparr>nb_node_id = hello_sender hello,
        link_quality = \<lparr>lq_rssi_dbm = rssi, lq_loss_rate_x100 = 0, lq_mcs = hello_mcs (local_id s) hello\<rparr>,
        last_hello_ms = now, last_seen_neighbors = map fst (hello_neighbors hello)\<rparr>)"
  by (simp add: process_hello_def Let_def hello_mcs_def find_map_of option.map_comp o_def
      unwrap_or_def split: option.splits)

lemma process_hello_tables [simp]:
  "topology (process_hello ord now hello from_link rssi s) = topology s"
  "last_tc_seq (process_hello ord now hello from_link rssi s) = last_tc_seq s"
  by (simp_all add: process_hello_def Let_def)

lemma process_tc_tables [simp]:
  "neighbors (snd (process_tc ord tc from_link s)) = neighbors s"
  "two_hop (snd (process_tc ord tc from_link s)) = two_hop s"
  by (simp_all add: process_tc_def Let_def)

lemma process_tc_accept:
  "should_forward_tc s tc \<Longrightarrow>
     topology (snd (process_tc ord tc from_link s)) =
       (topology s)(tc_sender tc \<mapsto> tc_row (local_id s) (advertised_neighbors tc))
   \<and> last_tc_seq (snd (process_tc ord tc from_link s)) = (last_tc_seq s)(tc_sender tc \<mapsto> tc_seq tc)"
  by (simp add: process_tc_def should_forward_tc_def Let_def)

lemma tc_row_eq: "tc_row self adv = (\<lambda>n. if n = self then None else map_of (rev adv) n)"
proof -
  have "foldl (\<lambda>m (n, q). if n \<noteq> self then m(n \<mapsto> q) else m) m adv n =
      (if n = self then m n else case map_of (rev adv) n of None \<Rightarrow> m n | Some q \<Rightarrow> Some q)" for m n
    by (induction adv arbitrary: m) (auto simp: map_add_def split: option.splits)
  then show ?thesis
    by (auto simp: tc_row_def fun_eq_iff split: option.splits)
qed

lemma add_gateways_eq:
  "foldl (add_gateway s gw) m ns n =
     (if n \<in> fst ` set ns \<and> n \<noteq> local_id s \<and> neighbors s n = None
      then Some (insert gw (unwrap_or (m n) {})) else m n)"
proof (induction ns arbitrary: m)
  case (Cons x ns)
  obtain a b where x: "x = (a, b)" by fastforce
  have step: "add_gateway s gw m x k = (if k = a \<and> a \<noteq> local_id s \<and> neighbors s a = None
      then Some (insert gw (unwrap_or (m k) {})) else m k)" for k
    by (simp add: x add_gateway_def)
  show ?case unfolding foldl_Cons Cons.IH step by (auto simp: x)
qed simp

lemma i8_min: "sint (r :: i8) = -128 \<Longrightarrow> r = -128"
  by (rule signed_word_eqI) simp

section \<open>Properties\<close>

text \<open>
  A HELLO from another node refreshes that node's neighbour entry with the local time, the
  measured signal strength and the rate the sender reports for this node, and rebuilds its
  two-hop contribution exactly: it is a gateway for the nodes it lists that are neither this
  node nor neighbours, and for no others, while the other gateways stay.
\<close>

theorem hello_updates_tables:
  assumes "hello_sender hello \<noteq> local_id s"
  shows "neighbors (process_hello ord now hello from_link rssi s) = (neighbors s)(hello_sender hello \<mapsto>
       \<lparr>nb_node_id = hello_sender hello,
        link_quality = \<lparr>lq_rssi_dbm = rssi, lq_loss_rate_x100 = 0,
                        lq_mcs = (case map_of (hello_neighbors hello) (local_id s) of
                                    None \<Rightarrow> 0 | Some q \<Rightarrow> lq_mcs q)\<rparr>,
        last_hello_ms = now, last_seen_neighbors = map fst (hello_neighbors hello)\<rparr>)
    \<and> (\<forall>k. unwrap_or (two_hop (process_hello ord now hello from_link rssi s) k) {} =
          (unwrap_or (two_hop s k) {} - {hello_sender hello})
          \<union> (if k \<in> fst ` set (hello_neighbors hello) \<and> k \<noteq> local_id s
                 \<and> neighbors s k = None \<and> k \<noteq> hello_sender hello
             then {hello_sender hello} else {}))"
proof -
  have "unwrap_or (gateways_without n m k) {} = unwrap_or (m k) {} - {n}" for n m and k :: u8
    by (auto simp: gateways_without_def retain_def unwrap_or_def split: option.splits)
  then have "unwrap_or (two_hop (process_hello ord now hello from_link rssi s) k) {} =
          (unwrap_or (two_hop s k) {} - {hello_sender hello})
          \<union> (if k \<in> fst ` set (hello_neighbors hello) \<and> k \<noteq> local_id s
                 \<and> neighbors s k = None \<and> k \<noteq> hello_sender hello
             then {hello_sender hello} else {})" for k
    using assms by (auto simp: process_hello_def Let_def add_gateways_eq)
  then show ?thesis
    using process_hello_neighbors [OF assms] by (simp add: hello_mcs_def)
qed

text \<open>
  Progress of TC messages: whatever sequence number was last seen from a node, its TC that
  is between 1 and 65436 numbers later, counted modulo 65536, is accepted, and the topology row
  of the node becomes exactly what the message advertises, without this node.
\<close>

theorem later_tc_accepted:
  assumes "tc_sender tc \<noteq> local_id s" and "last_tc_seq s (tc_sender tc) = Some l"
    and "1 \<le> k" and "k \<le> 65436" and "tc_seq tc = l + of_nat k"
  shows "fst (process_tc ord tc from_link s)
    \<and> topology (snd (process_tc ord tc from_link s)) =
        (topology s)(tc_sender tc \<mapsto>
           (\<lambda>n. if n = local_id s then None else map_of (rev (advertised_neighbors tc)) n))"
proof -
  have l: "unat l < 65536" using unsigned_less [of l, where 'a = nat] by simp
  have sq: "unat (tc_seq tc) = (unat l + k) mod 65536"
    using assms(4) by (simp add: assms(5) unat_word_ariths unat_of_nat take_bit_eq_mod mod_add_right_eq)
  have "\<not> tc_duplicate (tc_seq tc) l"
  proof (cases "unat l + k < 65536")
    case True
    then show ?thesis using sq assms(3) by (simp add: tc_duplicate_def word_le_nat_alt)
  next
    case False
    then have "(unat l + k) mod 65536 = unat l + k - 65536"
      using l assms(4) by (simp add: mod_if)
    then show ?thesis
      using sq False l assms(4)
      by (auto simp: tc_duplicate_def word_le_nat_alt word_less_nat_alt unat_sub)
  qed
  then have fwd: "should_forward_tc s tc"
    using assms(1,2) by (simp add: should_forward_tc_def)
  then show ?thesis
    using process_tc_accept [OF fwd] by (simp add: process_tc_def should_forward_tc_def Let_def tc_row_eq)
qed

text \<open>
  A restarted node is not heard. Ageing a neighbour out keeps the last TC sequence number
  seen from it; when that number is at most 100, all TCs the node sends after a restart, from
  number 1 up to the old number, are dropped and change nothing.
\<close>

theorem restarted_node_ignored:
  assumes "order_ok ord" and "last_tc_seq s n = Some l" and "unat l \<le> 100"
    and "\<forall>tc \<in> set tcs. tc_sender tc = n \<and> 1 \<le> unat (tc_seq tc) \<and> unat (tc_seq tc) \<le> unat l"
  shows "foldl (\<lambda>s tc. snd (process_tc ord tc from_link s)) (aging_tick ord now s) tcs = aging_tick ord now s"
proof -
  have "snd (process_tc ord tc from_link (aging_tick ord now s)) = aging_tick ord now s"
    if "tc \<in> set tcs" for tc
  proof -
    have "tc_duplicate (tc_seq tc) l"
      using assms(3,4) that by (auto simp: tc_duplicate_def word_le_nat_alt word_less_nat_alt unat_sub)
    then show ?thesis
      using assms(2,4) that by (simp add: process_tc_def Let_def aging_tables [OF assms(1)])
  qed
  then show ?thesis by (induction tcs) auto
qed

text \<open>
  The cost of a link is the base of its rate plus ten per percent of loss plus twice the
  signal strength below -30 dBm; at -128 dBm, where the negation of the signed byte wraps, the
  penalty vanishes and the weakest signal is rated like the strongest. The cost is between 50
  and 2844.
\<close>

theorem link_cost_value:
  "unat (link_cost q) = unat (mcs_base (lq_mcs q)) + 10 * unat (lq_loss_rate_x100 q)
     + (if sint (lq_rssi_dbm q) = -128 then 0 else 2 * nat (max (- sint (lq_rssi_dbm q) - 30) 0))
   \<and> 50 \<le> unat (link_cost q) \<and> unat (link_cost q) \<le> 2844"
proof -
  let ?r = "lq_rssi_dbm q"
  have ge: "-128 \<le> sint ?r" and lt: "sint ?r < 128" using sint_ge [of ?r] sint_lt [of ?r] by simp_all
  have "sint (- ?r) = (if sint ?r = -128 then -128 else - sint ?r)"
  proof (cases "sint ?r = -128")
    case True
    then have "?r = -128" by (rule i8_min)
    then show ?thesis by simp
  next
    case False
    have "sint (- ?r) = signed_take_bit 7 (- sint ?r)"
      using sint_word_minus [of ?r] by simp
    also have "\<dots> = - sint ?r" using False ge lt by (intro signed_take_bit_int_eq_self) auto
    finally show ?thesis using False by simp
  qed
  then show ?thesis using unat_link_cost [of q] link_cost_range [of q] by simp
qed

section \<open>A line of eleven nodes\<close>

text \<open>
  Node 1 hears node 2; node \<open>k\<close> advertises node \<open>k + 1\<close>. After nine TC messages node 1 knows a
  route of ten hops to node 11.
\<close>

definition good_link :: LinkQuality where
  "good_link = \<lparr>lq_rssi_dbm = - 30, lq_loss_rate_x100 = 0, lq_mcs = 0\<rparr>"

definition hello_2 :: Hello where
  "hello_2 = \<lparr>hello_sender = 2, hello_neighbors = [], hello_sent_at_ms = 0\<rparr>"

definition line_tc :: "nat \<Rightarrow> Tc" where
  "line_tc k = \<lparr>tc_sender = of_nat k + 2, tc_seq = 1,
                advertised_neighbors = [(of_nat k + 3, good_link)], tc_sent_at_ms = 0\<rparr>"

primrec line_state :: "nat \<Rightarrow> OlsrState" where
  "line_state 0 = process_hello id_order 0 hello_2 2 (- 30) (OlsrState_new 1)"
| "line_state (Suc k) = snd (process_tc id_order (line_tc k) 2 (line_state k))"

lemma line_reach: "olsr_reach 1 (line_state k)"
  by (induction k) (auto intro: olsr_reach.intros id_order_ok)

lemma line_local [simp]: "local_id (line_state k) = 1"
  by (induction k) (simp_all add: OlsrState_new_def)

lemma line_neighbors:
  "neighbors (line_state k) = [2 \<mapsto> \<lparr>nb_node_id = 2, link_quality = good_link, last_hello_ms = 0,
                                 last_seen_neighbors = []\<rparr>]"
  by (induction k)
    (simp_all add: process_hello_neighbors hello_2_def OlsrState_new_def hello_mcs_def good_link_def)

lemma line_step:
  assumes "last_tc_seq (line_state k) (of_nat k + 2) = None" and "of_nat k + 2 \<noteq> (1 :: u8)"
    and "of_nat k + 3 \<noteq> (1 :: u8)"
  shows "topology (line_state (Suc k)) =
      (topology (line_state k))(of_nat k + 2 \<mapsto> [of_nat k + 3 \<mapsto> good_link])"
    and "last_tc_seq (line_state (Suc k)) = (last_tc_seq (line_state k))(of_nat k + 2 \<mapsto> 1)"
    and "routes (line_state (Suc k)) = table_routes id_order (line_state (Suc k))"
proof -
  have fwd: "should_forward_tc (line_state k) (line_tc k)"
    using assms by (simp add: should_forward_tc_def line_tc_def tc_duplicate_def)
  from process_tc_accept [OF this, of id_order 2] show
    "topology (line_state (Suc k)) =
      (topology (line_state k))(of_nat k + 2 \<mapsto> [of_nat k + 3 \<mapsto> good_link])"
    "last_tc_seq (line_state (Suc k)) = (last_tc_seq (line_state k))(of_nat k + 2 \<mapsto> 1)"
    using assms(3) by (auto simp: line_tc_def tc_row_eq fun_eq_iff)
  show "routes (line_state (Suc k)) = table_routes id_order (line_state (Suc k))"
    using fwd routes_recompute by (simp add: process_tc_def should_forward_tc_def Let_def)
qed

lemma line_tables:
  "k \<le> 200 \<Longrightarrow>
     topology (line_state k) = (\<lambda>u. if 2 \<le> unat u \<and> unat u < k + 2 then Some [u + 1 \<mapsto> good_link] else None)
   \<and> last_tc_seq (line_state k) = (\<lambda>u. if 2 \<le> unat u \<and> unat u < k + 2 then Some 1 else None)"
proof (induction k)
  case 0
  then show ?case by (auto simp: OlsrState_new_def fun_eq_iff)
next
  case (Suc k)
  let ?u = "of_nat k + 2 :: u8"
  have u: "unat ?u = k + 2" "unat (of_nat k + 3 :: u8) = k + 3"
    using Suc.prems by (simp_all add: unat_word_ariths)
  have eq: "unat x = k + 2 \<longleftrightarrow> x = ?u" for x
    using u(1) by (metis unsigned_word_eqI)
  have "unat ?u \<noteq> unat (1 :: u8)" "unat (of_nat k + 3 :: u8) \<noteq> unat (1 :: u8)" unfolding u by simp_all
  then have "?u \<noteq> 1" "of_nat k + 3 \<noteq> (1 :: u8)" by metis+
  moreover have "last_tc_seq (line_state k) ?u = None" using Suc u by simp
  ultimately have T: "topology (line_state (Suc k)) = (topology (line_state k))(?u \<mapsto> [of_nat k + 3 \<mapsto> good_link])"
    and Q: "last_tc_seq (line_state (Suc k)) = (last_tc_seq (line_state k))(?u \<mapsto> 1)"
    using line_step by blast+
  have range: "2 \<le> unat x \<and> unat x < Suc k + 2 \<longleftrightarrow> x = ?u \<or> 2 \<le> unat x \<and> unat x < k + 2" for x
    using eq [of x] by auto
  have "?u + 1 = of_nat k + 3" by simp
  with Suc show ?case
    unfolding T Q range by (auto simp: fun_eq_iff)
qed

lemma entries_none: "\<forall>x \<in> set ks. m x = None \<Longrightarrow> entries ks m = []"
  by (induction ks) auto

lemma entries_single: "distinct ks \<Longrightarrow> k \<in> set ks \<Longrightarrow> entries ks [k \<mapsto> v] = [(k, v)]"
proof (induction ks)
  case (Cons a ks)
  have none: "k \<notin> set ks \<Longrightarrow> entries ks [k \<mapsto> v] = []" by (intro entries_none) auto
  show ?case
  proof (cases "a = k")
    case True
    then have "k \<notin> set ks" using Cons.prems by simp
    from none [OF this] show ?thesis unfolding True entries_Cons by simp
  next
    case False
    have "entries ks [k \<mapsto> v] = [(k, v)]" by (rule Cons.IH) (use Cons.prems False in auto)
    moreover have "[k \<mapsto> v] a = None" using False by simp
    ultimately show ?thesis unfolding entries_Cons by (simp only: option.case)
  qed
qed simp

lemma id_order_single [simp]: "entries (id_order u) [k \<mapsto> v] = [(k, v)]"
  using id_order_ok by (intro entries_single) (auto simp: order_ok_def)

lemma line_edges:
  "edges id_order (line_state 9) = (\<lambda>u. if 1 \<le> u \<and> u \<le> 10 then [(u + 1, 100)] else [])"
proof
  fix u :: u8
  have "link_cost good_link = 100"
    by (simp add: link_cost_def good_link_def mcs_base_def Let_def)
  moreover have "1 \<le> u \<and> u \<le> 10 \<longleftrightarrow> u = 1 \<or> 2 \<le> unat u \<and> unat u < 11"
  proof -
    have "u = 1 \<longleftrightarrow> unat u = 1" by (metis unsigned_1 unsigned_word_eqI)
    then show ?thesis unfolding word_le_nat_alt by auto
  qed
  ultimately show "edges id_order (line_state 9) u = (if 1 \<le> u \<and> u \<le> 10 then [(u + 1, 100)] else [])"
    by (auto simp: edges_def line_neighbors line_tables)
qed

lemma line_search:
  "let r = shortest (edges id_order (line_state 9)) 1 in
   sr_dist r 11 = Some 1000 \<and> walk_back (sr_prev r) 1 11 0 = (3, 8)"
proof -
  have hops: "\<not> (8 :: u8) \<le> 1" by (simp add: word_le_nat_alt)
  show ?thesis
  unfolding line_edges
  by (simp add: hops shortest_def search_init_def search_loop.simps heap_push_def heap_pop_def relax_def
      saturating_add_def u32_MAX_def walk_back.simps OLSR_MAX_HOPS_def Let_def)
qed

text \<open>
  (C38) The eight-hop limit of the walk back breaks longer routes. In a line of eleven nodes,
  which node 1 reaches by one HELLO and nine TC messages, the destination ten hops away has a
  route entry whose hop count is 8 and whose next hop, node 3, is not a neighbour of node 1.
\<close>

theorem ten_hop_next_hop_not_neighbor:
  "olsr_reach 1 (line_state 9)
   \<and> (\<exists>r. route_to (line_state 9) 11 = Some r \<and> route_cost r = 1000 \<and> hop_count r = 8
        \<and> next_hop r = 3 \<and> neighbors (line_state 9) 3 = None)"
proof -
  have "routes (line_state (Suc 8)) = table_routes id_order (line_state (Suc 8))"
    by (rule line_step(3)) (simp_all add: line_tables)
  then have "routes (line_state 9) = table_routes id_order (line_state 9)"
    by (simp add: numeral_eq_Suc)
  then show ?thesis
    using line_search line_reach
    by (auto simp: route_to_def table_routes_Some Let_def line_neighbors)
qed

section \<open>Witnesses\<close>

lemma line_0_edges: "edges id_order (line_state 0) 1 = [(2, 100)]"
proof -
  have "link_cost good_link = 100"
    by (simp add: link_cost_def good_link_def mcs_base_def Let_def)
  then show ?thesis
    unfolding edges_def line_neighbors by (simp del: line_state.simps)
qed

lemma line_0_walk: "walk (edges id_order (line_state 0)) 1 2 100 1"
  using walk_edge [of 2 100 "edges id_order (line_state 0)" 1] by (simp add: line_0_edges del: line_state.simps)

lemma line_0_route: "\<exists>r. route_to (line_state 0) 2 = Some r"
proof -
  obtain o' where o': "order_ok o'" "routes (line_state 0) = table_routes o' (line_state 0)"
    using reach_routes [OF line_reach] by blast
  have "walk (edges o' (line_state 0)) 1 2 100 1"
    using walk_order [OF id_order_ok o'(1) line_0_walk] .
  then have "table_routes o' (line_state 0) 2 \<noteq> None"
    using table_route_None [of o' "line_state 0" 2] by (auto simp del: line_state.simps)
  then show ?thesis by (simp add: route_to_def o'(2) del: line_state.simps)
qed

theorem routes_are_least_cost_witness:
  "\<exists>r. route_to (line_state 0) 2 = Some r \<and> destination r = 2 \<and> unat (route_cost r) \<le> 100"
  using routes_are_least_cost [OF line_reach [of 0] id_order_ok, of 2] line_0_walk line_0_route by blast

theorem route_next_hop_correct_witness:
  "\<exists>r n. route_to (line_state 0) 2 = Some r
     \<and> walk (edges id_order (line_state 0)) 1 2 (unat (route_cost r)) (Suc n)
     \<and> unat (hop_count r) = min 8 (Suc n)"
proof -
  obtain r where r: "route_to (line_state 0) 2 = Some r" using line_0_route ..
  from route_next_hop_correct [OF line_reach r id_order_ok] r show ?thesis by blast
qed

theorem tables_consistent_witness:
  "neighbors (line_state 9) 1 = None
   \<and> (\<exists>m. topology (line_state 9) 2 = Some m \<and> m 1 = None \<and> last_tc_seq (line_state 9) 2 \<noteq> None)"
proof -
  have "\<exists>m. topology (line_state 9) 2 = Some m" by (simp add: line_tables)
  with tables_consistent [OF line_reach [of 9]] show ?thesis by blast
qed

theorem aging_removes_exactly_stale_witness:
  "neighbors (aging_tick id_order 3000 (line_state 0)) 2 \<noteq> None
   \<and> neighbors (aging_tick id_order 3001 (line_state 0)) 2 = None"
proof -
  note aged = aging_removes_exactly_stale [OF line_reach [of 0] id_order_ok, THEN conjunct1, rule_format]
  show ?thesis unfolding aged line_neighbors by simp
qed

theorem tc_processed_once_witness:
  "should_forward_tc (line_state 0) (line_tc 0)
   \<and> \<not> should_forward_tc (snd (process_tc id_order (line_tc 0) 2 (line_state 0))) (line_tc 0)"
proof -
  have "should_forward_tc (line_state 0) (line_tc 0)"
    by (simp add: should_forward_tc_def line_tc_def tc_duplicate_def OlsrState_new_def)
  moreover from this tc_processed_once [of "line_state 0" "line_tc 0" id_order 2]
  have "\<not> should_forward_tc (snd (process_tc id_order (line_tc 0) 2 (line_state 0))) (line_tc 0)"
    by (auto simp del: line_state.simps)
  ultimately show ?thesis ..
qed

theorem hello_updates_tables_witness:
  "unwrap_or (two_hop (process_hello id_order 5 \<lparr>hello_sender = 4, hello_neighbors = [(9, good_link)],
       hello_sent_at_ms = 0\<rparr> 4 (- 40) (OlsrState_new 1)) 9) {} = {4}"
  using hello_updates_tables [of "\<lparr>hello_sender = 4, hello_neighbors = [(9, good_link)],
       hello_sent_at_ms = 0\<rparr>" "OlsrState_new 1" id_order 5 4 "- 40"]
  by (simp add: OlsrState_new_def)

theorem later_tc_accepted_witness:
  "fst (process_tc id_order \<lparr>tc_sender = 2, tc_seq = 0, advertised_neighbors = [], tc_sent_at_ms = 0\<rparr> 2
         ((OlsrState_new 1)\<lparr>last_tc_seq := [2 \<mapsto> 65535]\<rparr>))"
  using later_tc_accepted [of "\<lparr>tc_sender = 2, tc_seq = 0, advertised_neighbors = [], tc_sent_at_ms = 0\<rparr>"
      "(OlsrState_new 1)\<lparr>last_tc_seq := [2 \<mapsto> 65535]\<rparr>" 65535 1 id_order 2]
  by (simp add: OlsrState_new_def)

theorem restarted_node_ignored_witness:
  "snd (process_tc id_order \<lparr>tc_sender = 2, tc_seq = 1, advertised_neighbors = [], tc_sent_at_ms = 0\<rparr> 2
          (aging_tick id_order 9999 ((OlsrState_new 1)\<lparr>last_tc_seq := [2 \<mapsto> 50]\<rparr>)))
   = aging_tick id_order 9999 ((OlsrState_new 1)\<lparr>last_tc_seq := [2 \<mapsto> 50]\<rparr>)"
  using restarted_node_ignored [OF id_order_ok, of "(OlsrState_new 1)\<lparr>last_tc_seq := [2 \<mapsto> 50]\<rparr>" 2 50
      "[\<lparr>tc_sender = 2, tc_seq = 1, advertised_neighbors = [], tc_sent_at_ms = 0\<rparr>]" 2 9999]
  by simp

end
