(* ===== verification/Discovery.thy ===== *)
theory Discovery
  imports NodeMachine OlsrScenarios
begin

text \<open>
  A HELLO on its way from one node to another through every layer: the router of the sender, the
  frame, the packet of the radio backend, the reader and the channel of the receiver's link, the
  receive loop, and the receiver's router.
\<close>

section \<open>Lemmas\<close>

lemma hello_route:
  assumes "hello_sender hello \<noteq> local_id os" and "order_ok ord"
  shows "\<exists>r e. neighbors (process_hello ord now hello from_link rssi os) (hello_sender hello) = Some e
    \<and> last_hello_ms e = now \<and> lq_rssi_dbm (link_quality e) = rssi
    \<and> route_to (process_hello ord now hello from_link rssi os) (hello_sender hello) = Some r
    \<and> unat (route_cost r) \<le> unat (link_cost (link_quality e))"
proof -
  let ?s = "process_hello ord now hello from_link rssi os" and ?n = "hello_sender hello"
  obtain e where e: "neighbors ?s ?n = Some e" "last_hello_ms e = now" "lq_rssi_dbm (link_quality e) = rssi"
    by (simp add: process_hello_neighbors [OF assms(1)])
  then have "(?n, link_cost (link_quality e)) \<in> set (edges ord ?s (local_id ?s))"
    using set_edges_local [OF assms(2)] by blast
  from walk_edge [where E = "edges ord ?s", OF this]
  have walk: "walk (edges ord ?s) (local_id ?s) ?n (unat (link_cost (link_quality e))) 1" .
  have routes: "routes ?s = table_routes ord ?s"
    using assms(1) routes_recompute by (simp add: process_hello_def Let_def)
  then obtain r where "table_routes ord ?s ?n = Some r"
    using table_route_None [of ord ?s ?n] walk assms(1) by fastforce
  with table_route_least(3) [OF this walk] e routes show ?thesis by (auto simp: route_to_def)
qed

lemma hello_dispatched:
  assumes "codec_ok (ser_olsr env) (de_olsr env)" and "ser_olsr env (OlsrMessage_Hello hello) = Inr p"
    and "can_receive env ioa 0 a (io_now iob) b"
  shows "\<exists>rx' b'. rx_step env iob
       (build_frame_inner (env_crypto env) (fst (io_frame ioa 0)) (snd (io_frame ioa 0))
          \<lparr>kind = OlsrHello, payload = p\<rparr> High BROADCAST (sh_identity a) lh hops) meta rx b = (rx', b', [])
     \<and> sh_olsr b' = process_hello (io_ord iob) (io_now iob) hello (id_node (sh_identity a)) (rssi_dbm meta) (sh_olsr b)"
proof -
  let ?msg = "\<lparr>kind = OlsrHello, payload = p\<rparr>"
  let ?f = "parsed_built env ioa 0 a ?msg High BROADCAST lh hops"
  obtain nc where nc: "parse_and_verify_frame (env_crypto env)
      (build_frame_inner (env_crypto env) (fst (io_frame ioa 0)) (snd (io_frame ioa 0)) ?msg High BROADCAST
         (sh_identity a) lh hops) (sh_pubkeys b) (sh_nonces b) (io_now iob)
      (id_session_key (sh_identity b)) = (Inr ?f, nc)"
    using can_receive_parse [OF assms(3)] .
  let ?s1 = "rx_relay env iob ?f (b\<lparr>sh_nonces := nc\<rparr>)"
  let ?os = "process_hello (io_ord iob) (io_now iob) hello (id_node (sh_identity a)) (rssi_dbm meta) (sh_olsr b)"
  have disp: "rx_dispatch env iob (rssi_dbm meta) ?f ?s1 = (?s1\<lparr>sh_olsr := ?os\<rparr>, [])"
    using codec_okD [OF assms(1,2)] by (simp add: rx_dispatch_def)
  have deliver: "deliver_local n ?f" for n by (simp add: deliver_local_def)
  obtain rx' b' where jam: "rx_jam_check env iob
      (rx\<lparr>jam_window := jw_record (jam_window rx) High (io_now iob)\<rparr>) (?s1\<lparr>sh_olsr := ?os\<rparr>) = (rx', b')" by fastforce
  have "sh_olsr b' = ?os"
    using jam_check_olsr [of env iob "rx\<lparr>jam_window := jw_record (jam_window rx) High (io_now iob)\<rparr>"
        "?s1\<lparr>sh_olsr := ?os\<rparr>"] unfolding jam by simp
  moreover have "rx_step env iob (build_frame_inner (env_crypto env) (fst (io_frame ioa 0)) (snd (io_frame ioa 0))
      ?msg High BROADCAST (sh_identity a) lh hops) meta rx b = (rx', b', [])"
    using nc disp jam deliver by (simp add: rx_step_def Let_def)
  ultimately show ?thesis by blast
qed

section \<open>Properties\<close>

text \<open>
  (C9) Neighbour discovery works across all layers. When one node's HELLO timer fires, the packet
  on the air is what a reader of another node on the same stream decodes; it passes that node's
  filters into the receive channel, is taken from there and verified by the receive loop, and
  afterwards the second node has the first as a neighbour, with the local time and the measured
  signal strength, and a route to it that costs no more than the direct link.
\<close>

theorem hello_discovers_neighbor:
  assumes "codec_ok (ser_olsr env) (de_olsr env)"
    and "hello_tick (env_crypto env) (ser_olsr env) ord (fst (io_frame ioa 0)) (snd (io_frame ioa 0)) ok
           (sh_identity a) (sh_olsr a) (sh_link a) = (Some pkt, la)"
    and "local_id (sh_olsr a) = id_node (sh_identity a)" and "local_id (sh_olsr b) = id_node (sh_identity b)"
    and "id_node (sh_identity a) \<noteq> id_node (sh_identity b)" and "node_id (sh_link b) = id_node (sh_identity b)"
    and "rx_stream_id reader = tx_stream_id (tx (sh_link a) High)"
    and "allow_list (sh_link b) = None" and "rx_chans (sh_link b) High = []"
    and "can_receive env ioa 0 a (io_now iob) b" and "order_ok (io_ord iob)"
  shows "\<exists>frame d meta l rx' b' e r.
       recv_timeout reader [Datagram pkt] = Some (Inr (Some frame), [])
     \<and> LinkAdapter_recv (LinkAdapter_deliver (sh_link b) High frame) High = Some ((d, meta), l)
     \<and> rx_step env iob d meta rx (set_link b l) = (rx', b', [])
     \<and> neighbors (sh_olsr b') (id_node (sh_identity a)) = Some e
     \<and> last_hello_ms e = io_now iob \<and> lq_rssi_dbm (link_quality e) = - 60
     \<and> route_to (sh_olsr b') (id_node (sh_identity a)) = Some r
     \<and> unat (route_cost r) \<le> unat (link_cost (link_quality e))"
proof -
  let ?now = "fst (io_frame ioa 0)"
  let ?hello = "make_hello ord ?now (sh_olsr a)" and ?t = "tx (sh_link a) High"
  have sender: "hello_sender ?hello = id_node (sh_identity a)" using assms(3) by (simp add: make_hello_def)
  obtain p where p: "ser_olsr env (OlsrMessage_Hello ?hello) = Inr p"
    using assms(2) by (auto simp: hello_tick_def send_olsr_def split: sum.splits)
  let ?raw = "build_frame_inner (env_crypto env) ?now (snd (io_frame ioa 0)) \<lparr>kind = OlsrHello, payload = p\<rparr>
      High BROADCAST (sh_identity a) (id_node (sh_identity a)) 0"
  have pkt: "pkt = Tx_packet ?t ?raw"
    using assms(2) p
    by (auto simp: hello_tick_def send_olsr_def LinkAdapter_send_def Tx_send_def build_frame_def Let_def)
  let ?frame = "\<lparr>frame_data = ?raw, frame_rssi_dbm = - 60, frame_stream_id = tx_stream_id ?t, frame_seq = tx_seq ?t\<rparr>"
  let ?meta = "\<lparr>rssi_dbm = - 60, stream_id = tx_stream_id ?t, seq = tx_seq ?t\<rparr>"
  have radio: "recv_timeout reader [Datagram pkt] = Some (Inr (Some ?frame), [])"
    unfolding pkt by (rule recv_own_packet [OF assms(7)])
  have "rx_chans (LinkAdapter_deliver (sh_link b) High ?frame) High = [(?raw, ?meta)]"
    using assms(5,6,8,9)
    by (auto simp: LinkAdapter_deliver_def reader_deliver_def own_frame_built filtered_out_def try_send_def RX_CHAN_DEPTH_def)
  then obtain l where link: "LinkAdapter_recv (LinkAdapter_deliver (sh_link b) High ?frame) High = Some ((?raw, ?meta), l)"
    by (simp add: LinkAdapter_recv_def)
  have "can_receive env ioa 0 a (io_now iob) (set_link b l)"
    using assms(10) by (simp add: can_receive_def set_link_def)
  from hello_dispatched [OF assms(1) p this, of "id_node (sh_identity a)" 0 ?meta rx]
  obtain rx' b' where "rx_step env iob ?raw ?meta rx (set_link b l) = (rx', b', [])"
    and "sh_olsr b' = process_hello (io_ord iob) (io_now iob) ?hello (id_node (sh_identity a)) (- 60) (sh_olsr b)"
    by auto
  moreover have "hello_sender ?hello \<noteq> local_id (sh_olsr b)" using sender assms(4,5) by simp
  ultimately show ?thesis
    using radio link hello_route [of ?hello "sh_olsr b" "io_ord iob" "io_now iob" "id_node (sh_identity a)" "- 60"]
      assms(11) sender by fastforce
qed

end
