(* ===== verification/ImageTransfer.thy ===== *)
theory ImageTransfer
  imports Behaviour
begin

text \<open>
  An image on its way from the node that serves it to the node that asked: the request handler,
  the shards in the bulk queue, and the receive loop, handlers and image cache of the requester.
\<close>

section \<open>The sender\<close>

text \<open>A task and the continuations it returns, one round per element of \<open>ios\<close>.\<close>

fun run_chain :: "node_env \<Rightarrow> step_io list \<Rightarrow> task \<Rightarrow> Shared \<Rightarrow> Shared option" where
  "run_chain env [] t s = None"
| "run_chain env (io # ios) t s =
     (case run_task env io t s of
        (s', []) \<Rightarrow> Some s'
      | (s', t' # _) \<Rightarrow> run_chain env ios t' s')"

text \<open>The address and the next hop of the answer, and the frame of one shard.\<close>

definition reply_to :: "Shared \<Rightarrow> u8 \<Rightarrow> u8 \<times> u8" where
  "reply_to s requester =
     (case route_to (sh_olsr s) requester of
        Some r \<Rightarrow> (requester, next_hop r)
      | None \<Rightarrow> (BROADCAST, id_node (sh_identity s)))"

definition data_frame :: "node_env \<Rightarrow> step_io \<Rightarrow> nat \<Rightarrow> Identity \<Rightarrow> bytes \<Rightarrow> Priority \<Rightarrow> u8 \<times> u8 \<Rightarrow> bytes" where
  "data_frame env io k i p prio = (\<lambda>(dst, lh).
     build_frame_inner (env_crypto env) (fst (io_frame io k)) (snd (io_frame io k))
       \<lparr>kind = Data, payload = p\<rparr> prio dst i lh 0)"

lemma send_shard_eq:
  "send_shard env io req k p s =
     sh_enqueue s (data_frame env io k (sh_identity s) p Bulk (reply_to s (ri_requester req))) Bulk"
  by (simp add: send_shard_def data_frame_def reply_to_def Let_def frame_builders split: option.splits)

lemma sh_lane_log [simp]: "sh_lane (log_line s m) = sh_lane s"
  by (simp add: sh_lane_def fun_eq_iff)

text \<open>What sending leaves alone.\<close>

definition same_sender :: "Shared \<Rightarrow> Shared \<Rightarrow> bool" where
  "same_sender s s' \<longleftrightarrow> sh_identity s' = sh_identity s \<and> sh_olsr s' = sh_olsr s
     \<and> queues_ok (queues (sh_sched s'))"

lemma same_sender_reply: "same_sender s s' \<Longrightarrow> reply_to s' n = reply_to s n"
  by (auto simp: same_sender_def reply_to_def split: option.splits)

lemma same_sender_trans: "same_sender s s1 \<Longrightarrow> same_sender s1 s2 \<Longrightarrow> same_sender s s2"
  by (simp add: same_sender_def)

text \<open>The frames of the shards from \<open>b\<close> on that one burst queues.\<close>

lemma send_burst_frames:
  assumes "queues_ok (queues (sh_sched s))"
    and "\<And>j. j < length cs \<Longrightarrow> ser_app env (Msg_ImageShard (shard_of req n (b + j) (cs ! j))) = Inr (pay (b + j))"
    and "send_burst env io req n b cs s = (s', r)"
  shows "\<exists>m \<le> length cs. same_sender s s'
     \<and> sh_lane s' = (sh_lane s)(Bulk := sh_lane s Bulk @
         map (\<lambda>k. data_frame env io k (sh_identity s) (pay k) Bulk (reply_to s (ri_requester req))) [b..<b + m])
     \<and> (r = None \<and> m = length cs \<or> r = Some (b + m, drop m cs) \<and> 0 < m)"
  using assms
proof (induction cs arbitrary: b s)
  case Nil
  then show ?case by (auto simp: same_sender_def intro!: exI [of _ 0])
next
  case (Cons data rest)
  let ?fr = "\<lambda>k. data_frame env io k (sh_identity s) (pay k) Bulk (reply_to s (ri_requester req))"
  let ?s1 = "sh_enqueue s (?fr b) Bulk"
  have p: "ser_app env (Msg_ImageShard (shard_of req n b data)) = Inr (pay b)"
    using Cons.prems(2) [of 0] by simp
  have one: "sh_lane ?s1 = (sh_lane s)(Bulk := sh_lane s Bulk @ [?fr b])" and same: "same_sender s ?s1"
    using Cons.prems(1) by (simp_all add: sh_lane_enqueue same_sender_def)
  show ?case
  proof (cases "(b + 1) mod BURST = 0")
    case True
    then have "s' = ?s1" and "r = Some (b + 1, rest)"
      using Cons.prems(3) p by (simp_all add: send_shard_eq)
    then show ?thesis using one same by (intro exI [of _ 1]) simp
  next
    case False
    then have next_: "send_burst env io req n (b + 1) rest ?s1 = (s', r)"
      using Cons.prems(3) p by (simp add: send_shard_eq)
    have "ser_app env (Msg_ImageShard (shard_of req n (b + 1 + j) (rest ! j))) = Inr (pay (b + 1 + j))"
      if "j < length rest" for j
      using Cons.prems(2) [of "Suc j"] that by simp
    moreover have "queues_ok (queues (sh_sched ?s1))" using Cons.prems(1) by simp
    ultimately obtain m where m: "m \<le> length rest" "same_sender ?s1 s'"
      "sh_lane s' = (sh_lane ?s1)(Bulk := sh_lane ?s1 Bulk @
         map (\<lambda>k. data_frame env io k (sh_identity ?s1) (pay k) Bulk (reply_to ?s1 (ri_requester req))) [b + 1..<b + 1 + m])"
      "r = None \<and> m = length rest \<or> r = Some (b + 1 + m, drop m rest) \<and> 0 < m"
      using Cons.IH [OF _ _ next_] by blast
    have "[b..<b + Suc m] = b # [b + 1..<b + 1 + m]" by (simp add: upt_conv_Cons del: upt_Suc)
    then have "sh_lane s' = (sh_lane s)(Bulk := sh_lane s Bulk @ map ?fr [b..<b + Suc m])"
      using m(3) one same_sender_reply [OF same] by (simp del: upt_Suc)
    then show ?thesis
      using m same_sender_trans [OF same m(2)] by (intro exI [of _ "Suc m"]) auto
  qed
qed

text \<open>All bursts together: enough rounds queue every shard once, in order.\<close>

lemma run_chain_frames:
  assumes "queues_ok (queues (sh_sched s))"
    and "\<And>j. j < length cs \<Longrightarrow> ser_app env (Msg_ImageShard (shard_of req n (b + j) (cs ! j))) = Inr (pay (b + j))"
    and "length cs < length ios"
  shows "\<exists>s' f. run_chain env ios (Task_SendShards req n b cs dims) s = Some s'
     \<and> (\<forall>k. f k \<in> set ios)
     \<and> sh_lane s' Bulk = sh_lane s Bulk @
         map (\<lambda>k. data_frame env (f k) k (sh_identity s) (pay k) Bulk (reply_to s (ri_requester req)))
           [b..<b + length cs]"
  using assms
proof (induction ios arbitrary: b cs s)
  case (Cons io ios)
  obtain w h len where dims: "dims = (w, h, len)" by (rule prod_cases3)
  obtain s1 r where burst: "send_burst env io req n b cs s = (s1, r)" by fastforce
  let ?fr = "\<lambda>io k. data_frame env io k (sh_identity s) (pay k) Bulk (reply_to s (ri_requester req))"
  from send_burst_frames [OF Cons.prems(1,2) burst] obtain m where m: "m \<le> length cs" "same_sender s s1"
    "sh_lane s1 = (sh_lane s)(Bulk := sh_lane s Bulk @ map (?fr io) [b..<b + m])"
    "r = None \<and> m = length cs \<or> r = Some (b + m, drop m cs) \<and> 0 < m" by blast
  from m(4) show ?case
  proof
    assume "r = None \<and> m = length cs"
    then show ?thesis
      using m(3) burst
      by (intro exI [of _ "fst (run_task env io (Task_SendShards req n b cs dims) s)"] exI [of _ "\<lambda>_. io"])
        (simp add: send_shards_def dims)
  next
    assume r: "r = Some (b + m, drop m cs) \<and> 0 < m"
    have ok: "queues_ok (queues (sh_sched s1))" using m(2) by (simp add: same_sender_def)
    have "ser_app env (Msg_ImageShard (shard_of req n (b + m + j) (drop m cs ! j))) = Inr (pay (b + m + j))"
      if "j < length (drop m cs)" for j
      using Cons.prems(2) [of "m + j"] that by (simp add: add.assoc)
    moreover have "length (drop m cs) < length ios" using r Cons.prems(3) m(1) by auto
    ultimately obtain s' f where rest:
      "run_chain env ios (Task_SendShards req n (b + m) (drop m cs) dims) s1 = Some s'" "\<forall>k. f k \<in> set ios"
      "sh_lane s' Bulk = sh_lane s1 Bulk @
         map (\<lambda>k. data_frame env (f k) k (sh_identity s1) (pay k) Bulk (reply_to s1 (ri_requester req)))
           [b + m..<b + m + length (drop m cs)]"
      using Cons.IH [OF ok] by blast
    let ?g = "\<lambda>k. if k < b + m then io else f k"
    have "map (\<lambda>k. ?fr (?g k) k) [b..<b + length cs] =
        map (?fr io) [b..<b + m] @ map (\<lambda>k. ?fr (f k) k) [b + m..<b + length cs]"
      using upt_add_eq_append [of b "b + m" "length cs - m"] m(1) by simp
    moreover have "sh_identity s1 = sh_identity s" using m(2) by (simp add: same_sender_def)
    ultimately have "sh_lane s' Bulk = sh_lane s Bulk @ map (\<lambda>k. ?fr (?g k) k) [b..<b + length cs]"
      using rest(3) m(1,3) same_sender_reply [OF m(2)] by simp
    moreover have "run_chain env (io # ios) (Task_SendShards req n b cs dims) s = Some s'"
      using rest(1) burst r by (simp add: send_shards_def dims)
    moreover have "\<forall>k. ?g k \<in> set (io # ios)" using rest(2) by simp
    ultimately show ?thesis by (intro exI [of _ s'] exI [of _ ?g]) simp
  qed
qed simp

section \<open>The receiver\<close>

text \<open>A round of the receive loop and the handler task that it spawns.\<close>

definition rx_and_handle ::
  "node_env \<Rightarrow> RxMeta \<Rightarrow> RxState \<times> Shared \<Rightarrow> step_io \<times> bytes \<Rightarrow> RxState \<times> Shared" where
  "rx_and_handle env meta = (\<lambda>(rx, s) (io, raw).
     case rx_step env io raw meta rx s of
       (rx', s', ts) \<Rightarrow> (rx', foldl (\<lambda>s t. fst (run_task env io t s)) s' ts))"

definition receive_all ::
  "node_env \<Rightarrow> RxMeta \<Rightarrow> RxState \<times> Shared \<Rightarrow> (step_io \<times> bytes) list \<Rightarrow> RxState \<times> Shared" where
  "receive_all env meta = foldl (rx_and_handle env meta)"

lemma jam_alert_fields [simp]:
  "sh_images (handle_jam_alert io ja s) = sh_images s" "sh_nonces (handle_jam_alert io ja s) = sh_nonces s"
  "sh_identity (handle_jam_alert io ja s) = sh_identity s" "sh_pubkeys (handle_jam_alert io ja s) = sh_pubkeys s"
  by (simp_all add: handle_jam_alert_def handle_channel_hop_def Let_def)

lemma jam_check_fields [simp]:
  "sh_images (snd (rx_jam_check env io rx s)) = sh_images s"
  "sh_nonces (snd (rx_jam_check env io rx s)) = sh_nonces s"
  "sh_identity (snd (rx_jam_check env io rx s)) = sh_identity s"
  "sh_pubkeys (snd (rx_jam_check env io rx s)) = sh_pubkeys s"
  by (auto simp: rx_jam_check_def jam_respond_def Let_def split: sum.splits)

lemma image_shard_fields:
  "sh_images (fst (handle_image_shard sh s)) = snd (insert_shard (sh_images s) sh)"
  "sh_nonces (fst (handle_image_shard sh s)) = sh_nonces s"
  "sh_identity (fst (handle_image_shard sh s)) = sh_identity s"
  "sh_pubkeys (fst (handle_image_shard sh s)) = sh_pubkeys s"
  by (auto simp: handle_image_shard_def Let_def split: prod.splits option.splits)

text \<open>The triple under which the receiver records the \<open>k\<close>-th frame.\<close>

definition io_key :: "u8 \<Rightarrow> step_io \<Rightarrow> nat \<Rightarrow> nonce_key" where
  "io_key src io k =
     (src, fst (io_frame io k), snd (build_nonce (snd (io_frame io k)) src (fst (io_frame io k))))"

lemma parse_keeps_unseen:
  assumes "parse_and_verify_frame C raw ks nc now key = (Inr f, nc')" and "k \<noteq> frame_key (auth f)"
    and "seen nc k = None"
  shows "seen nc' k = None"
  using parse_accept(3) [OF assms(1)] assms(2,3)
  by (auto simp: nonce_check_def frame_key_def check_accept retain_def split: prod.splits option.splits)

lemma shard_received:
  assumes "codec_ok (ser_app env) (de_app env)" and "ser_app env (Msg_ImageShard sh) = Inr p"
    and "can_receive env ios k a (io_now io) b"
    and "fst to = id_node (sh_identity b) \<or> fst to = BROADCAST"
    and "rx_and_handle env meta (rx, b) (io, data_frame env ios k (sh_identity a) p Bulk to) = (rx', b')"
  shows "sh_images b' = snd (insert_shard (sh_images b) sh)"
    and "sh_identity b' = sh_identity b" and "sh_pubkeys b' = sh_pubkeys b"
    and "\<And>key. key \<noteq> io_key (id_node (sh_identity a)) ios k \<Longrightarrow> seen (sh_nonces b) key = None
           \<Longrightarrow> seen (sh_nonces b') key = None"
proof -
  obtain dst lh where to: "to = (dst, lh)" by fastforce
  let ?msg = "\<lparr>kind = Data, payload = p\<rparr>"
  let ?f = "parsed_built env ios k a ?msg Bulk dst lh 0"
  let ?raw = "data_frame env ios k (sh_identity a) p Bulk to"
  obtain nc where nc: "parse_and_verify_frame (env_crypto env) ?raw (sh_pubkeys b) (sh_nonces b) (io_now io)
      (id_session_key (sh_identity b)) = (Inr ?f, nc)"
    using can_receive_parse [OF assms(3)] unfolding data_frame_def to prod.case by blast
  have local: "deliver_local (id_node (sh_identity b)) ?f"
    using assms(4) to by (auto simp: deliver_local_def)
  have disp: "rx_dispatch env io r ?f s = (s, [Task_Tactical (Msg_ImageShard sh) (id_node (sh_identity a))])" for r s
    using codec_okD [OF assms(1,2)] by (simp add: rx_dispatch_def)
  let ?s1 = "rx_relay env io ?f (b\<lparr>sh_nonces := nc\<rparr>)"
  obtain rx1 where "b' = fst (handle_image_shard sh (snd (rx_jam_check env io rx1 ?s1)))"
    using assms(5) local disp nc
    by (auto simp: rx_and_handle_def rx_step_def handle_tactical_def Let_def split: prod.splits) (metis snd_conv)
  then show "sh_images b' = snd (insert_shard (sh_images b) sh)" "sh_identity b' = sh_identity b"
    "sh_pubkeys b' = sh_pubkeys b"
    and nonces: "\<And>key. key \<noteq> io_key (id_node (sh_identity a)) ios k \<Longrightarrow> seen (sh_nonces b) key = None
           \<Longrightarrow> seen (sh_nonces b') key = None"
    using parse_keeps_unseen [OF nc]
    by (auto simp: image_shard_fields frame_key_def io_key_def parsed_built_def)
qed

text \<open>
  The first \<open>n\<close> frames of the sender, whatever the round they are built in, are new to the
  receiver and distinct, and their clocks agree within 30 s with every moment in \<open>T\<close>.
\<close>

definition fresh_frames :: "step_io list \<Rightarrow> u64 set \<Rightarrow> u8 \<Rightarrow> NonceCache \<Rightarrow> nat \<Rightarrow> bool" where
  "fresh_frames ios T src nc n \<longleftrightarrow>
     (\<forall>io \<in> set ios. \<forall>k < n. length (snd (io_frame io k)) = 5 \<and> seen nc (io_key src io k) = None
        \<and> (\<forall>now \<in> T. unat now \<le> unat (fst (io_frame io k)) + 30000
                   \<and> unat (fst (io_frame io k)) \<le> unat now + 30000))
   \<and> (\<forall>io \<in> set ios. \<forall>io' \<in> set ios. \<forall>j < n. \<forall>k < n. io_key src io j = io_key src io' k \<longrightarrow> j = k)"

text \<open>The receiver knows the sender.\<close>

definition trusts :: "node_env \<Rightarrow> Shared \<Rightarrow> Shared \<Rightarrow> bool" where
  "trusts env b a \<longleftrightarrow> crypto_ok (env_crypto env)
     \<and> registered (env_crypto env) (sh_pubkeys b) (sh_identity a)
     \<and> id_session_key (sh_identity a) = id_session_key (sh_identity b)"

lemma fresh_can_receive:
  assumes "trusts env b a" and "fresh_frames ios T (id_node (sh_identity a)) nc n" and "io \<in> set ios"
    and "k < n" and "now \<in> T" and "seen (sh_nonces b) (io_key (id_node (sh_identity a)) io k) = None"
  shows "can_receive env io k a now b"
  using assms by (auto simp: can_receive_def trusts_def fresh_frames_def io_key_def)

lemma shards_received:
  assumes "codec_ok (ser_app env) (de_app env)" and "trusts env b a"
    and "\<And>k. k < n \<Longrightarrow> ser_app env (Msg_ImageShard (shs k)) = Inr (pay k)"
    and "fresh_frames ios T (id_node (sh_identity a)) nc n" and "\<forall>k. f k \<in> set ios"
    and "fst to = id_node (sh_identity b) \<or> fst to = BROADCAST"
    and "distinct js" and "set js \<subseteq> {..<n}"
    and "\<forall>k \<in> set js. seen (sh_nonces b) (io_key (id_node (sh_identity a)) (f k) k) = None"
    and "map snd es = map (\<lambda>k. data_frame env (f k) k (sh_identity a) (pay k) Bulk to) js"
    and "\<forall>e \<in> set es. io_now (fst e) \<in> T"
  shows "sh_images (snd (receive_all env meta (rx, b) es)) = insert_all (sh_images b) (map shs js)"
  using assms(2,6-)
proof (induction js arbitrary: es rx b)
  case Nil
  then show ?case by (simp add: receive_all_def)
next
  case (Cons k js)
  let ?src = "id_node (sh_identity a)"
  from Cons.prems(6) obtain io es' where es: "es = (io, data_frame env (f k) k (sh_identity a) (pay k) Bulk to) # es'"
    and es': "map snd es' = map (\<lambda>k. data_frame env (f k) k (sh_identity a) (pay k) Bulk to) js" by (cases es) auto
  obtain rx1 b1 where r: "rx_and_handle env meta (rx, b) (io, data_frame env (f k) k (sh_identity a) (pay k) Bulk to)
      = (rx1, b1)" by fastforce
  have k: "k < n" using Cons.prems(4) by simp
  have "can_receive env (f k) k a (io_now io) b"
    using fresh_can_receive [OF Cons.prems(1) assms(4)] assms(5) k Cons.prems(5,7) es by simp
  from shard_received [OF assms(1) assms(3) [OF k] this Cons.prems(2) r]
  have img: "sh_images b1 = snd (insert_shard (sh_images b) (shs k))" and ident: "sh_identity b1 = sh_identity b"
    and keys: "sh_pubkeys b1 = sh_pubkeys b"
    and unseen: "\<And>key. key \<noteq> io_key ?src (f k) k \<Longrightarrow> seen (sh_nonces b) key = None \<Longrightarrow> seen (sh_nonces b1) key = None"
    by auto
  have "io_key ?src (f j) j \<noteq> io_key ?src (f k) k" if "j \<in> set js" for j
    using assms(4,5) that Cons.prems(3,4) unfolding fresh_frames_def by (metis distinct.simps(2) insert_subset lessThan_iff list.simps(15) subsetD)
  then have "\<forall>j \<in> set js. seen (sh_nonces b1) (io_key ?src (f j) j) = None"
    using unseen Cons.prems(5) by simp
  moreover have "trusts env b1 a" using Cons.prems(1) ident keys by (simp add: trusts_def)
  ultimately have "sh_images (snd (receive_all env meta (rx1, b1) es')) = insert_all (sh_images b1) (map shs js)"
    using Cons.IH [of b1 es' rx1] Cons.prems(2,3,4,7) ident es es' by simp
  then show ?case using img r es by (simp add: receive_all_def)
qed

section \<open>Properties\<close>

text \<open>
  (C10) An image travels from the node that serves it to the node that asked for it. When a node
  with a local image that encodes to at most 255 chunks handles a request, its task ends after at
  most one round per chunk and two more and has put one bulk frame per chunk at the end of its
  queue; and in whatever order these frames reach the requester, the requester has the encoded
  image, byte for byte, as soon as all have arrived, and nothing of it before.
\<close>

theorem image_transferred:
  assumes "codec_ok (ser_app env) (de_app env)" and "\<forall>sh. \<exists>p. ser_app env (Msg_ImageShard sh) = Inr p"
    and "sh_local_image a = Some (raw, w, h)" and "jpeg_encode env raw w h 75 = Some img"
    and "img \<noteq> []" and "length img \<le> 255 * 1207" and "queues_ok (queues (sh_sched a))"
    and "ri_requester req = id_node (sh_identity b)" and "id_node (sh_identity b) \<noteq> id_node (sh_identity a)"
    and "length img div 1207 + 2 < length ios"
    and "trusts env b a" and "fresh_frames ios T (id_node (sh_identity a)) (sh_nonces b) 255"
    and "\<forall>k. shards (sh_images b) (ri_target_id req, k) = None \<and> block_k (sh_images b) (ri_target_id req, k) = None
           \<and> assembled_blocks (sh_images b) (ri_target_id req, k) = None"
    and "total_blocks_expected (sh_images b) (ri_target_id req) = None" and "complete (sh_images b) (ri_target_id req) = None"
  shows "\<exists>a' frames. run_chain env ios (Task_RequestImage req src) a = Some a'
     \<and> sh_lane a' Bulk = sh_lane a Bulk @ frames \<and> length frames = (length img + 1206) div 1207
     \<and> (\<forall>js es. distinct js \<and> set js \<subseteq> {..<length frames} \<and> map snd es = map ((!) frames) js
          \<and> (\<forall>e \<in> set es. io_now (fst e) \<in> T)
        \<longrightarrow> get_complete (sh_images (snd (receive_all env meta (rx, b) es))) (ri_target_id req)
              = (if set js = {..<length frames} then Some img else None))"
proof -
  let ?cs = "chunks SHARD_SIZE img" and ?t = "ri_target_id req"
  have n: "length ?cs = (length img + 1206) div 1207" and cat: "concat ?cs = img"
    using length_chunks [of SHARD_SIZE img] concat_chunks [of SHARD_SIZE img] by (simp_all add: SHARD_SIZE_def)
  have n1: "0 < length ?cs" using assms(5) by (simp add: SHARD_SIZE_def chunks_step)
  have n255: "length ?cs \<le> 255" using n assms(6) by simp
  obtain g where g: "\<forall>sh. ser_app env (Msg_ImageShard sh) = Inr (g sh)"
    using choice [OF assms(2)] by blast
  define pay where "pay k = g (image_shard ?t ?cs k)" for k
  have pay: "ser_app env (Msg_ImageShard (image_shard ?t ?cs k)) = Inr (pay k)" for k
    using g by (simp add: pay_def)
  obtain io ios' where ios: "ios = io # ios'" using assms(10) by (cases ios) auto
  have first: "run_task env io (Task_RequestImage req src) a =
      (a, [Task_SendShards req (of_nat (length ?cs)) 0 ?cs (w, h, length img)])"
    using assms(3,4,8,9) by (simp add: handle_request_image_def Let_def)
  have "ser_app env (Msg_ImageShard (shard_of req (of_nat (length ?cs)) (0 + j) (?cs ! j))) = Inr (pay (0 + j))" for j
    using pay [of j] by (simp add: shard_of_def image_shard_def)
  moreover have "length ?cs < length ios'" using assms(10) n ios by simp
  ultimately obtain a' f where chain: "run_chain env ios (Task_RequestImage req src) a = Some a'" "\<forall>k. f k \<in> set ios"
    "sh_lane a' Bulk = sh_lane a Bulk @ map (\<lambda>k. data_frame env (f k) k (sh_identity a) (pay k) Bulk
        (reply_to a (ri_requester req))) [0..<length ?cs]"
    using run_chain_frames [OF assms(7), of ?cs env req "of_nat (length ?cs)" 0 pay ios' "(w, h, length img)"] ios first
    by fastforce
  let ?fr = "\<lambda>k. data_frame env (f k) k (sh_identity a) (pay k) Bulk (reply_to a (ri_requester req))"
  let ?frames = "map ?fr [0..<length ?cs]"
  have to: "fst (reply_to a (ri_requester req)) = id_node (sh_identity b) \<or> fst (reply_to a (ri_requester req)) = BROADCAST"
    using assms(8) by (auto simp: reply_to_def split: option.splits)
  have "get_complete (sh_images (snd (receive_all env meta (rx, b) es))) ?t
      = (if set js = {..<length ?frames} then Some img else None)"
    if js: "distinct js" "set js \<subseteq> {..<length ?frames}" "map snd es = map ((!) ?frames) js"
      "\<forall>e \<in> set es. io_now (fst e) \<in> T" for js es
  proof -
    have eq: "map snd es = map ?fr js" using js(2,3) by (auto intro!: map_cong)
    have "set js \<subseteq> {..<255}" using js(2) n255 by auto
    moreover from this have "\<forall>k \<in> set js. seen (sh_nonces b) (io_key (id_node (sh_identity a)) (f k) k) = None"
      using assms(12) chain(2) by (auto simp: fresh_frames_def)
    ultimately have "sh_images (snd (receive_all env meta (rx, b) es)) =
        insert_all (sh_images b) (map (image_shard ?t ?cs) js)"
      using shards_received [where n = 255 and shs = "image_shard ?t ?cs" and pay = pay and f = f,
          OF assms(1,11) pay assms(12) chain(2) to js(1)] eq js(4) by blast
    moreover have "(\<forall>i < length ?cs. image_shard ?t ?cs i \<in> set (map (image_shard ?t ?cs) js))
        \<longleftrightarrow> set js = {..<length ?frames}"
      using js(2) image_shard_inj n255 by (auto simp: image_iff) (metis lessThan_iff subsetD)
    moreover have "\<forall>sh \<in> set (map (image_shard ?t ?cs) js). is_target_id sh = ?t \<longrightarrow> (\<exists>i < length ?cs. sh = image_shard ?t ?cs i)"
      using js(2) by auto
    ultimately show ?thesis
      using image_complete_iff [OF assms(13-15) n1 n255] cat by simp
  qed
  then show ?thesis using chain(1,3) n by (intro exI [of _ a'] exI [of _ ?frames]) simp
qed

end
