(* ===== verification/NodeScenarios.thy ===== *)
theory NodeScenarios
  imports Discovery ImageTransfer
begin

text \<open>
  Two concrete nodes of the demonstration network, as \<^verbatim>\<open>main.rs\<close> starts them, with a concrete
  serializer for chat messages, image shards and HELLOs; the properties of the node applied to them.
\<close>

section \<open>A serializer\<close>

definition demo_ser_app :: "AppMsg \<Rightarrow> string + bytes" where
  "demo_ser_app m =
     (case m of
        Msg_Chat c \<Rightarrow> Inr (11 # chat_from c # map (\<lambda>ch. of_nat (of_char ch)) (chat_text c))
      | Msg_ImageShard sh \<Rightarrow>
          Inr (4 # to_le_bytes 2 (is_target_id sh) @ is_total_blocks sh # is_block_id sh # is_index sh
                 # is_k sh # is_n sh # is_data sh)
      | _ \<Rightarrow> Inl ''unsupported'')"

definition demo_de_app :: "bytes \<Rightarrow> string + AppMsg" where
  "demo_de_app b =
     (if take 1 b = [11] \<and> 2 \<le> length b
      then Inr (Msg_Chat \<lparr>chat_from = b ! 1, chat_text = map (\<lambda>x. char_of (unat x)) (drop 2 b)\<rparr>)
      else if take 1 b = [4] \<and> 8 \<le> length b
      then Inr (Msg_ImageShard \<lparr>is_target_id = from_le_bytes (take 2 (drop 1 b)), is_total_blocks = b ! 3,
                  is_block_id = b ! 4, is_index = b ! 5, is_k = b ! 6, is_n = b ! 7, is_data = drop 8 b\<rparr>)
      else Inl ''unsupported'')"

lemma demo_codec_app: "codec_ok demo_ser_app demo_de_app"
proof -
  have ch: "char_of (unat (of_nat (of_char ch) :: u8)) = ch" for ch :: char
  proof -
    have "of_char ch < (256 :: nat)" using range_nat_of_char by auto
    then have "unat (of_nat (of_char ch) :: u8) = of_char ch" by simp
    then show ?thesis by simp
  qed
  have "demo_de_app b = Inr m" if "demo_ser_app m = Inr b" for m b
  proof (cases m)
    case (Msg_Chat c)
    then show ?thesis using that ch by (auto simp: demo_ser_app_def demo_de_app_def map_idI)
  next
    case (Msg_ImageShard sh)
    then show ?thesis
      using that by (auto simp: demo_ser_app_def demo_de_app_def nth_append from_le_to_le_bytes)
  qed (use that in \<open>simp_all add: demo_ser_app_def\<close>)
  then show ?thesis by (simp add: codec_ok_def)
qed

text \<open>HELLOs without neighbours.\<close>

definition demo_ser_olsr :: "OlsrMessage \<Rightarrow> string + bytes" where
  "demo_ser_olsr m =
     (case m of
        OlsrMessage_Hello h \<Rightarrow>
          (if hello_neighbors h = [] then Inr (hello_sender h # to_le_bytes 8 (hello_sent_at_ms h))
           else Inl ''unsupported'')
      | _ \<Rightarrow> Inl ''unsupported'')"

definition demo_de_olsr :: "bytes \<Rightarrow> string + OlsrMessage" where
  "demo_de_olsr b =
     (case b of
        [] \<Rightarrow> Inl ''empty''
      | n # t \<Rightarrow> Inr (OlsrMessage_Hello \<lparr>hello_sender = n, hello_neighbors = [],
                                        hello_sent_at_ms = from_le_bytes t\<rparr>))"

lemma demo_codec_olsr: "codec_ok demo_ser_olsr demo_de_olsr"
  by (auto simp: codec_ok_def demo_ser_olsr_def demo_de_olsr_def from_le_to_le_bytes
      split: OlsrMessage.splits if_splits)

section \<open>Two nodes\<close>

definition demo_env :: node_env where
  "demo_env = \<lparr>env_crypto = demo_crypto, ser_olsr = demo_ser_olsr, de_olsr = demo_de_olsr,
     ser_app = demo_ser_app, de_app = demo_de_app,
     jpeg_encode = (\<lambda>raw w h q. Some raw), jpeg_decode = (\<lambda>d. Some (d, 2, 1))\<rparr>"

definition demo_psk :: bytes where "demo_psk = ascii ''TacticalMeshDemoPSK-hackathon!!!''"

definition demo_link :: "u8 \<Rightarrow> LinkAdapter" where
  "demo_link n = projr (LinkAdapter_new (blake3 demo_crypto) (\<lambda>_. True) (\<lambda>_. True) n demo_psk)"

definition demo_node :: "u8 \<Rightarrow> Shared" where
  "demo_node n = Shared_new demo_crypto n demo_psk (demo_link n) None"

definition demo_io :: "u64 \<Rightarrow> step_io" where
  "demo_io t = \<lparr>io_now = t, io_frame = (\<lambda>k. (t, [1, 2, 3, 4, of_nat k])), io_ord = id_order,
     io_board_ord = [], io_iw_spawned = True, io_iw_success = True\<rparr>"

definition demo_meta :: RxMeta where
  "demo_meta = \<lparr>rssi_dbm = - 60, stream_id = 0, seq = 0\<rparr>"

lemma demo_env_simps [simp]:
  "env_crypto demo_env = demo_crypto" "ser_olsr demo_env = demo_ser_olsr" "de_olsr demo_env = demo_de_olsr"
  "ser_app demo_env = demo_ser_app" "de_app demo_env = demo_de_app"
  by (simp_all add: demo_env_def)

lemma demo_node_simps [simp]:
  "id_node (sh_identity (demo_node n)) = n" "id_session_key (sh_identity (demo_node n)) = demo_psk"
  "sh_nonces (demo_node n) = NonceCache_new" "sh_olsr (demo_node n) = OlsrState_new n"
  "queues (sh_sched (demo_node n)) = Queues_new" "sh_pubkeys (demo_node n) = demo_pubkeys demo_crypto demo_psk"
  "sh_identity (demo_node n) = Identity_from_seed demo_crypto n demo_psk"
  by (simp_all add: demo_node_def Shared_new_def Identity_from_seed_def Identity_from_parts_def TxScheduler_new_def)

lemma demo_lane [simp]: "sh_lane (demo_node n) p = []"
  by (cases p) (simp_all add: sh_lane_def queue_lane_def Queues_new_def)

lemma demo_lane_olsr [simp]: "sh_lane ((demo_node n)\<lparr>sh_olsr := os\<rparr>) p = []"
  using demo_lane by (simp add: sh_lane_def)

lemma demo_pubkeys_get:
  "n \<in> {1, 2, 3} \<Longrightarrow> PubkeyStore_get (demo_pubkeys C psk) n = Some (verifying_key (Identity_from_seed C n psk))"
  by (auto simp: demo_pubkeys_def PubkeyStore_insert_def PubkeyStore_get_def)

lemma demo_can_receive:
  assumes "n \<in> {1, 2, 3}" and "unat now \<le> unat t + 30000" and "unat t \<le> unat now + 30000"
  shows "can_receive demo_env (demo_io t) k (demo_node n) now (demo_node m)"
  using assms demo_crypto_ok demo_pubkeys_get
  by (auto simp: can_receive_def registered_def Identity_from_seed_def Identity_from_parts_def demo_io_def
      NonceCache_new_def Identity_wf_def)

section \<open>Witnesses\<close>

theorem unverifiable_flood_invisible_witness:
  "fst (rx_run demo_env RxState_new (demo_node 1) (replicate 1000 (demo_io 5, [1, 2, 3], demo_meta))) = RxState_new"
proof -
  obtain rx s ts where r: "rx_run demo_env RxState_new (demo_node 1)
      (replicate 1000 (demo_io 5, [1, 2, 3], demo_meta)) = (rx, s, ts)" by (cases rule: prod_cases3)
  have "unverifiable demo_env ks key now [1, 2, 3]" for ks key now
    by (rule short_unverifiable) (simp add: frame_len_defs)
  then show ?thesis
    using unverifiable_flood_invisible [OF _ r] r by auto
qed

theorem jam_window_exact_witness:
  "is_jammed (jw_run JamWindow_new (replicate 151 (1000, Bulk) @ [(1400, Bulk)]))"
proof -
  have "sorted (map fst (replicate 151 (1000 :: u64, Bulk) @ [(1400, Bulk)]))"
    by (simp add: sorted_append sorted_replicate map_replicate)
  from jam_window_exact [OF this] show ?thesis by (auto simp: filter_replicate)
qed


definition demo_chat :: OutboundMsg where
  "demo_chat = \<lparr>out_app_msg = Msg_Chat \<lparr>chat_from = 1, chat_text = ''hello''\<rparr>, out_dst = BROADCAST,
                out_prio = High\<rparr>"

theorem outbound_message_delivered_witness:
  "\<exists>frame rx' b'. sh_lane (outbound_step demo_env (demo_io 1000) demo_chat (demo_node 1)) High = [frame]
     \<and> rx_step demo_env (demo_io 2000) frame demo_meta RxState_new (demo_node 2)
         = (rx', b', [Task_Tactical (Msg_Chat \<lparr>chat_from = 1, chat_text = ''hello''\<rparr>) 1])"
proof -
  obtain p where "ser_app demo_env (out_app_msg demo_chat) = Inr p"
    by (simp add: demo_chat_def demo_ser_app_def)
  moreover have "can_receive demo_env (demo_io 1000) 0 (demo_node 1) (io_now (demo_io 2000)) (demo_node 2)"
    by (rule demo_can_receive) (simp_all add: demo_io_def)
  ultimately show ?thesis
    using outbound_message_delivered [of demo_env demo_chat p "demo_node 1" "demo_io 1000" "demo_io 2000" "demo_node 2" demo_meta RxState_new]
      demo_codec_app
    by (simp add: demo_chat_def)
qed

text \<open>A HELLO of node 3 at node 1, whose copy node 2 accepts; and a unicast frame as a receiver sees it.\<close>

definition demo_hello_frame :: bytes where
  "demo_hello_frame = relay_frame demo_env (demo_io 900) 0 (demo_node 3) \<lparr>kind = OlsrHello, payload = [3]\<rparr> High 0"

theorem control_relay_limited_witness:
  "\<exists>rx' a' tasks copy f nc. rx_step demo_env (demo_io 1000) demo_hello_frame demo_meta RxState_new (demo_node 1) = (rx', a', tasks)
     \<and> sh_lane a' High = [copy]
     \<and> parse_and_verify_frame demo_crypto copy (sh_pubkeys (demo_node 2)) (sh_nonces (demo_node 2)) 2000
         (id_session_key (sh_identity (demo_node 2))) = (Inr f, nc)
     \<and> plaintext f = [3] \<and> hops_taken (routed f) = 1"
proof -
  let ?f = "parsed_built demo_env (demo_io 900) 0 (demo_node 3) \<lparr>kind = OlsrHello, payload = [3]\<rparr> High BROADCAST
      (id_node (sh_identity (demo_node 3))) 0"
  have now: "io_now (demo_io 1000) = 1000" by (simp add: demo_io_def)
  have "can_receive demo_env (demo_io 900) 0 (demo_node 3) 1000 (demo_node 1)"
    by (rule demo_can_receive) (simp_all add: demo_io_def)
  from can_receive_parse [OF this] obtain nc where acc: "parse_and_verify_frame (env_crypto demo_env) demo_hello_frame
      (sh_pubkeys (demo_node 1)) (sh_nonces (demo_node 1)) (io_now (demo_io 1000)) (id_session_key (sh_identity (demo_node 1)))
      = (Inr ?f, nc)"
    unfolding demo_hello_frame_def frame_builders now by blast
  obtain rx' a' tasks where run:
    "rx_step demo_env (demo_io 1000) demo_hello_frame demo_meta RxState_new (demo_node 1) = (rx', a', tasks)"
    by (rule prod_cases3)
  have "can_receive demo_env (demo_io 1000) 0 (demo_node 1) 2000 (demo_node 2)"
    by (rule demo_can_receive) (simp_all add: demo_io_def)
  moreover have "sh_lane (demo_node 1) High = []" and "queues_ok (queues (sh_sched (demo_node 1)))"
    by (simp_all add: sh_lane_def Queues_new_def queue_lane_def queues_ok_def)
  moreover have "\<not> new_tc demo_env (demo_node 1) ?f" by (simp add: new_tc_def)
  ultimately show ?thesis
    using control_relay_limited [OF acc _ _ _ run] run by fastforce
qed

definition demo_unicast :: ParsedFrame where
  "demo_unicast = parsed_built demo_env (demo_io 900) 0 (demo_node 3) \<lparr>kind = Data, payload = [3]\<rparr> High 2 9 7"

theorem unicast_forward_unlimited_witness:
  "\<exists>frame. sh_lane (rx_relay demo_env (demo_io 1000) demo_unicast ((demo_node 1)\<lparr>sh_olsr := line_state 0\<rparr>)) High = [frame]"
proof -
  let ?a = "(demo_node 1)\<lparr>sh_olsr := line_state 0\<rparr>"
  obtain r where r: "route_to (line_state 0) 2 = Some r" using line_0_route by blast
  have "can_receive demo_env (demo_io 1000) 1 (demo_node 1) 2000 (demo_node 2)"
    by (rule demo_can_receive) (simp_all add: demo_io_def)
  then have "can_receive demo_env (demo_io 1000) 1 ?a 2000 (demo_node 2)"
    by (simp add: can_receive_def)
  moreover have "forward_unicast (id_node (sh_identity ?a)) demo_unicast"
    by (simp add: forward_unicast_def demo_unicast_def BROADCAST_def)
  ultimately obtain frame where
    "\<forall>hdr. sh_lane (rx_relay demo_env (demo_io 1000) (demo_unicast\<lparr>routed := hdr\<rparr>) ?a) High = [frame]"
    using unicast_forward_unlimited [of ?a demo_unicast r demo_env "demo_io 1000" 2000 "demo_node 2"] r
    by (auto simp: demo_unicast_def)
  then have "sh_lane (rx_relay demo_env (demo_io 1000) (demo_unicast\<lparr>routed := routed demo_unicast\<rparr>) ?a) High = [frame]" ..
  then show ?thesis by simp
qed

text \<open>A node with a small image, and the other node asking for it.\<close>

lemma demo_fresh_frames: "fresh_frames (replicate 3 (demo_io 1000)) {2000} n NonceCache_new 255"
proof -
  have "j = k" if "io_key n (demo_io 1000) j = io_key n (demo_io 1000) k" "j < 255" "k < 255" for j k
    using that of_nat_u8_eq [of j k] by (simp add: io_key_def demo_io_def build_nonce_def Let_def)
  then show ?thesis by (auto simp: fresh_frames_def demo_io_def NonceCache_new_def)
qed

theorem image_transferred_witness:
  "\<exists>a' frame. run_chain demo_env (replicate 3 (demo_io 1000)) (Task_RequestImage \<lparr>ri_target_id = 7, ri_requester = 2\<rparr> 2)
       ((demo_node 1)\<lparr>sh_local_image := Some ([10, 20], 2, 1)\<rparr>) = Some a'
     \<and> sh_lane a' Bulk = [frame]
     \<and> get_complete (sh_images (snd (receive_all demo_env demo_meta (RxState_new, demo_node 2)
          [(demo_io 2000, frame)]))) 7 = Some [10, 20]"
proof -
  let ?a = "(demo_node 1)\<lparr>sh_local_image := Some ([10, 20], 2, 1)\<rparr>" and ?req = "\<lparr>ri_target_id = 7, ri_requester = 2\<rparr>"
  have ser: "\<forall>sh. \<exists>p. ser_app demo_env (Msg_ImageShard sh) = Inr p" by (simp add: demo_ser_app_def)
  have codec: "codec_ok (ser_app demo_env) (de_app demo_env)" by (simp add: demo_codec_app)
  have enc: "jpeg_encode demo_env r w h 75 = Some r" for r w h by (simp add: demo_env_def)
  have trust: "trusts demo_env (demo_node 2) ?a"
    using demo_crypto_ok demo_pubkeys_get [of 1]
    by (simp add: trusts_def registered_def Identity_from_seed_def Identity_from_parts_def Identity_wf_def)
  have img: "sh_images (demo_node 2) = ImageCache_new" by (simp add: demo_node_def Shared_new_def)
  have lane: "sh_lane ?a Bulk = []" using demo_lane [of 1 Bulk] by (simp add: sh_lane_def)
  obtain a' frames where T: "run_chain demo_env (replicate 3 (demo_io 1000)) (Task_RequestImage ?req 2) ?a = Some a'"
    "sh_lane a' Bulk = sh_lane ?a Bulk @ frames" "length frames = (length [10 :: u8, 20] + 1206) div 1207"
    "\<forall>js es. distinct js \<and> set js \<subseteq> {..<length frames} \<and> map snd es = map ((!) frames) js
          \<and> (\<forall>e \<in> set es. io_now (fst e) \<in> {2000})
        \<longrightarrow> get_complete (sh_images (snd (receive_all demo_env demo_meta (RxState_new, demo_node 2) es))) (ri_target_id ?req)
              = (if set js = {..<length frames} then Some [10, 20] else None)"
    using image_transferred [where raw = "[10, 20]" and w = 2 and h = 1 and img = "[10, 20]" and req = ?req
        and ios = "replicate 3 (demo_io 1000)" and T = "{2000}" and src = 2 and meta = demo_meta and rx = RxState_new,
        OF codec ser _ enc _ _ _ _ _ _ trust] demo_fresh_frames [of 1]
    by (auto simp: img ImageCache_new_def)
  then obtain frame where f: "frames = [frame]" by (auto simp: length_Suc_conv)
  have "get_complete (sh_images (snd (receive_all demo_env demo_meta (RxState_new, demo_node 2)
      [(demo_io 2000, frame)]))) (ri_target_id ?req) = Some [10, 20]"
    using T(4) [rule_format, of "[0]" "[(demo_io 2000, frame)]"] f by (simp add: demo_io_def lessThan_Suc)
  then show ?thesis using T(1,2) f lane by simp
qed

text \<open>Two freshly started nodes, and the first HELLO between them.\<close>

lemma demo_link_simps [simp]:
  "sh_link (demo_node n) = demo_link n" "node_id (demo_link n) = n" "allow_list (demo_link n) = None"
  "rx_chans (demo_link n) p = []"
  "tx_stream_id (tx (demo_link n) p) = derive_stream_id (blake3 demo_crypto) demo_psk 0 p"
  by (simp_all add: demo_node_def Shared_new_def sh_link_def TxScheduler_new_def demo_link_def LinkAdapter_new_def list_all_iff)

theorem hello_discovers_neighbor_witness:
  "\<exists>pkt frame d meta l rx' b' r.
       fst (hello_tick demo_crypto demo_ser_olsr id_order 1000 [1, 2, 3, 4, 0] True
         (sh_identity (demo_node 1)) (OlsrState_new 1) (demo_link 1)) = Some pkt
     \<and> recv_timeout \<lparr>rx_stream_id = derive_stream_id (blake3 demo_crypto) demo_psk 0 High, rx_port = stream_port High\<rparr>
         [Datagram pkt] = Some (Inr (Some frame), [])
     \<and> LinkAdapter_recv (LinkAdapter_deliver (demo_link 2) High frame) High = Some ((d, meta), l)
     \<and> rx_step demo_env (demo_io 2000) d meta RxState_new (set_link (demo_node 2) l) = (rx', b', [])
     \<and> route_to (sh_olsr b') 1 = Some r"
proof -
  let ?tick = "hello_tick demo_crypto demo_ser_olsr id_order 1000 [1, 2, 3, 4, 0] True
         (sh_identity (demo_node 1)) (OlsrState_new 1) (demo_link 1)"
  have "hello_neighbors (make_hello id_order 1000 (OlsrState_new 1)) = []"
    using entries_none [of "id_order 1" Map.empty] by (simp add: make_hello_def OlsrState_new_def)
  then obtain pkt la where tick: "?tick = (Some pkt, la)"
    by (cases ?tick) (auto simp: hello_tick_def send_olsr_def demo_ser_olsr_def Let_def split: prod.splits)
  have "can_receive demo_env (demo_io 1000) 0 (demo_node 1) (io_now (demo_io 2000)) (demo_node 2)"
    by (rule demo_can_receive) (simp_all add: demo_io_def)
  from hello_discovers_neighbor [of demo_env id_order "demo_io 1000" True "demo_node 1" pkt la "demo_node 2"
      "\<lparr>rx_stream_id = derive_stream_id (blake3 demo_crypto) demo_psk 0 High, rx_port = stream_port High\<rparr>"
      "demo_io 2000" RxState_new, OF _ _ _ _ _ _ _ _ _ this]
  show ?thesis
    using tick demo_codec_olsr id_order_ok by (fastforce simp: demo_io_def OlsrState_new_def)
qed

section \<open>The node as a machine\<close>

definition demo_start :: node_state where
  "demo_start = node_start ((demo_node 1)\<lparr>sh_local_image := Some ([7], 1, 1)\<rparr>)"

lemma demo_main:
  "node_main demo_crypto (\<lambda>_. True) (\<lambda>_. True) (\<lambda>_ _ _. None) ([7], 1, 1) 1 None None None = Inr demo_start"
  by (simp add: node_main_def load_psk_def load_local_image_def demo_start_def demo_node_def demo_link_def
      demo_psk_def Shared_new_def LinkAdapter_new_def list_all_iff)

lemma demo_load_psk: "load_psk None = Inr demo_psk"
  by (simp add: load_psk_def demo_psk_def)

lemma demo_aging_step:
  "node_step demo_env demo_start (demo_start\<lparr>ns_shared := (ns_shared demo_start)\<lparr>sh_olsr :=
     aging_tick id_order 9000 (sh_olsr (ns_shared demo_start))\<rparr>\<rparr>)"
  by (rule step_aging [OF id_order_ok])

theorem node_keeps_invariant_witness:
  "olsr_reach 1 (aging_tick id_order 9000 (OlsrState_new 1))"
proof -
  let ?ns = "demo_start\<lparr>ns_shared := (ns_shared demo_start)\<lparr>sh_olsr :=
     aging_tick id_order 9000 (sh_olsr (ns_shared demo_start))\<rparr>\<rparr>"
  have "node_reach demo_env demo_start ?ns"
    by (rule reach_step [OF reach_start _ demo_aging_step]) (simp add: demo_start_def node_start_def)
  from node_keeps_invariant [OF demo_main demo_load_psk this] show ?thesis by (simp add: demo_start_def node_start_def)
qed

theorem node_refines_router_witness:
  "\<exists>ns'. node_step demo_env demo_start ns'
     \<and> (sh_olsr (ns_shared ns') = OlsrState_new 1
        \<or> (\<exists>ord now. order_ok ord \<and> sh_olsr (ns_shared ns') = aging_tick ord now (OlsrState_new 1)))"
proof -
  let ?ns = "demo_start\<lparr>ns_shared := (ns_shared demo_start)\<lparr>sh_olsr :=
     aging_tick id_order 9000 (sh_olsr (ns_shared demo_start))\<rparr>\<rparr>"
  have "sh_olsr (ns_shared demo_start) = OlsrState_new 1" and "ns_frames demo_start = []"
    by (simp_all add: demo_start_def node_start_def)
  then have "sh_olsr (ns_shared ?ns) = OlsrState_new 1
      \<or> (\<exists>ord now. order_ok ord \<and> sh_olsr (ns_shared ?ns) = aging_tick ord now (OlsrState_new 1))"
    using node_refines_router [OF demo_aging_step] by auto
  then show ?thesis using demo_aging_step by (intro exI [of _ ?ns] conjI)
qed

theorem tasks_terminate_witness:
  "task_weight demo_env None (Task_Tactical (Msg_Chat \<lparr>chat_from = 2, chat_text = ''hi''\<rparr>) 2) = 1
   \<and> (\<exists>s'. task_rounds demo_env 1 [Task_Tactical (Msg_Chat \<lparr>chat_from = 2, chat_text = ''hi''\<rparr>) 2] (demo_node 1) [] s')"
proof -
  let ?t = "Task_Tactical (Msg_Chat \<lparr>chat_from = 2, chat_text = ''hi''\<rparr>) 2"
  obtain s' where "run_task demo_env (demo_io 0) ?t (demo_node 1) = (s', [])"
    by (simp add: handle_tactical_def)
  from rounds_Suc [where before = "[]" and after = "[]", OF _ this] rounds_0 [of demo_env "[?t]" "demo_node 1"]
  have r: "task_rounds demo_env 1 [?t] (demo_node 1) [] s'" by simp
  have "sh_local_image (demo_node 1) = None" by (simp add: demo_node_def Shared_new_def)
  with tasks_terminate [OF r] r show ?thesis by auto
qed

end
