(* ===== verification/Deviations.thy ===== *)
theory Deviations
  imports NodeScenarios
begin

text \<open>
  Where the node does something else than its comments and documents say, or than its own
  features need: each lemma pins the actual behaviour down.
\<close>

section \<open>Display\<close>

text \<open>
  The display loop writes target states in their debug form, the drawing code compares with
  capitals: no target is ever shown in red or yellow.
\<close>

lemma no_target_coloured:
  "\<forall>d \<in> set (app_targets (sh_app (snd (sync_tick io rks srcs start_ms conv s)))). state_color (tdi_state d) = White"
proof -
  have "state_color (TargetState_debug st) = White" for st
    by (cases st) (simp_all add: state_color_def)
  then show ?thesis by (simp add: sync_tick_def Let_def display_targets_def)
qed

section \<open>Jamming\<close>

text \<open>One jam alert counts as two channel hops.\<close>

lemma jam_alert_counts_twice: "sh_channel_hops (handle_jam_alert io ja s) = sh_channel_hops s + 2"
  by (simp add: handle_jam_alert_def handle_channel_hop_def log_line_def Let_def)

text \<open>The spoofer raises the counter of bad signatures of the node that runs it.\<close>

lemma spoofer_counts_own_drops: "sh_bad_sigs (spoofer_tick env io seed key True ok s) = sh_bad_sigs s + 1"
  by (simp add: spoofer_tick_def Let_def)

section \<open>Targets\<close>

text \<open>
  A damage report that arrives before the detection fixes the target at latitude and longitude
  zero and of unknown kind: the detection that follows does not replace it.
\<close>

lemma bda_before_detection:
  assumes "board_get (sh_board s) (bda_target_id bda) = None" and "td_target_id td = bda_target_id bda"
  shows "\<exists>t. board_get (sh_board (handle_target_detection td (handle_bda bda s))) (bda_target_id bda) = Some t
    \<and> t_lat t = 0 \<and> t_lon t = 0 \<and> t_kind t = Unknown"
proof (cases "bda_result bda")
qed (use assms in \<open>simp_all add: handle_target_detection_def handle_bda_def known_place_def merge_def board_get_def
    Let_def less_TargetState_def\<close>)

section \<open>Images\<close>

text \<open>
  The number of chunks is cut to eight bits: for 256 chunks the first shard alone completes the
  image.
\<close>

lemma image_of_256_chunks_truncated:
  assumes "length cs = 256" and "complete c t = None" and "total_blocks_expected c t = None"
    and "shards c (t, 0) = None" and "block_k c (t, 0) = None" and "assembled_blocks c (t, 0) = None"
    and "ri_target_id req = t"
  shows "fst (insert_shard c (shard_of req (of_nat (length cs)) 0 (hd cs)))
    \<and> get_complete (snd (insert_shard c (shard_of req (of_nat (length cs)) 0 (hd cs)))) t = Some (hd cs)"
proof -
  have "(of_nat (length cs) :: u8) = 0"
    unfolding assms(1) word_of_nat_eq_0_iff by simp
  then show ?thesis
    unfolding shard_of_def using assms(2-)
    by (simp add: insert_defs or_insert_def unwrap_or_def get_complete_def del: of_nat_numeral)
qed

text \<open>
  A shard that arrives after its image is complete, a repeated one for instance, sets the display
  back to receiving, and nothing clears it before an image of another target is complete.
\<close>

lemma late_shard_shows_receiving:
  assumes "get_complete (sh_images s) (is_target_id sh) = Some d"
  shows "image_rx (sh_app (fst (handle_image_shard sh s))) \<noteq> None \<and> snd (handle_image_shard sh s) = []"
proof -
  have "\<not> fst (insert_shard (sh_images s) sh)"
    using assms by (auto simp: insert_defs get_complete_def)
  then show ?thesis by (auto simp: handle_image_shard_def Let_def split: prod.splits)
qed

section \<open>Routing messages\<close>

text \<open>
  A HELLO that a third node relays makes its originator a direct neighbour of the receiver,
  however far away it is: the sender of the frame is not looked at.
\<close>

lemma relayed_hello_makes_neighbor:
  assumes "codec_ok (ser_olsr env) (de_olsr env)" and "ser_olsr env (OlsrMessage_Hello hello) = Inr p"
    and "can_receive env ioc 0 c (io_now iob) b" and "order_ok (io_ord iob)"
    and "hello_sender hello \<noteq> local_id (sh_olsr b)"
  shows "\<exists>rx' b' e r. rx_step env iob (relay_frame env ioc 0 c \<lparr>kind = OlsrHello, payload = p\<rparr> High hops) meta rx b
       = (rx', b', [])
     \<and> neighbors (sh_olsr b') (hello_sender hello) = Some e \<and> route_to (sh_olsr b') (hello_sender hello) = Some r
     \<and> unat (route_cost r) \<le> unat (link_cost (link_quality e))"
proof -
  obtain rx' b' where "rx_step env iob (relay_frame env ioc 0 c \<lparr>kind = OlsrHello, payload = p\<rparr> High hops) meta rx b
       = (rx', b', [])"
    and "sh_olsr b' = process_hello (io_ord iob) (io_now iob) hello (id_node (sh_identity c)) (rssi_dbm meta) (sh_olsr b)"
    using hello_dispatched [OF assms(1-3)] unfolding frame_builders by blast
  with hello_route [OF assms(5,4)] show ?thesis by metis
qed

text \<open>
  A new TC that has made fewer than two hops is queued twice: once by the relay with one more
  hop, and once by the router's own forwarding as a frame of zero hops.
\<close>

lemma tc_flooded_twice:
  assumes "msg_kind (auth f) = OlsrTc" and "dst_node (auth f) = BROADCAST" and "hops_taken (routed f) < 2"
    and "priority (auth f) = High" and "de_olsr env (plaintext f) = Inr (OlsrMessage_Tc tc)"
    and "should_forward_tc (sh_olsr s) tc" and "queues_ok (queues (sh_sched s))"
  shows "\<exists>relayed fresh. sh_lane (fst (rx_dispatch env io rssi f (rx_relay env io f s))) High
     = sh_lane s High @ [relayed, fresh]
     \<and> fresh = new_frame env io 2 s \<lparr>kind = OlsrTc, payload = plaintext f\<rparr> High BROADCAST"
proof -
  let ?fr = "relay_frame env io 0 s \<lparr>kind = OlsrTc, payload = plaintext f\<rparr> High (saturating_add (hops_taken (routed f)) 1)"
  have relay: "rx_relay env io f s = sh_enqueue s ?fr High"
    using assms(1-4) by (simp add: rx_relay_def Let_def rebroadcast_def WIRE_MAX_HOPS_def forward_unicast_def)
  obtain os where os: "process_tc (io_ord io) tc (src_node (auth f)) (sh_olsr s) = (True, os)"
    using assms(6) by (auto simp: process_tc_def should_forward_tc_def Let_def)
  let ?s1 = "(sh_enqueue s ?fr High)\<lparr>sh_olsr := os\<rparr>"
  have "sh_lane ?s1 = sh_lane (sh_enqueue s ?fr High)" by (simp add: sh_lane_def fun_eq_iff)
  moreover have "fst (rx_dispatch env io rssi f (sh_enqueue s ?fr High)) =
      sh_enqueue ?s1 (new_frame env io 2 s \<lparr>kind = OlsrTc, payload = plaintext f\<rparr> High BROADCAST) High"
    using assms(1,5) os by (simp add: rx_dispatch_def Let_def new_frame_def)
  ultimately show ?thesis
    using assms(7) by (simp add: relay sh_lane_enqueue)
qed

end
