(* ===== verification/Demo.thy ===== *)
theory Demo
  imports Scheduler Messages
begin

text \<open>
  The demonstration helpers of the application crate: the bounded channels of
  \<^verbatim>\<open>tacticalmesh-app/src/mock.rs\<close> and the spoofer and jammer tasks of
  \<^verbatim>\<open>tacticalmesh-app/src/demo.rs\<close> that feed such a channel. The serializer and the random numbers
  are arguments. A task that waits for room in its channel makes no step.
\<close>

section \<open>Bounded channels\<close>

record 'a channel =
  chan_capacity :: nat
  chan_items :: "'a list"
  chan_open :: bool

definition channel_new :: "nat \<Rightarrow> 'a channel" where
  "channel_new n = \<lparr>chan_capacity = n, chan_items = [], chan_open = True\<rparr>"

text \<open>
  \<^verbatim>\<open>send().await\<close>: \<open>None\<close> while it waits for room; \<open>Inl\<close> returns the message because the receiver
  is gone.
\<close>

definition channel_send :: "'a channel \<Rightarrow> 'a \<Rightarrow> (('a + unit) \<times> 'a channel) option" where
  "channel_send c x =
     (if \<not> chan_open c then Some (Inl x, c)
      else if length (chan_items c) < chan_capacity c
      then Some (Inr (), c\<lparr>chan_items := chan_items c @ [x]\<rparr>)
      else None)"

definition channel_recv :: "'a channel \<Rightarrow> ('a \<times> 'a channel) option" where
  "channel_recv c =
     (case chan_items c of [] \<Rightarrow> None | x # xs \<Rightarrow> Some (x, c\<lparr>chan_items := xs\<rparr>))"

section \<open>The mock link\<close>

type_synonym packet = "bytes \<times> Priority"

text \<open>The two ends refer to channels of a store.\<close>

record MockLink =
  ml_tx :: nat
  ml_rx :: nat

definition MockLink_new :: "packet channel list \<Rightarrow> (MockLink \<times> MockLink) \<times> packet channel list" where
  "MockLink_new store =
     (let ab = length store; ba = length store + 1
      in ((\<lparr>ml_tx = ab, ml_rx = ba\<rparr>, \<lparr>ml_tx = ba, ml_rx = ab\<rparr>), store @ [channel_new 256, channel_new 256]))"

definition MockLink_new_loopback :: "packet channel list \<Rightarrow> MockLink \<times> packet channel list" where
  "MockLink_new_loopback store =
     (let c = length store in (\<lparr>ml_tx = c, ml_rx = c\<rparr>, store @ [channel_new 256]))"

text \<open>Sends and receives on a store of channels; a call that has to wait leaves it as it is.\<close>

datatype mock_event = MockSend MockLink packet | MockRecv MockLink

fun mock_step :: "packet channel list \<Rightarrow> mock_event \<Rightarrow> packet channel list" where
  "mock_step store (MockSend m x) =
     (case channel_send (store ! ml_tx m) x of
        None \<Rightarrow> store | Some (_, c) \<Rightarrow> store[ml_tx m := c])"
| "mock_step store (MockRecv m) =
     (case channel_recv (store ! ml_rx m) of
        None \<Rightarrow> store | Some (_, c) \<Rightarrow> store[ml_rx m := c])"

text \<open>The packets an event moves into and out of channel \<open>i\<close>.\<close>

fun mock_in :: "nat \<Rightarrow> packet channel list \<Rightarrow> mock_event \<Rightarrow> packet list" where
  "mock_in i store (MockSend m x) =
     (if ml_tx m = i then (case channel_send (store ! i) x of Some (Inr _, _) \<Rightarrow> [x] | _ \<Rightarrow> []) else [])"
| "mock_in i store (MockRecv m) = []"

fun mock_out :: "nat \<Rightarrow> packet channel list \<Rightarrow> mock_event \<Rightarrow> packet list" where
  "mock_out i store (MockRecv m) =
     (if ml_rx m = i then (case channel_recv (store ! i) of Some (x, _) \<Rightarrow> [x] | None \<Rightarrow> []) else [])"
| "mock_out i store (MockSend m x) = []"

fun mock_run :: "nat \<Rightarrow> packet channel list \<Rightarrow> mock_event list \<Rightarrow> packet list \<times> packet list \<times> packet channel list" where
  "mock_run i store [] = ([], [], store)"
| "mock_run i store (e # es) =
     (case mock_run i (mock_step store e) es of
        (ins, outs, store') \<Rightarrow> (mock_in i store e @ ins, mock_out i store e @ outs, store'))"

lemma mock_step_items:
  assumes "i < length store"
  shows "mock_out i store e @ chan_items (mock_step store e ! i) = chan_items (store ! i) @ mock_in i store e"
  using assms
  by (cases e) (auto simp: channel_send_def channel_recv_def nth_list_update
      split: option.splits list.splits if_splits)

lemma length_mock_step [simp]: "length (mock_step store e) = length store"
  by (cases e) (auto split: option.splits)

text \<open>Nothing is lost, doubled or reordered on a mock link.\<close>

lemma mock_run_fifo:
  assumes "i < length store" and "mock_run i store es = (ins, outs, store')"
  shows "chan_items (store ! i) @ ins = outs @ chan_items (store' ! i)"
  using assms
proof (induction es arbitrary: store ins outs)
  case (Cons e es)
  obtain ins1 outs1 where r: "mock_run i (mock_step store e) es = (ins1, outs1, store')"
    and ins: "ins = mock_in i store e @ ins1" and outs: "outs = mock_out i store e @ outs1"
    using Cons.prems(2) by (auto split: prod.splits)
  have "chan_items (mock_step store e ! i) @ ins1 = outs1 @ chan_items (store' ! i)"
    using Cons.IH [OF _ r] Cons.prems(1) by simp
  then show ?case
    using mock_step_items [OF Cons.prems(1), of e] ins outs by (metis append.assoc)
qed simp

lemma mock_link_delivers:
  assumes "MockLink_new store = ((a, b), store1)"
    and "mock_run (ml_tx a) store1 es = (ins, outs, store')"
  shows "ins = outs @ chan_items (store' ! ml_rx b)" and "ml_tx a = ml_rx b" and "ml_tx a \<noteq> ml_tx b"
proof -
  have ab: "ml_tx a = length store" "ml_rx b = length store" "ml_tx b = length store + 1"
    "store1 = store @ [channel_new 256, channel_new 256]"
    using assms(1) by (auto simp: MockLink_new_def Let_def)
  then have "chan_items (store1 ! ml_tx a) = []" and "ml_tx a < length store1"
    by (simp_all add: channel_new_def nth_append)
  with mock_run_fifo [OF _ assms(2)] ab show "ins = outs @ chan_items (store' ! ml_rx b)" by simp
  show "ml_tx a = ml_rx b" and "ml_tx a \<noteq> ml_tx b" using ab by simp_all
qed

section \<open>Spoofer and jammer tasks\<close>

text \<open>The handle and the task share the flag.\<close>

record SpooferHandle =
  spoofer_running :: bool

record JammerHandle =
  jammer_running :: bool

definition SpooferHandle_stop :: "SpooferHandle \<Rightarrow> SpooferHandle" where
  "SpooferHandle_stop h = h\<lparr>spoofer_running := False\<rparr>"

definition SpooferHandle_is_running :: "SpooferHandle \<Rightarrow> bool" where
  "SpooferHandle_is_running h = spoofer_running h"

definition JammerHandle_stop :: "JammerHandle \<Rightarrow> JammerHandle" where
  "JammerHandle_stop h = h\<lparr>jammer_running := False\<rparr>"

definition JammerHandle_is_running :: "JammerHandle \<Rightarrow> bool" where
  "JammerHandle_is_running h = jammer_running h"

text \<open>The last 64 bytes of a serialized acknowledgement, overwritten with random ones.\<close>

definition spoof_payload :: "(AppMsg \<Rightarrow> string + bytes) \<Rightarrow> u64 \<Rightarrow> (nat \<Rightarrow> u8) \<Rightarrow> bytes option" where
  "spoof_payload ser ack rnd =
     (case ser (Msg_Ack \<lparr>acked_seq = ack\<rparr>) of
        Inl e \<Rightarrow> None
      | Inr b \<Rightarrow>
          (let corrupt_start = length b - 64
           in Some (take corrupt_start b @ map rnd [0..<length b - corrupt_start])))"

text \<open>
  One round of each task; the first component tells whether the task goes on, \<open>None\<close> that it waits.
\<close>

definition spoofer_task ::
  "(AppMsg \<Rightarrow> string + bytes) \<Rightarrow> u64 \<Rightarrow> (nat \<Rightarrow> u8) \<Rightarrow> SpooferHandle \<Rightarrow> packet channel \<Rightarrow> u64
    \<Rightarrow> (bool \<times> packet channel \<times> u64) option" where
  "spoofer_task ser ack rnd h c counter =
     (if \<not> spoofer_running h then Some (False, c, counter)
      else case spoof_payload ser ack rnd of
             None \<Rightarrow> Some (True, c, counter)
           | Some b \<Rightarrow>
               (case channel_send c (b, Critical) of
                  None \<Rightarrow> None
                | Some (_, c') \<Rightarrow> Some (True, c', counter + 1)))"

definition jammer_task ::
  "(nat \<Rightarrow> u8) \<Rightarrow> JammerHandle \<Rightarrow> packet channel \<Rightarrow> (bool \<times> packet channel) option" where
  "jammer_task rnd h c =
     (if \<not> jammer_running h then Some (False, c)
      else case channel_send c (map rnd [0..<1400], Bulk) of
             None \<Rightarrow> None
           | Some (_, c') \<Rightarrow> Some (True, c'))"

lemma spoofer_stopped:
  "spoofer_task ser a rnd (SpooferHandle_stop h) c n = Some (False, c, n)"
  by (simp add: spoofer_task_def SpooferHandle_stop_def)

lemma jammer_stopped: "jammer_task rnd (JammerHandle_stop h) c = Some (False, c)"
  by (simp add: jammer_task_def JammerHandle_stop_def)

text \<open>The length of a message is kept; one of at most 64 bytes is overwritten altogether.\<close>

lemma spoof_payload_length:
  "spoof_payload ser a rnd = Some p \<Longrightarrow> \<exists>b. ser (Msg_Ack \<lparr>acked_seq = a\<rparr>) = Inr b \<and> length p = length b"
  by (auto simp: spoof_payload_def Let_def split: sum.splits)

lemma spoof_payload_short:
  "ser (Msg_Ack \<lparr>acked_seq = a\<rparr>) = Inr b \<Longrightarrow> length b \<le> 64
     \<Longrightarrow> spoof_payload ser a rnd = Some (map rnd [0..<length b])"
  by (simp add: spoof_payload_def)

text \<open>The counter counts a frame also when the receiver is gone.\<close>

lemma spoofer_counts_unsent:
  "spoofer_running h \<Longrightarrow> \<not> chan_open c \<Longrightarrow> ser (Msg_Ack \<lparr>acked_seq = a\<rparr>) = Inr b
     \<Longrightarrow> spoofer_task ser a rnd h c n = Some (True, c, n + 1)"
  by (simp add: spoofer_task_def spoof_payload_def channel_send_def Let_def)

end
