(* ===== verification/Radio.thy ===== *)
theory Radio
  imports Link
begin

text \<open>
  The other two radio backends and the reader thread, \<^verbatim>\<open>tacticalmesh-link/src/lib.rs\<close>. A build
  has one of three modules named \<^verbatim>\<open>radio\<close>: the stub, the UDP broadcast backend (theory Link) or
  the injection backend over the crate \<^verbatim>\<open>wfb_rs\<close>, whose sources are not part of the repository
  and which is the parameter \<open>wfb_lib\<close>. The reader thread is written once over all of them; what
  it needs of a receive handle is the interface \<open>radio_rx\<close>, which all three handles implement.
\<close>

section \<open>The stub backend\<close>

record StubTx =
  stub_tx_stream_id :: u32

record StubRx =
  stub_rx_stream_id :: u32

definition StubTx_new :: "string \<Rightarrow> u32 \<Rightarrow> u16 \<Rightarrow> link_error + StubTx" where
  "StubTx_new iface sid port = Inr \<lparr>stub_tx_stream_id = sid\<rparr>"

definition StubTx_send :: "StubTx \<Rightarrow> bytes \<Rightarrow> u32 \<Rightarrow> link_error + unit" where
  "StubTx_send t data s = Inr ()"

definition StubRx_new :: "string \<Rightarrow> u32 \<Rightarrow> u16 \<Rightarrow> link_error + StubRx" where
  "StubRx_new iface sid port = Inr \<lparr>stub_rx_stream_id = sid\<rparr>"

definition StubRx_recv_timeout :: "StubRx \<Rightarrow> link_error + RxFrame option" where
  "StubRx_recv_timeout r = Inr None"

section \<open>The injection backend\<close>

record WfbTxConfig =
  txc_iface :: string
  txc_stream_id :: u32
  txc_frame_type :: u8
  txc_mcs_index :: nat
  txc_bandwidth :: nat

record WfbRxConfig =
  rxc_iface :: string
  rxc_stream_id :: u32
  rxc_rcv_buf_size :: "nat option"
  rxc_ignore_self_injected :: bool
  rxc_ring_size :: nat

record WfbMeta =
  meta_rssi :: "i8 list"
  meta_seq :: u32

text \<open>
  The crate: opening the two handles, sending, and receiving into a buffer for at most the given
  time. Each call returns the new state of its handle, receiving also the buffer.
\<close>

record ('t, 'r) wfb_lib =
  WFB_FRAME_TYPE_DATA :: u8
  WfbTx_open :: "WfbTxConfig \<Rightarrow> string + 't"
  WfbTx_send :: "'t \<Rightarrow> bytes \<Rightarrow> u32 \<Rightarrow> (string + unit) \<times> 't"
  WfbRx_open :: "WfbRxConfig \<Rightarrow> string + 'r"
  WfbRx_recv :: "'r \<Rightarrow> bytes \<Rightarrow> nat \<Rightarrow> (string + (nat \<times> WfbMeta) option) \<times> bytes \<times> 'r"

record 't WfbRadioTx =
  wtx_stream_id :: u32
  wtx_inner :: 't

record 'r WfbRadioRx =
  wrx_stream_id :: u32
  wrx_inner :: 'r
  wrx_buf :: bytes

definition WfbRadioTx_new ::
  "('t, 'r) wfb_lib \<Rightarrow> string \<Rightarrow> u32 \<Rightarrow> u16 \<Rightarrow> string + 't WfbRadioTx" where
  "WfbRadioTx_new L iface sid port =
     (case WfbTx_open L \<lparr>txc_iface = iface, txc_stream_id = sid,
                         txc_frame_type = WFB_FRAME_TYPE_DATA L, txc_mcs_index = 1,
                         txc_bandwidth = 20\<rparr> of
        Inl e \<Rightarrow> Inl e
      | Inr t \<Rightarrow> Inr \<lparr>wtx_stream_id = sid, wtx_inner = t\<rparr>)"

definition WfbRadioTx_send ::
  "('t, 'r) wfb_lib \<Rightarrow> 't WfbRadioTx \<Rightarrow> bytes \<Rightarrow> u32 \<Rightarrow> (string + unit) \<times> 't WfbRadioTx" where
  "WfbRadioTx_send L t data s =
     (case WfbTx_send L (wtx_inner t) data s of (res, i) \<Rightarrow> (res, t\<lparr>wtx_inner := i\<rparr>))"

definition WfbRadioRx_new ::
  "('t, 'r) wfb_lib \<Rightarrow> string \<Rightarrow> u32 \<Rightarrow> u16 \<Rightarrow> string + 'r WfbRadioRx" where
  "WfbRadioRx_new L iface sid port =
     (case WfbRx_open L \<lparr>rxc_iface = iface, rxc_stream_id = sid, rxc_rcv_buf_size = None,
                         rxc_ignore_self_injected = False, rxc_ring_size = 256\<rparr> of
        Inl e \<Rightarrow> Inl e
      | Inr i \<Rightarrow> Inr \<lparr>wrx_stream_id = sid, wrx_inner = i, wrx_buf = replicate 2048 0\<rparr>)"

text \<open>The slice \<^verbatim>\<open>buf[..len]\<close> and the element \<^verbatim>\<open>rssi[0]\<close> panic out of range.\<close>

definition WfbRadioRx_recv_timeout ::
  "('t, 'r) wfb_lib \<Rightarrow> 'r WfbRadioRx \<Rightarrow> nat \<Rightarrow> (string + RxFrame option) rust \<times> 'r WfbRadioRx" where
  "WfbRadioRx_recv_timeout L r timeout =
     (case WfbRx_recv L (wrx_inner r) (wrx_buf r) timeout of
        (res, buf, i) \<Rightarrow>
          (let r' = r\<lparr>wrx_inner := i, wrx_buf := buf\<rparr> in
           case res of
             Inl e \<Rightarrow> (Ret (Inl e), r')
           | Inr None \<Rightarrow> (Ret (Inr None), r')
           | Inr (Some (len, meta)) \<Rightarrow>
               (if length buf < len \<or> meta_rssi meta = [] then (Panic, r')
                else (Ret (Inr (Some \<lparr>frame_data = take len buf,
                                      frame_rssi_dbm = hd (meta_rssi meta),
                                      frame_stream_id = wrx_stream_id r,
                                      frame_seq = meta_seq meta\<rparr>)), r'))))"

section \<open>The reader thread\<close>

definition RX_POLL_TIMEOUT :: nat where "RX_POLL_TIMEOUT = 50"

text \<open>
  What one call of \<open>recv_timeout\<close> comes to for the thread: it is still waiting, it panics, or it
  returns.
\<close>

datatype 'r poll = Waiting | Died | Polled "link_error + RxFrame option" 'r

text \<open>
  The thread. Each round reads the stop flag and, for a frame, the allow list: the list gives what
  the successive rounds read. The result is the handle, the channel and whether the thread ended.
\<close>

fun reader_loop ::
  "('r \<Rightarrow> 'r poll) \<Rightarrow> u8 \<Rightarrow> (bool \<times> u8 list option) list \<Rightarrow> 'r \<Rightarrow> (bytes \<times> RxMeta) list
    \<Rightarrow> 'r \<times> (bytes \<times> RxMeta) list \<times> bool" where
  "reader_loop poll nid [] rx chan = (rx, chan, False)"
| "reader_loop poll nid ((stop, allow) # rounds) rx chan =
     (if stop then (rx, chan, True)
      else case poll rx of
             Waiting \<Rightarrow> (rx, chan, False)
           | Died \<Rightarrow> (rx, chan, True)
           | Polled (Inr (Some frame)) rx' \<Rightarrow>
               reader_loop poll nid rounds rx' (reader_deliver nid allow chan frame)
           | Polled (Inr None) rx' \<Rightarrow> reader_loop poll nid rounds rx' chan
           | Polled (Inl e) rx' \<Rightarrow> (rx', chan, True))"

text \<open>The three receive handles as the thread sees them.\<close>

definition stub_poll :: "StubRx \<Rightarrow> StubRx poll" where
  "stub_poll r =
     (case StubRx_recv_timeout r of
        Inl e \<Rightarrow> Polled (Inl e) r
      | Inr x \<Rightarrow> Polled (Inr x) r)"

definition udp_poll :: "Rx \<times> sock_result list \<Rightarrow> (Rx \<times> sock_result list) poll" where
  "udp_poll r =
     (case recv_timeout (fst r) (snd r) of
        None \<Rightarrow> Waiting
      | Some (Inl e, rs) \<Rightarrow> Polled (Inl e) (fst r, rs)
      | Some (Inr x, rs) \<Rightarrow> Polled (Inr x) (fst r, rs))"

definition wfb_poll :: "('t, 'r) wfb_lib \<Rightarrow> 'r WfbRadioRx \<Rightarrow> 'r WfbRadioRx poll" where
  "wfb_poll L r =
     (case WfbRadioRx_recv_timeout L r RX_POLL_TIMEOUT of
        (Panic, r') \<Rightarrow> Died
      | (Ret (Inl e), r') \<Rightarrow> Polled (Inl IoError) r'
      | (Ret (Inr x), r') \<Rightarrow> Polled (Inr x) r')"

section \<open>The interface of a receive handle\<close>

text \<open>
  A receive handle keeps its stream, and the frames it returns carry that stream. A frame is
  properly received if it is of the handle's stream, not one of the node's own and not kept out by
  every allow list in force.
\<close>

definition meta_of :: "RxFrame \<Rightarrow> RxMeta" where
  "meta_of f = \<lparr>rssi_dbm = frame_rssi_dbm f, stream_id = frame_stream_id f, seq = frame_seq f\<rparr>"

lemma reader_deliver_cases:
  "reader_deliver n al c f =
     (if own_frame n (frame_data f) \<or> filtered_out al (frame_data f) then c
      else try_send c (frame_data f, meta_of f))"
  by (simp add: reader_deliver_def meta_of_def)

lemma set_try_send: "set (try_send c x) \<subseteq> insert x (set c)"
  by (auto simp: try_send_def)

locale radio_rx =
  fixes poll :: "'r \<Rightarrow> 'r poll"
    and sid :: "'r \<Rightarrow> u32"
  assumes keeps_stream: "poll r = Polled x r' \<Longrightarrow> sid r' = sid r"
    and frame_of_stream: "poll r = Polled (Inr (Some f)) r' \<Longrightarrow> frame_stream_id f = sid r"
begin

lemma loop_keeps_stream: "reader_loop poll n rounds r c = (r', c', e) \<Longrightarrow> sid r' = sid r"
proof (induction rounds arbitrary: r c)
  case (Cons x rounds)
  then show ?case
    by (cases x) (auto split: if_splits poll.splits sum.splits option.splits dest!: keeps_stream)
qed simp

lemma loop_received:
  assumes "reader_loop poll n rounds r c = (r', c', e)" and "(d, m) \<in> set c'"
  shows "(d, m) \<in> set c \<or> stream_id m = sid r \<and> \<not> own_frame n d
    \<and> (\<exists>al. (False, al) \<in> set rounds \<and> \<not> filtered_out al d)"
  using assms
proof (induction rounds arbitrary: r c)
  case (Cons x rounds)
  obtain stop al where x: "x = (stop, al)" by fastforce
  show ?case
  proof (cases "\<not> stop \<and> (\<exists>y r1. poll r = Polled (Inr y) r1)")
    case False
    then show ?thesis
      using Cons.prems x by (auto split: if_splits poll.splits sum.splits option.splits)
  next
    case True
    then obtain y r1 where y: "poll r = Polled (Inr y) r1" and go: "\<not> stop" by blast
    note s1 = keeps_stream [OF y]
    define c1 where "c1 = (case y of None \<Rightarrow> c | Some f \<Rightarrow> reader_deliver n al c f)"
    have "reader_loop poll n rounds r1 c1 = (r', c', e)"
      using Cons.prems(1) x y go by (auto simp: c1_def split: option.splits)
    from Cons.IH [OF this Cons.prems(2)]
    have "(d, m) \<in> set c1 \<or> stream_id m = sid r \<and> \<not> own_frame n d
        \<and> (\<exists>al. (False, al) \<in> set rounds \<and> \<not> filtered_out al d)"
      by (simp add: s1)
    moreover have "(d, m) \<in> set c \<or> stream_id m = sid r \<and> \<not> own_frame n d \<and> \<not> filtered_out al d"
      if "(d, m) \<in> set c1"
    proof (cases y)
      case None
      with that show ?thesis by (simp add: c1_def)
    next
      case (Some f)
      note frame_of_stream [OF y [unfolded Some]]
      with that Some show ?thesis
        using set_try_send [of c "(frame_data f, meta_of f)"]
        by (auto simp: c1_def reader_deliver_cases meta_of_def split: if_splits)
    qed
    ultimately show ?thesis using x go by auto
  qed
qed simp

end

lemma udp_poll_cases:
  "udp_poll r = Polled x r' \<Longrightarrow> fst r' = fst r"
  by (auto simp: udp_poll_def split: option.splits sum.splits prod.splits)

interpretation stub_rx: radio_rx stub_poll stub_rx_stream_id
  by unfold_locales (auto simp: stub_poll_def StubRx_recv_timeout_def)

interpretation udp_rx: radio_rx udp_poll "\<lambda>r. rx_stream_id (fst r)"
proof
  show "udp_poll r = Polled x r' \<Longrightarrow> rx_stream_id (fst r') = rx_stream_id (fst r)" for r x r'
    by (simp add: udp_poll_cases)
  show "udp_poll r = Polled (Inr (Some f)) r' \<Longrightarrow> frame_stream_id f = rx_stream_id (fst r)" for r f r'
    using recv_timeout_stream
    by (fastforce simp: udp_poll_def split: option.splits sum.splits prod.splits)
qed

interpretation wfb_rx: radio_rx "wfb_poll L" wrx_stream_id
proof
  show "wfb_poll L r = Polled x r' \<Longrightarrow> wrx_stream_id r' = wrx_stream_id r" for r x r'
    by (auto simp: wfb_poll_def WfbRadioRx_recv_timeout_def Let_def
        split: prod.splits rust.splits sum.splits option.splits if_splits)
  show "wfb_poll L r = Polled (Inr (Some f)) r' \<Longrightarrow> frame_stream_id f = wrx_stream_id r" for r f r'
    by (auto simp: wfb_poll_def WfbRadioRx_recv_timeout_def Let_def
        split: prod.splits rust.splits sum.splits option.splits if_splits)
qed

section \<open>What a reader of the UDP backend receives\<close>

text \<open>
  The results of the socket that end a call of \<open>recv_timeout\<close>: a datagram of the stream, the
  deadline, an error. The calls of successive rounds end with successive such results, and what a
  call contributes to the channel depends on the allow list its round reads.
\<close>

fun ends_call :: "u32 \<Rightarrow> sock_result \<Rightarrow> bool" where
  "ends_call s (Datagram buf) \<longleftrightarrow> 8 \<le> length buf \<and> from_le_bytes (take 4 buf) = s"
| "ends_call s (WouldBlock expired) \<longleftrightarrow> expired"
| "ends_call s SockError \<longleftrightarrow> True"

fun call_frame :: "sock_result \<Rightarrow> link_error + RxFrame option" where
  "call_frame (Datagram buf) =
     Inr (Some \<lparr>frame_data = drop 8 buf, frame_rssi_dbm = - 60, frame_stream_id = from_le_bytes (take 4 buf),
                frame_seq = from_le_bytes (take 4 (drop 4 buf))\<rparr>)"
| "call_frame (WouldBlock expired) = Inr None"
| "call_frame SockError = Inl IoError"

fun received :: "u8 \<Rightarrow> sock_result \<times> u8 list option \<Rightarrow> (bytes \<times> RxMeta) list" where
  "received nid (Datagram buf, al) =
     (if own_frame nid (drop 8 buf) \<or> filtered_out al (drop 8 buf) then []
      else [(drop 8 buf, \<lparr>rssi_dbm = - 60, stream_id = from_le_bytes (take 4 buf),
                          seq = from_le_bytes (take 4 (drop 4 buf))\<rparr>)])"
| "received nid (_, al) = []"

text \<open>The rounds before the stop flag is seen, with their allow lists, and the calls the socket ends.\<close>

definition running :: "(bool \<times> u8 list option) list \<Rightarrow> u8 list option list" where
  "running rounds = map snd (takeWhile (\<lambda>(stop, al). \<not> stop) rounds)"

definition calls :: "u32 \<Rightarrow> sock_result list \<Rightarrow> sock_result list" where
  "calls s rs = filter (ends_call s) rs"

lemma foldl_try_send: "foldl try_send c xs = c @ take (RX_CHAN_DEPTH - length c) xs"
proof (induction xs arbitrary: c)
  case (Cons x xs)
  show ?case
  proof (cases "length c < RX_CHAN_DEPTH")
    case True
    then obtain k where "RX_CHAN_DEPTH - length c = Suc k" by (metis Suc_diff_Suc)
    moreover from this have "RX_CHAN_DEPTH - length (c @ [x]) = k" by simp
    ultimately show ?thesis using True Cons.IH [of "c @ [x]"] by (simp add: try_send_def)
  next
    case False
    then show ?thesis using Cons.IH [of c] by (simp add: try_send_def)
  qed
qed simp

text \<open>One call of \<open>recv_timeout\<close>: it returns what the first result that ends a call gives.\<close>

lemma recv_timeout_Cons:
  "recv_timeout rx (r # rs) =
     (if ends_call (rx_stream_id rx) r then Some (call_frame r, rs) else recv_timeout rx rs)"
  by (cases r) (auto simp: Let_def)

lemma recv_timeout_calls:
  "case calls (rx_stream_id rx) rs of
     [] \<Rightarrow> recv_timeout rx rs = None
   | x # xs \<Rightarrow> (\<exists>rs'. recv_timeout rx rs = Some (call_frame x, rs') \<and> calls (rx_stream_id rx) rs' = xs)"
  by (induction rs) (auto simp: calls_def recv_timeout_Cons simp del: recv_timeout.simps(2-4) split: list.splits)

lemma deliver_received:
  "call_frame x = Inr (Some f) \<Longrightarrow> reader_deliver n al c f = foldl try_send c (received n (x, al))"
  by (cases x) (auto simp: reader_deliver_def)

lemma reader_loop_udp:
  assumes "reader_loop udp_poll n rounds (rx, rs) c = (r', c', ended)"
  shows "c' = foldl try_send c (concat (map (received n)
      (zip (takeWhile (\<lambda>r. r \<noteq> SockError) (calls (rx_stream_id rx) rs)) (running rounds))))
    \<and> (ended \<longleftrightarrow> SockError \<in> set (take (length (running rounds)) (calls (rx_stream_id rx) rs))
        \<or> length (running rounds) < length rounds
          \<and> length (running rounds) \<le> length (calls (rx_stream_id rx) rs))"
  using assms
proof (induction rounds arbitrary: rs c)
  case (Cons round rounds)
  obtain stop al where round: "round = (stop, al)" by fastforce
  note one = recv_timeout_calls [of rx rs]
  show ?case
  proof (cases "\<not> stop \<and> calls (rx_stream_id rx) rs \<noteq> []")
    case False
    then show ?thesis using Cons.prems one round by (auto simp: running_def udp_poll_def)
  next
    case True
    then obtain x xs where xs: "calls (rx_stream_id rx) rs = x # xs" by (cases "calls (rx_stream_id rx) rs") auto
    with one obtain rs1 where recv: "recv_timeout rx rs = Some (call_frame x, rs1)"
      and rest: "calls (rx_stream_id rx) rs1 = xs" by auto
    then have poll: "udp_poll (rx, rs) = Polled (call_frame x) (rx, rs1)"
      by (cases "call_frame x") (simp_all add: udp_poll_def)
    show ?thesis
    proof (cases "x = SockError")
      case True
      then show ?thesis using Cons.prems poll round xs \<open>\<not> stop \<and> _\<close> by (auto simp: running_def)
    next
      case False
      then have "reader_loop udp_poll n rounds (rx, rs1) (foldl try_send c (received n (x, al))) = (r', c', ended)"
        using Cons.prems poll round True deliver_received [of x _ n al c] by (cases x) auto
      from Cons.IH [OF this] show ?thesis
        using False True by (auto simp: running_def round xs rest)
    qed
  qed
qed (simp add: running_def)

text \<open>
  (C21) The reader thread delivers exactly what it should, whatever the stop flag and the allow list
  are in each round. The first rounds, up to the one that sees the stop flag raised, each consume
  the results of the socket up to the next datagram of the reader's stream, deadline or error. The
  channel is extended, in order and as far as it has room, by the datagrams that these rounds read
  before the first error and that pass the two filters, each against the allow list of its own
  round. The thread has ended if and only if one of these rounds read an error, or the round that
  sees the stop flag was reached.
\<close>

theorem reader_thread_exact:
  assumes "reader_loop udp_poll n rounds (rx, rs) c = (r', c', ended)"
  shows "c' = c @ take (RX_CHAN_DEPTH - length c) (concat (map (received n)
      (zip (takeWhile (\<lambda>r. r \<noteq> SockError) (calls (rx_stream_id rx) rs)) (running rounds))))
    \<and> (ended \<longleftrightarrow> SockError \<in> set (take (length (running rounds)) (calls (rx_stream_id rx) rs))
        \<or> length (running rounds) < length rounds
          \<and> length (running rounds) \<le> length (calls (rx_stream_id rx) rs))"
  using reader_loop_udp [OF assms] by (simp add: foldl_try_send)

text \<open>
  Two frames of node 2 with the allow list changed between them, a datagram of another stream and a
  deadline; the stop flag is raised before the fourth round.
\<close>

theorem reader_thread_exact_witness:
  "let d = (\<lambda>k :: u32. to_le_bytes 4 (7::u32) @ to_le_bytes 4 k @ [0, 0, 0, 0, 2]) in
   case reader_loop udp_poll 1
      [(False, Some [2]), (False, None), (False, Some [3]), (True, None), (False, None)]
      (\<lparr>rx_stream_id = 7, rx_port = 42800\<rparr>,
       [Datagram [1], Datagram (d 3), WouldBlock False, WouldBlock True, Datagram (d 4), Datagram (d 5), SockError]) []
   of (r, c, ended) \<Rightarrow> c = [([0, 0, 0, 0, 2], \<lparr>rssi_dbm = - 60, stream_id = 7, seq = 3\<rparr>)] \<and> ended"
proof -
  let ?d = "\<lambda>k :: u32. to_le_bytes 4 (7::u32) @ to_le_bytes 4 k @ [0, 0, 0, 0, 2]"
  let ?rounds = "[(False, Some [2]), (False, None), (False, Some [3]), (True, None), (False, None :: u8 list option)]"
  let ?rx = "\<lparr>rx_stream_id = 7, rx_port = 42800\<rparr>"
  let ?rs = "[Datagram [1], Datagram (?d 3), WouldBlock False, WouldBlock True, Datagram (?d 4), Datagram (?d 5), SockError]"
  obtain r c ended where run: "reader_loop udp_poll 1 ?rounds (?rx, ?rs) [] = (r, c, ended)"
    by (metis prod_cases3)
  have "calls 7 ?rs = [Datagram (?d 3), WouldBlock True, Datagram (?d 4), Datagram (?d 5), SockError]"
    by (simp add: calls_def from_le_to_le_bytes)
  then have "c = [([0, 0, 0, 0, 2], \<lparr>rssi_dbm = - 60, stream_id = 7, seq = 3\<rparr>)]" and ended
    using reader_thread_exact [OF run]
    by (simp_all add: RX_CHAN_DEPTH_def running_def own_frame_def filtered_out_def SRC_NODE_OFFSET_def
        from_le_to_le_bytes)
  then show ?thesis using run by (simp add: Let_def)
qed

text \<open>
  The injection backend returns the bytes the crate put into the buffer, and does not panic as long
  as the crate stays within the buffer and reports a signal strength.
\<close>

lemma wfb_recv_within_buffer:
  assumes "WfbRx_recv L (wrx_inner r) (wrx_buf r) t = (Inr (Some (len, meta)), buf, i)"
    and "len \<le> length buf" and "meta_rssi meta \<noteq> []"
  shows "\<exists>f. WfbRadioRx_recv_timeout L r t = (Ret (Inr (Some f)), r\<lparr>wrx_inner := i, wrx_buf := buf\<rparr>)
    \<and> frame_data f = take len buf \<and> frame_seq f = meta_seq meta \<and> frame_stream_id f = wrx_stream_id r"
  using assms by (simp add: WfbRadioRx_recv_timeout_def Let_def)

end
