(* ===== verification/Tools.thy ===== *)
theory Tools
  imports Radio
begin

text \<open>
  The two diagnostic programs: \<^verbatim>\<open>tacticalmesh-bin/src/link_test.rs\<close>, which sends and receives
  test packets in the format of the UDP backend, and \<^verbatim>\<open>tacticalmesh-bin/src/pcap_sniff.rs\<close>, which
  prints raw 802.11 frames. Outcomes of system calls are arguments; the result is what is reported
  of the received frames and how the program ends.
\<close>

section \<open>The link test\<close>

definition BASE_PORT :: u16 where "BASE_PORT = 42800"
definition STREAM_ID :: u32 where "STREAM_ID = 0x54455354"
definition PAYLOAD :: bytes where "PAYLOAD = ascii ''tacticalmesh-link-test-frame-hello''"

datatype link_test_mode = LinkTestTx | LinkTestRx | LinkTestUsage

definition link_test_main :: "string list \<Rightarrow> link_test_mode" where
  "link_test_main args =
     (if length args < 4 \<or> args ! 1 \<notin> {''tx'', ''rx''} \<or> args ! 2 \<noteq> ''--iface'' then LinkTestUsage
      else if args ! 1 = ''tx'' then LinkTestTx else LinkTestRx)"

definition link_test_port :: u16 where
  "link_test_port = BASE_PORT + ucast (and STREAM_ID 0x3)"

definition link_test_pkt :: "u32 \<Rightarrow> bytes" where
  "link_test_pkt s = to_le_bytes 4 STREAM_ID @ to_le_bytes 4 s @ PAYLOAD"

text \<open>The sender tries all twenty packets, whatever becomes of each; the packets that went out.\<close>

definition link_test_tx :: "(u32 \<Rightarrow> bool) \<Rightarrow> (u32 \<times> bytes) list" where
  "link_test_tx sent = map (\<lambda>s. (s, link_test_pkt s)) (filter sent (map of_nat [0..<20]))"

text \<open>Whether a byte string is well-formed UTF-8, as \<^verbatim>\<open>std::str::from_utf8\<close> decides it.\<close>

definition utf8_cont :: "u8 \<Rightarrow> bool" where
  "utf8_cont b \<longleftrightarrow> 0x80 \<le> b \<and> b \<le> 0xBF"

fun is_utf8 :: "bytes \<Rightarrow> bool" where
  "is_utf8 [] \<longleftrightarrow> True"
| "is_utf8 (a # bs) \<longleftrightarrow>
     (if a \<le> 0x7F then is_utf8 bs
      else if 0xC2 \<le> a \<and> a \<le> 0xDF then
        (case bs of b # cs \<Rightarrow> utf8_cont b \<and> is_utf8 cs | _ \<Rightarrow> False)
      else if 0xE0 \<le> a \<and> a \<le> 0xEF then
        (case bs of b # c # ds \<Rightarrow>
           utf8_cont b \<and> utf8_cont c \<and> (a = 0xE0 \<longrightarrow> 0xA0 \<le> b) \<and> (a = 0xED \<longrightarrow> b \<le> 0x9F) \<and> is_utf8 ds
         | _ \<Rightarrow> False)
      else if 0xF0 \<le> a \<and> a \<le> 0xF4 then
        (case bs of b # c # d # es \<Rightarrow>
           utf8_cont b \<and> utf8_cont c \<and> utf8_cont d \<and> (a = 0xF0 \<longrightarrow> 0x90 \<le> b) \<and> (a = 0xF4 \<longrightarrow> b \<le> 0x8F)
           \<and> is_utf8 es
         | _ \<Rightarrow> False)
      else False)"

text \<open>
  What is reported of a packet: its number, its sequence number and its content, \<open>None\<close> for one
  that is not text. A round of the receive loop starts if the deadline has not passed.
\<close>

record link_test_line =
  lt_no :: nat
  lt_seq :: u32
  lt_content :: "bytes option"

fun link_test_rx :: "nat \<Rightarrow> (bool \<times> sock_result) list \<Rightarrow> link_test_line list" where
  "link_test_rx received_no [] = []"
| "link_test_rx received_no ((expired, r) # rs) =
     (if expired then []
      else case r of
             Datagram buf \<Rightarrow>
               (if 8 \<le> length buf \<and> from_le_bytes (take 4 buf) = STREAM_ID
                then \<lparr>lt_no = received_no + 1, lt_seq = from_le_bytes (take 4 (drop 4 buf)),
                      lt_content = (if is_utf8 (drop 8 buf) then Some (drop 8 buf) else None)\<rparr>
                     # link_test_rx (received_no + 1) rs
                else link_test_rx received_no rs)
           | _ \<Rightarrow> link_test_rx received_no rs)"

subsection \<open>Properties of the link test\<close>

text \<open>The packets are those of the UDP backend, on the port of the emergency stream.\<close>

lemma link_test_port_emergency: "link_test_port = stream_port Emergency"
  by (simp add: link_test_port_def BASE_PORT_def STREAM_ID_def stream_port_def UDP_BASE_PORT_def)

lemma link_test_pkt_Tx:
  "link_test_pkt s = Tx_packet \<lparr>tx_stream_id = STREAM_ID, tx_port = link_test_port, tx_seq = s\<rparr> PAYLOAD"
  by (simp add: link_test_pkt_def Tx_packet_def)

lemma is_utf8_PAYLOAD: "is_utf8 PAYLOAD"
  by (simp add: PAYLOAD_def ascii_def of_char_def)

lemma link_test_rx_pkt:
  "link_test_rx k ((False, Datagram (link_test_pkt s)) # rs)
     = \<lparr>lt_no = k + 1, lt_seq = s, lt_content = Some PAYLOAD\<rparr> # link_test_rx (k + 1) rs"
  by (simp add: link_test_pkt_def from_le_to_le_bytes is_utf8_PAYLOAD)

text \<open>Other traffic: nothing to read, errors, short datagrams and other streams.\<close>

definition link_test_noise :: "sock_result \<Rightarrow> bool" where
  "link_test_noise r \<longleftrightarrow>
     (case r of Datagram buf \<Rightarrow> length buf < 8 \<or> from_le_bytes (take 4 buf) \<noteq> STREAM_ID | _ \<Rightarrow> True)"

lemma link_test_rx_noise:
  "link_test_noise r \<Longrightarrow> link_test_rx k ((False, r) # rs) = link_test_rx k rs"
  by (auto simp: link_test_noise_def split: sock_result.splits)

lemma link_test_rx_filter:
  assumes "\<forall>x \<in> set rs. \<not> fst x"
    and "map snd (filter (\<lambda>x. \<not> link_test_noise (snd x)) rs) = map (\<lambda>s. Datagram (link_test_pkt s)) ss"
  shows "map lt_seq (link_test_rx k rs) = ss \<and> list_all (\<lambda>l. lt_content l = Some PAYLOAD) (link_test_rx k rs)
    \<and> map lt_no (link_test_rx k rs) = [k + 1..<k + 1 + length ss]"
  using assms
proof (induction rs arbitrary: k ss)
  case (Cons x rs)
  obtain r where x: "x = (False, r)" using Cons.prems(1) by (cases x) auto
  show ?case
  proof (cases "link_test_noise r")
    case True
    then show ?thesis using Cons x link_test_rx_noise [OF True, of k rs] by simp
  next
    case False
    then obtain s ss' where ss: "ss = s # ss'" and r: "r = Datagram (link_test_pkt s)"
      and rest: "map snd (filter (\<lambda>x. \<not> link_test_noise (snd x)) rs) = map (\<lambda>s. Datagram (link_test_pkt s)) ss'"
      using Cons.prems(2) x by (cases ss) auto
    show ?thesis
      using Cons.IH [of ss' "k + 1"] rest Cons.prems(1) x r ss
      by (simp add: link_test_rx_pkt upt_conv_Cons del: link_test_rx.simps upt_Suc)
  qed
qed simp

section \<open>The sniffer\<close>

definition IFNAMSIZ :: nat where "IFNAMSIZ = 16"

text \<open>\<^verbatim>\<open>parse::<usize>()\<close>: an optional plus sign and decimal digits, in range.\<close>

definition is_digit :: "char \<Rightarrow> bool" where
  "is_digit c \<longleftrightarrow> 48 \<le> (of_char c :: nat) \<and> (of_char c :: nat) \<le> 57"

definition parse_usize :: "string \<Rightarrow> nat option" where
  "parse_usize s =
     (let ds = (case s of c # cs \<Rightarrow> if c = CHR ''+'' then cs else s | [] \<Rightarrow> []);
          n = foldl (\<lambda>acc c. 10 * acc + (of_char c - 48)) 0 ds
      in if ds = [] \<or> \<not> list_all is_digit ds \<or> 2 ^ 64 \<le> n then None else Some n)"

definition frame_count :: "string list \<Rightarrow> nat" where
  "frame_count args = (if 2 < length args then unwrap_or (parse_usize (args ! 2)) 20 else 20)"

text \<open>The interface name in its array: a longer name panics in the slice.\<close>

definition ifr_name :: "bytes \<Rightarrow> bytes rust" where
  "ifr_name b = (if IFNAMSIZ < length b then Panic else Ret (b @ replicate (IFNAMSIZ - length b) 0))"

text \<open>Indexing panics out of bounds.\<close>

definition index_all :: "bytes \<Rightarrow> nat list \<Rightarrow> bytes rust" where
  "index_all buf is = (if list_all (\<lambda>i. i < length buf) is then Ret (map ((!) buf) is) else Panic)"

fun rust_bind :: "'a rust \<Rightarrow> ('a \<Rightarrow> 'b rust) \<Rightarrow> 'b rust" where
  "rust_bind Panic f = Panic"
| "rust_bind (Ret x) f = f x"

definition hex_digit :: "nat \<Rightarrow> char" where
  "hex_digit d = (if d < 10 then char_of (48 + d) else char_of (87 + d))"

definition hex2 :: "u8 \<Rightarrow> string" where
  "hex2 b = [hex_digit (unat b div 16), hex_digit (unat b mod 16)]"

fun intercalate_colon :: "string list \<Rightarrow> string" where
  "intercalate_colon [] = []"
| "intercalate_colon [s] = s"
| "intercalate_colon (s # ss) = s @ '':'' @ intercalate_colon ss"

text \<open>The line for a frame of \<open>n\<close> bytes in the buffer.\<close>

definition sniff_line :: "nat \<Rightarrow> bytes \<Rightarrow> nat \<Rightarrow> string rust" where
  "sniff_line seen buf n =
     rust_bind (if 4 \<le> n then rust_bind (index_all buf [2, 3]) (\<lambda>b. Ret (unat (from_le_bytes b :: u16))) else Ret 0)
       (\<lambda>rtap_len.
     rust_bind (if rtap_len + 1 < n then index_all buf [rtap_len, rtap_len + 1] else Ret [0, 0])
       (\<lambda>fc.
     rust_bind (if rtap_len + 16 \<le> n
                then rust_bind (index_all buf [rtap_len + 10..<rtap_len + 16])
                       (\<lambda>a. Ret (intercalate_colon (map hex2 a)))
                else Ret ''short'')
       (\<lambda>addr2.
     rust_bind (if min n 48 \<le> length buf then Ret (take (min n 48) buf) else Panic)
       (\<lambda>first.
     Ret (''['' @ show_nat seen @ ''] len='' @ show_nat n @ '' rtap='' @ show_nat rtap_len @ '' fc=''
          @ concat (map hex2 fc) @ '' addr2='' @ addr2 @ '' '' @ concat (map hex2 first))))))"

text \<open>
  The loop: the kernel writes each frame over the start of the one buffer. The result is what is
  printed for each frame and the number of frames seen.
\<close>

datatype recv_result = RecvFrame bytes | RecvTimeout | RecvFailed string

fun sniff_loop :: "nat \<Rightarrow> nat \<Rightarrow> bytes \<Rightarrow> recv_result list \<Rightarrow> (string list \<times> nat) rust" where
  "sniff_loop count seen buf [] = Ret ([], seen)"
| "sniff_loop count seen buf (r # rs) =
     (if count \<le> seen then Ret ([], seen)
      else case r of
             RecvFrame data \<Rightarrow>
               rust_bind (sniff_line (seen + 1) (data @ drop (length data) buf) (length data))
                 (\<lambda>l. rust_bind (sniff_loop count (seen + 1) (data @ drop (length data) buf) rs)
                        (\<lambda>(ls, k). Ret (l # ls, k)))
           | RecvTimeout \<Rightarrow> Ret ([''timeout'' @ '' '' @ [CHR 0xE2, CHR 0x80, CHR 0x94] @ '' no frames in 5s''], seen)
           | RecvFailed e \<Rightarrow> Ret ([''recv: '' @ e], seen))"

datatype sniff_outcome = SniffExit string | SniffPanic | SniffDone "string list" nat

definition sniff_main ::
  "string list \<Rightarrow> string + unit \<Rightarrow> string + nat \<Rightarrow> string + unit \<Rightarrow> recv_result list \<Rightarrow> sniff_outcome" where
  "sniff_main args sock ifindex bound frames =
     (if length args < 2 then SniffExit ''Usage: pcap-sniff <iface> [count]''
      else case sock of
        Inl e \<Rightarrow> SniffExit (''socket(): '' @ e)
      | Inr _ \<Rightarrow>
          (case ifr_name (ascii (args ! 1)) of
             Panic \<Rightarrow> SniffPanic
           | Ret name \<Rightarrow>
               (case ifindex of
                  Inl e \<Rightarrow> SniffExit (''SIOCGIFINDEX: '' @ e)
                | Inr i \<Rightarrow>
                    (case bound of
                       Inl e \<Rightarrow> SniffExit (''bind: '' @ e)
                     | Inr _ \<Rightarrow>
                         (case sniff_loop (frame_count args) 0 (replicate 2048 0) frames of
                            Panic \<Rightarrow> SniffPanic
                          | Ret (ls, k) \<Rightarrow> SniffDone ls k)))))"

subsection \<open>Properties of the sniffer\<close>

lemma index_all_take:
  "list_all (\<lambda>i. i < n) is \<Longrightarrow> n \<le> length buf \<Longrightarrow> index_all buf is = Ret (map ((!) (take n buf)) is)"
  by (auto simp: index_all_def list_all_iff)

text \<open>
  A line is printed for every frame, whatever its length field says, and it shows bytes of that
  frame only, nothing that an earlier and longer frame left in the buffer.
\<close>

lemma sniff_line_frame:
  assumes "n \<le> length buf"
  shows "sniff_line seen buf n = sniff_line seen (take n buf) n \<and> (\<exists>l. sniff_line seen buf n = Ret l)"
proof -
  have idx: "index_all buf is = index_all (take n buf) is" "\<exists>b. index_all buf is = Ret b"
    if "list_all (\<lambda>i. i < n) is" for "is"
    using index_all_take [OF that assms] index_all_take [OF that, of "take n buf"] assms by simp_all
  have a: "\<exists>r. (if 4 \<le> n then rust_bind (index_all buf [2, 3]) (\<lambda>b. Ret (unat (from_le_bytes b :: u16))) else Ret 0) = Ret r
      \<and> (if 4 \<le> n then rust_bind (index_all (take n buf) [2, 3]) (\<lambda>b. Ret (unat (from_le_bytes b :: u16))) else Ret 0) = Ret r"
    using idx [of "[2, 3]"] by auto
  then obtain r where r:
    "(if 4 \<le> n then rust_bind (index_all buf [2, 3]) (\<lambda>b. Ret (unat (from_le_bytes b :: u16))) else Ret 0) = Ret r"
    "(if 4 \<le> n then rust_bind (index_all (take n buf) [2, 3]) (\<lambda>b. Ret (unat (from_le_bytes b :: u16))) else Ret 0) = Ret r"
    by blast
  have fc: "(if r + 1 < n then index_all buf [r, r + 1] else Ret [0, 0])
        = (if r + 1 < n then index_all (take n buf) [r, r + 1] else Ret [0, 0])"
      "\<exists>b. (if r + 1 < n then index_all buf [r, r + 1] else Ret [0, 0]) = Ret b"
    using idx [of "[r, r + 1]"] by auto
  have ad: "(if r + 16 \<le> n then rust_bind (index_all buf [r + 10..<r + 16]) f else Ret x)
        = (if r + 16 \<le> n then rust_bind (index_all (take n buf) [r + 10..<r + 16]) f else Ret x)"
      "(\<And>y. \<exists>z. f y = Ret z) \<Longrightarrow> \<exists>b. (if r + 16 \<le> n then rust_bind (index_all buf [r + 10..<r + 16]) f else Ret x) = Ret b"
      for f :: "bytes \<Rightarrow> string rust" and x
    using idx [of "[r + 10..<r + 16]"] by (auto simp: list_all_iff)
  obtain fcs where fcs: "(if r + 1 < n then index_all buf [r, r + 1] else Ret [0, 0]) = Ret fcs"
    using fc(2) by blast
  obtain addr where addr: "(if r + 16 \<le> n then rust_bind (index_all buf [r + 10..<r + 16])
      (\<lambda>a. Ret (intercalate_colon (map hex2 a))) else Ret ''short'') = Ret addr"
    using ad(2) [of "\<lambda>a. Ret (intercalate_colon (map hex2 a))" "''short''"] by blast
  have "min n 48 \<le> length buf" and "min n 48 \<le> length (take n buf)"
    and "take (min n 48) (take n buf) = take (min n 48) buf"
    using assms by (simp_all add: min_def)
  then show ?thesis
    unfolding sniff_line_def r rust_bind.simps fcs fc(1) [symmetric] addr ad(1) [symmetric] by simp
qed

text \<open>The reference: one line per frame, from the frame alone.\<close>

fun sniff_report :: "nat \<Rightarrow> nat \<Rightarrow> recv_result list \<Rightarrow> nat" where
  "sniff_report count seen [] = seen"
| "sniff_report count seen (r # rs) =
     (if count \<le> seen then seen
      else case r of RecvFrame data \<Rightarrow> sniff_report count (seen + 1) rs | _ \<Rightarrow> seen)"

definition frame_line :: "nat \<Rightarrow> bytes \<Rightarrow> string" where
  "frame_line seen data = (case sniff_line seen data (length data) of Ret l \<Rightarrow> l | Panic \<Rightarrow> [])"

lemma sniff_line_data:
  "sniff_line seen (data @ rest) (length data) = Ret (frame_line seen data)"
proof -
  have "take (length data) (data @ rest) = data" and "length data \<le> length (data @ rest)" by simp_all
  with sniff_line_frame [of "length data" "data @ rest" seen] obtain l where
    "sniff_line seen (data @ rest) (length data) = sniff_line seen data (length data)"
    and "sniff_line seen data (length data) = Ret l" by metis
  then show ?thesis by (simp add: frame_line_def)
qed

text \<open>However the frames look, the program does not panic; it reads at most \<open>count\<close> of them.\<close>

lemma sniff_loop_total:
  assumes "seen \<le> count"
  shows "\<exists>ls k. sniff_loop count seen buf rs = Ret (ls, k) \<and> k = sniff_report count seen rs \<and> k \<le> count"
  using assms
proof (induction rs arbitrary: seen buf)
  case (Cons r rs)
  show ?case
  proof (cases "count \<le> seen")
    case True
    then show ?thesis using Cons.prems by simp
  next
    case False
    then have next_round: "\<exists>ls k. sniff_loop count (seen + 1) b rs = Ret (ls, k) \<and> k = sniff_report count (seen + 1) rs \<and> k \<le> count" for b
      by (intro Cons.IH) simp
    then show ?thesis
    proof (cases r)
      case (RecvFrame d)
      obtain ls k where "sniff_loop count (seen + 1) (d @ drop (length d) buf) rs = Ret (ls, k)"
        "k = sniff_report count (seen + 1) rs" "k \<le> count"
        using next_round by blast
      then show ?thesis using RecvFrame False by (simp add: sniff_line_data)
    qed (use False Cons.prems in simp_all)
  qed
qed simp

lemma sniff_loop_frames:
  assumes "seen + length ds \<le> count"
  shows "sniff_loop count seen buf (map RecvFrame ds)
    = Ret (map (\<lambda>i. frame_line (seen + 1 + i) (ds ! i)) [0..<length ds], seen + length ds)"
  using assms
proof (induction ds arbitrary: seen buf)
  case (Cons d ds)
  have upt: "map (\<lambda>i. frame_line (seen + 1 + i) ((d # ds) ! i)) [0..<length (d # ds)]
      = frame_line (seen + 1) d # map (\<lambda>i. frame_line (seen + 2 + i) (ds ! i)) [0..<length ds]"
    by (simp add: upt_conv_Cons map_Suc_upt [symmetric] del: upt_Suc)
  have "sniff_loop count (seen + 1) b (map RecvFrame ds)
      = Ret (map (\<lambda>i. frame_line (seen + 2 + i) (ds ! i)) [0..<length ds], seen + 1 + length ds)" for b
    using Cons.IH [of "seen + 1" b] Cons.prems by simp
  then show ?case
    unfolding upt using Cons.prems by (simp add: sniff_line_data del: upt_Suc)
qed simp

lemma sniff_main_total:
  assumes "length (ascii (args ! 1)) \<le> IFNAMSIZ"
  shows "sniff_main args sock ifindex bound frames \<noteq> SniffPanic"
proof -
  obtain ls k where "sniff_loop (frame_count args) 0 (replicate 2048 0) frames = Ret (ls, k)"
    using sniff_loop_total [of 0] by blast
  then show ?thesis
    using assms by (auto simp: sniff_main_def ifr_name_def split: sum.splits)
qed

text \<open>An interface name of more than 16 bytes panics.\<close>

lemma sniff_main_long_name:
  assumes "2 \<le> length args" and "IFNAMSIZ < length (args ! 1)"
  shows "sniff_main args (Inr ()) ifindex bound frames = SniffPanic"
  using assms by (simp add: sniff_main_def ifr_name_def ascii_def)

section \<open>Properties\<close>

text \<open>
  The link test measures the link. If the twenty packets reach the receiver before its
  deadline, in order and among any other traffic, it reports exactly the packets that were sent,
  numbered from one, each with its sequence number and the test payload; and the packets are those
  that the UDP backend reads on the port of the emergency stream.
\<close>

theorem link_test_reports_all:
  assumes "\<forall>x \<in> set rs. \<not> fst x"
    and "map snd (filter (\<lambda>x. \<not> link_test_noise (snd x)) rs) = map (\<lambda>x. Datagram (snd x)) (link_test_tx sent)"
  shows "map lt_seq (link_test_rx 0 rs) = map fst (link_test_tx sent)
    \<and> map lt_no (link_test_rx 0 rs) = [1..<length (link_test_tx sent) + 1]
    \<and> list_all (\<lambda>l. lt_content l = Some PAYLOAD) (link_test_rx 0 rs)
    \<and> link_test_port = stream_port Emergency
    \<and> list_all (\<lambda>x. recv_timeout \<lparr>rx_stream_id = STREAM_ID, rx_port = link_test_port\<rparr> [Datagram (snd x)]
         = Some (Inr (Some \<lparr>frame_data = PAYLOAD, frame_rssi_dbm = - 60, frame_stream_id = STREAM_ID,
                           frame_seq = fst x\<rparr>), [])) (link_test_tx sent)"
proof -
  have tx: "link_test_tx sent = map (\<lambda>s. (s, link_test_pkt s)) (map fst (link_test_tx sent))"
    by (simp add: link_test_tx_def comp_def)
  have "map (\<lambda>x. Datagram (snd x)) (link_test_tx sent) = map (\<lambda>s. Datagram (link_test_pkt s)) (map fst (link_test_tx sent))"
    by (simp add: link_test_tx_def comp_def)
  from link_test_rx_filter [OF assms(1) assms(2) [unfolded this], of 0]
  have "map lt_seq (link_test_rx 0 rs) = map fst (link_test_tx sent)
      \<and> map lt_no (link_test_rx 0 rs) = [1..<length (link_test_tx sent) + 1]
      \<and> list_all (\<lambda>l. lt_content l = Some PAYLOAD) (link_test_rx 0 rs)" by auto
  moreover have "recv_timeout \<lparr>rx_stream_id = STREAM_ID, rx_port = link_test_port\<rparr> [Datagram (link_test_pkt s)]
      = Some (Inr (Some \<lparr>frame_data = PAYLOAD, frame_rssi_dbm = - 60, frame_stream_id = STREAM_ID,
                        frame_seq = s\<rparr>), [])" for s
    unfolding link_test_pkt_Tx by (subst recv_own_packet) simp_all
  then have "list_all (\<lambda>x. recv_timeout \<lparr>rx_stream_id = STREAM_ID, rx_port = link_test_port\<rparr> [Datagram (snd x)]
         = Some (Inr (Some \<lparr>frame_data = PAYLOAD, frame_rssi_dbm = - 60, frame_stream_id = STREAM_ID,
                           frame_seq = fst x\<rparr>), [])) (link_test_tx sent)"
    by (simp add: link_test_tx_def list_all_iff del: recv_timeout.simps)
  ultimately show ?thesis using link_test_port_emergency by blast
qed

lemma link_test_pkt_heard: "\<not> link_test_noise (Datagram (link_test_pkt s))"
  by (simp add: link_test_noise_def link_test_pkt_def from_le_to_le_bytes)

theorem link_test_reports_all_witness:
  "map lt_seq (link_test_rx 0 ((False, WouldBlock False) # (False, Datagram [1, 2])
      # map (\<lambda>x. (False, Datagram (snd x))) (link_test_tx (\<lambda>s. s \<noteq> 3))))
   = map fst (link_test_tx (\<lambda>s. s \<noteq> 3))"
proof -
  let ?tx = "link_test_tx (\<lambda>s. s \<noteq> 3)"
  have "filter (\<lambda>x. \<not> link_test_noise (snd x)) (map (\<lambda>x. (False, Datagram (snd x))) ?tx)
      = map (\<lambda>x. (False, Datagram (snd x))) ?tx"
    by (rule filter_True) (auto simp: link_test_tx_def link_test_pkt_heard)
  then have "map snd (filter (\<lambda>x. \<not> link_test_noise (snd x)) ((False, WouldBlock False) # (False, Datagram [1, 2])
      # map (\<lambda>x. (False, Datagram (snd x))) ?tx)) = map (\<lambda>x. Datagram (snd x)) ?tx"
    by (simp add: link_test_noise_def comp_def)
  from link_test_reports_all [OF _ this] show ?thesis by auto
qed

end
