(* ===== verification/Terminal.thy ===== *)
theory Terminal
  imports NodeMachine
begin

text \<open>
  The life of the terminal: \<^verbatim>\<open>Tui\<close> of \<^verbatim>\<open>tacticalmesh-app/src/tui/mod.rs\<close>, which switches it to
  raw mode and back, and the loop \<^verbatim>\<open>run\<close> of \<^verbatim>\<open>tacticalmesh-bin/src/tui_loop.rs\<close> around the key
  commands. Whether a call of the terminal library succeeds is an argument; what the other tasks do
  to the shared state between two rounds is a function that a round starts with.
\<close>

section \<open>Raw mode\<close>

record term_mode =
  raw_mode :: bool
  alternate_screen :: bool

datatype tui_error = RawModeFailed | AlternateScreenFailed | TerminalFailed | PollFailed | ReadFailed

definition Tui_new :: "bool \<Rightarrow> bool \<Rightarrow> bool \<Rightarrow> term_mode \<Rightarrow> (tui_error + unit) \<times> term_mode" where
  "Tui_new raw_ok alt_ok new_ok t =
     (if \<not> raw_ok then (Inl RawModeFailed, t)
      else
        let t = t\<lparr>raw_mode := True\<rparr> in
        if \<not> alt_ok then (Inl AlternateScreenFailed, t)
        else
          let t = t\<lparr>alternate_screen := True\<rparr> in
          if \<not> new_ok then (Inl TerminalFailed, t) else (Inr (), t))"

text \<open>The destructor; the panic hook that \<^verbatim>\<open>main\<close> installs does the same.\<close>

definition Tui_drop :: "bool \<Rightarrow> bool \<Rightarrow> term_mode \<Rightarrow> term_mode" where
  "Tui_drop raw_ok alt_ok t =
     t\<lparr>raw_mode := raw_mode t \<and> \<not> raw_ok, alternate_screen := alternate_screen t \<and> \<not> alt_ok\<rparr>"

definition panic_hook :: "bool \<Rightarrow> bool \<Rightarrow> term_mode \<Rightarrow> term_mode" where
  "panic_hook raw_ok alt_ok t =
     t\<lparr>raw_mode := raw_mode t \<and> \<not> raw_ok, alternate_screen := alternate_screen t \<and> \<not> alt_ok\<rparr>"

section \<open>Events\<close>

datatype poll_result = PollError | PollNone | PollReadError | PollEvent term_event

fun tui_next_event :: "poll_result \<Rightarrow> tui_error + TuiEvent option" where
  "tui_next_event PollError = Inl PollFailed"
| "tui_next_event PollNone = Inr (next_event None)"
| "tui_next_event PollReadError = Inl ReadFailed"
| "tui_next_event (PollEvent e) = Inr (next_event (Some e))"

section \<open>The loop\<close>

record tui_round =
  round_others :: "Shared \<Rightarrow> Shared"
  round_poll :: poll_result
  round_io :: step_io
  round_rnd :: u16
  round_lat :: f32
  round_lon :: f32

text \<open>
  Rounds until the loop ends, with the messages handed to the outbound loop. A drawing error is
  logged only. \<open>None\<close> says that the loop is still running after the given rounds.
\<close>

fun tui_rounds ::
  "tui_round list \<Rightarrow> TuiState \<Rightarrow> Shared \<Rightarrow> OutboundMsg list
    \<Rightarrow> (tui_error + unit) option \<times> TuiState \<times> Shared \<times> OutboundMsg list" where
  "tui_rounds [] u s outs = (None, u, s, outs)"
| "tui_rounds (r # rs) u s outs =
     (let s = round_others r s in
      case tui_next_event (round_poll r) of
        Inl e \<Rightarrow> (Some (Inl e), u, s, outs)
      | Inr None \<Rightarrow> tui_rounds rs u s outs
      | Inr (Some ev) \<Rightarrow>
          (case tui_step (round_io r) (round_rnd r) (round_lat r) (round_lon r) ev u s of
             (quit, u, s, new) \<Rightarrow>
               if quit then (Some (Inr ()), u, s, outs @ new)
               else tui_rounds rs u s (outs @ new)))"

definition tui_run ::
  "bool \<Rightarrow> bool \<Rightarrow> bool \<Rightarrow> bool \<Rightarrow> bool \<Rightarrow> tui_round list \<Rightarrow> Shared \<Rightarrow> term_mode
    \<Rightarrow> (tui_error + unit) option \<times> term_mode" where
  "tui_run raw_ok alt_ok new_ok drop_raw_ok drop_alt_ok rounds s t =
     (case Tui_new raw_ok alt_ok new_ok t of
        (Inl e, t) \<Rightarrow> (Some (Inl e), t)
      | (Inr _, t) \<Rightarrow>
          (case tui_rounds rounds TuiState_new s [] of
             (None, _) \<Rightarrow> (None, t)
           | (Some res, _) \<Rightarrow> (Some res, Tui_drop drop_raw_ok drop_alt_ok t)))"

section \<open>Properties\<close>

lemma tui_run_restores:
  assumes "tui_run True True True True True rounds s t = (Some res, t')"
  shows "\<not> raw_mode t' \<and> \<not> alternate_screen t'"
  using assms
  by (auto simp: tui_run_def Tui_new_def Tui_drop_def split: prod.splits option.splits)

text \<open>
  When the terminal cannot be switched to the alternate screen, the program ends with an error and
  leaves it in raw mode: no \<open>Tui\<close> exists yet whose destructor would restore it.
\<close>

lemma failed_start_leaves_raw_mode:
  "tui_run True False new_ok d1 d2 rounds s t = (Some (Inl AlternateScreenFailed), t\<lparr>raw_mode := True\<rparr>)"
  by (simp add: tui_run_def Tui_new_def)

lemma panic_hook_restores: "panic_hook True True t = t\<lparr>raw_mode := False, alternate_screen := False\<rparr>"
  by (simp add: panic_hook_def)

text \<open>Escape leaves the compose mode, and in command mode it ends the loop.\<close>

lemma escape_step:
  "tui_step io rnd lat lon Escape u s =
     (if input_mode (sh_app s) then (False, u, s\<lparr>sh_app := (sh_app s)\<lparr>input_mode := False, input_buf := []\<rparr>\<rparr>, [])
      else (True, u, s, []))"
  by (simp add: tui_step_def tui_input_def tui_command_def Let_def)

definition escape_key :: "poll_result \<Rightarrow> bool" where
  "escape_key p \<longleftrightarrow> tui_next_event p = Inr (Some Escape)"

lemma escape_keys:
  "k = Key_Press \<or> k = Key_Repeat \<Longrightarrow> escape_key (PollEvent (Event_Key Key_Esc k control))"
  "k = Key_Press \<or> k = Key_Repeat \<Longrightarrow> escape_key (PollEvent (Event_Key (Key_Char CHR ''c'') k True))"
  by (auto simp: escape_key_def)

text \<open>
  The user can always leave. From any state of the node, pressing escape (or control-C) twice
  ends the terminal loop without an error and with the terminal out of raw mode and back on its
  main screen, provided the other tasks do not open the compose line in between.
\<close>

theorem two_escapes_end_loop:
  assumes "escape_key (round_poll r1)" and "escape_key (round_poll r2)"
    and "\<And>x. input_mode (sh_app x) = input_mode (sh_app (round_others r2 x))"
  shows "\<exists>t'. tui_run True True True True True (r1 # r2 # rs) s t = (Some (Inr ()), t')
    \<and> \<not> raw_mode t' \<and> \<not> alternate_screen t'"
proof -
  have "fst (tui_rounds (r1 # r2 # rs) TuiState_new s []) = Some (Inr ())"
    using assms by (auto simp: escape_key_def escape_step Let_def)
  then obtain rest where "tui_rounds (r1 # r2 # rs) TuiState_new s [] = (Some (Inr ()), rest)"
    by (metis prod.collapse)
  then obtain t' where run: "tui_run True True True True True (r1 # r2 # rs) s t = (Some (Inr ()), t')"
    by (simp add: tui_run_def Tui_new_def)
  with tui_run_restores [OF run] show ?thesis by blast
qed

end
