(* ===== verification/NodeConfig.thy ===== *)
theory NodeConfig
  imports NodeMachine
begin

text \<open>
  What no task of a running node changes: its identity, its key store, the picture it serves and
  the streams of its link. Each operation is shown to keep the configuration; that it is fixed
  along every run follows by rule induction. In particular the epoch of the link stays the one the
  node was started with: \<open>epoch_rotation_loop\<close> of \<^verbatim>\<open>tacticalmesh-bin/src/loops.rs\<close> only logs.
\<close>

section \<open>Configuration\<close>

record link_config =
  lc_node :: u8
  lc_key :: bytes
  lc_epoch :: u32
  lc_tx :: "Priority \<Rightarrow> u32 \<times> u16"
  lc_readers :: "Priority \<Rightarrow> reader list"

definition link_config_of :: "LinkAdapter \<Rightarrow> link_config" where
  "link_config_of l =
     \<lparr>lc_node = node_id l, lc_key = session_key l, lc_epoch = epoch l,
      lc_tx = (\<lambda>p. (tx_stream_id (tx l p), tx_port (tx l p))), lc_readers = readers l\<rparr>"

definition config :: "Shared \<Rightarrow> Identity \<times> PubkeyStore \<times> picture option \<times> link_config" where
  "config s = (sh_identity s, sh_pubkeys s, sh_local_image s, link_config_of (sh_link s))"

lemma config_simps [simp]:
  "config (s\<lparr>sh_olsr := x1\<rparr>) = config s" "config (s\<lparr>sh_app := x2\<rparr>) = config s"
  "config (s\<lparr>sh_board := x3\<rparr>) = config s" "config (s\<lparr>sh_images := x4\<rparr>) = config s"
  "config (s\<lparr>sh_nonces := x5\<rparr>) = config s"
  "config (s\<lparr>sh_bad_sigs := c1\<rparr>) = config s" "config (s\<lparr>sh_time_drops := c2\<rparr>) = config s"
  "config (s\<lparr>sh_replay_drops := c3\<rparr>) = config s" "config (s\<lparr>sh_channel_hops := c4\<rparr>) = config s"
  "config (s\<lparr>sh_stream_rots := c5\<rparr>) = config s" "config (s\<lparr>sh_radio := c6\<rparr>) = config s"
  "config (log_line s m) = config s" "config (sh_enqueue s f p) = config s"
  by (simp_all add: config_def log_line_def sh_enqueue_def enqueue_def sh_link_def)

lemma config_set_link: "link_config_of l = link_config_of (sh_link s) \<Longrightarrow> config (set_link s l) = config s"
  by (simp add: config_def set_link_def sh_link_def)

section \<open>Operations of the link\<close>

lemma send_config: "LinkAdapter_send ok l d p = (pkt, res, l') \<Longrightarrow> link_config_of l' = link_config_of l"
  by (auto simp: LinkAdapter_send_def Tx_send_def Let_def link_config_of_def fun_eq_iff)

lemma recv_config: "LinkAdapter_recv l p = Some (x, l') \<Longrightarrow> link_config_of l' = link_config_of l"
  by (auto simp: LinkAdapter_recv_def link_config_of_def split: list.splits)

lemma deliver_config: "link_config_of (LinkAdapter_deliver l p f) = link_config_of l"
  by (simp add: LinkAdapter_deliver_def link_config_of_def)

lemma allow_config: "link_config_of (set_allow_list l x) = link_config_of l"
  by (simp add: set_allow_list_def link_config_of_def)

lemma send_olsr_config:
  "send_olsr C ser now random ok j l k m = (pkt, l') \<Longrightarrow> link_config_of l' = link_config_of l"
  by (auto simp: send_olsr_def Let_def send_config split: sum.splits prod.splits)

lemma run_step_config:
  "run_step ok sc = Ret (r, sc') \<Longrightarrow> link_config_of (sched_link sc') = link_config_of (sched_link sc)"
  by (auto simp: run_step_def send_config split: rust.splits prod.splits option.splits)

section \<open>Operations of the node\<close>

lemma channel_hop_config: "config (handle_channel_hop io ch s) = config s"
  by (simp add: handle_channel_hop_def Let_def)

lemma jam_alert_config: "config (handle_jam_alert io ja s) = config s"
  by (simp add: handle_jam_alert_def Let_def channel_hop_config)

lemma tactical_config: "config (fst (handle_tactical env io msg src s)) = config s"
  by (cases msg)
    (simp_all add: handle_tactical_def handle_target_detection_def handle_bda_def handle_command_def
      handle_state_report_def handle_image_shard_def handle_chat_def handle_mayday_def Let_def
      channel_hop_config jam_alert_config split: prod.splits option.splits)

lemma send_burst_config: "config (fst (send_burst env io req n b cs s)) = config s"
proof (induction env io req n b cs s rule: send_burst.induct)
  case (2 env io req n b data rest s)
  then show ?case by (auto simp: send_shard_def Let_def split: sum.splits)
qed simp

lemma task_config: "config (fst (run_task env io t s)) = config s"
proof (cases t)
  case (Task_SendShards req n b cs dims)
  then show ?thesis
    using send_burst_config [of env io req n b cs s]
    by (auto simp: send_shards_def split: prod.splits option.splits)
qed (simp_all add: tactical_config handle_request_image_def finish_decode_def Let_def
    split: option.splits prod.splits)

lemma relay_config: "config (rx_relay env io f s) = config s"
  by (auto simp: rx_relay_def Let_def split: option.splits)

lemma dispatch_config: "config (fst (rx_dispatch env io rssi f s)) = config s"
  by (auto simp: rx_dispatch_def Let_def
      split: MsgKind.splits sum.splits OlsrMessage.splits prod.splits)

lemma jam_check_config: "config (snd (rx_jam_check env io rx s)) = config s"
  by (auto simp: rx_jam_check_def jam_respond_def Let_def jam_alert_config split: sum.splits)

lemma rx_step_config:
  assumes "rx_step env io raw meta rx s = (rx', s', ts)"
  shows "config s' = config s"
proof -
  note jam = jam_check_config [of env io] and disp = dispatch_config [of env io "rssi_dbm meta"]
  show ?thesis
    using assms
    by (auto simp: rx_step_def Let_def count_drop_def relay_config
        split: prod.splits sum.splits if_splits FrameError.splits)
      (metis disp fst_conv jam snd_conv relay_config config_simps(5))
qed

lemma show_image_config: "config (show_image t pre s img) = config s"
  by (cases img) (simp add: show_image_def)

lemma blackout_config: "config (snd (key_blackout u s)) = config s"
  unfolding key_blackout_def Let_def set_link_def [symmetric]
  by (simp add: config_set_link allow_config)

lemma tui_config: "config (fst (snd (snd (tui_step io rnd lat lon ev u s)))) = config s"
proof -
  have "config (fst (tui_input io ev s)) = config s"
    by (cases ev) (simp_all add: tui_input_def Let_def)
  moreover have "config (fst (snd (snd (tui_command io rnd lat lon ev u s)))) = config s"
    using blackout_config [of u s]
    by (cases ev)
      (auto simp: tui_command_def key_target_def key_bda_def key_image_def key_report_def Let_def
        show_image_config split: option.splits prod.splits list.splits)
  ultimately show ?thesis by (simp add: tui_step_def)
qed

lemma config_bad_sigs: "config s = c \<Longrightarrow> config (s\<lparr>sh_bad_sigs := n\<rparr>) = c"
  by simp

lemma spoofer_config: "config (spoofer_tick env io seed key active ok s) = config s"
proof -
  have "config (s\<lparr>sh_sched := (sh_sched s)\<lparr>sched_link := snd (snd (LinkAdapter_send ok (sh_link s) f Critical))\<rparr>\<rparr>)
      = config s" for f
    using send_config [of ok "sh_link s" f Critical] config_set_link [of _ s]
    by (cases "LinkAdapter_send ok (sh_link s) f Critical") (simp add: set_link_def)
  then show ?thesis by (auto simp: spoofer_tick_def Let_def intro: config_bad_sigs)
qed

lemma jammer_config: "config (jammer_tick garbage active ok s) = config s"
  using send_config [of ok "sh_link s" garbage Bulk] config_set_link [of _ s]
  by (cases "LinkAdapter_send ok (sh_link s) garbage Bulk") (simp add: jammer_tick_def set_link_def)

section \<open>Runs\<close>

lemma node_step_config:
  assumes "node_step env ns ns'"
  shows "config (ns_shared ns') = config (ns_shared ns)"
  using assms
proof cases
  case (step_hello ord now random ok pkt l)
  then show ?thesis by (simp add: hello_tick_def send_olsr_config config_set_link)
next
  case (step_tc ord now random ok sq pkt l)
  then show ?thesis by (auto simp: tc_tick_def Let_def send_olsr_config intro: config_set_link)
next
  case (step_transmit ok r sched)
  then show ?thesis using run_step_config [OF step_transmit(2)] by (simp add: config_def sh_link_def)
next
  case (step_radio p frame)
  then show ?thesis by (simp add: config_set_link deliver_config)
next
  case (step_reader p frame meta l)
  then show ?thesis by (simp add: config_set_link recv_config)
next
  case (step_rx raw meta p rest io rx s' new)
  then show ?thesis using rx_step_config by simp
next
  case (step_task before t after io s' new)
  then show ?thesis using task_config [of env io t "ns_shared ns"] by simp
next
  case (step_outbound out rest io)
  then show ?thesis by (auto simp: outbound_step_def Let_def split: sum.splits option.splits)
next
  case (step_sync io rks srcs start_ms conv s')
  then show ?thesis by (auto simp: sync_tick_def Let_def)
next
  case (step_key io rnd lat lon ev quit u s' outs)
  then show ?thesis using tui_config [of io rnd lat lon ev "ns_tui ns" "ns_shared ns"] by simp
qed (simp_all add: spoofer_config jammer_config epoch_rotation_tick_def)

lemma node_reach_config: "node_reach env start ns \<Longrightarrow> config (ns_shared ns) = config (ns_shared start)"
  by (induction rule: node_reach.induct) (simp_all add: node_step_config)

lemma node_main_config:
  assumes "node_main C tx_ok rx_ok scale pattern nid psk_file image_file tank = Inr start"
  obtains psk img l where "load_psk psk_file = Inr psk"
    and "load_local_image scale pattern image_file tank = Inr img"
    and "LinkAdapter_new (blake3 C) tx_ok rx_ok nid psk = Inr l"
    and "config (ns_shared start) = (Identity_from_seed C nid psk, demo_pubkeys C psk, img, link_config_of l)"
  using assms
  by (auto simp: node_main_def node_start_def Shared_new_def config_def sh_link_def TxScheduler_new_def
      split: sum.splits)

section \<open>Properties\<close>

text \<open>
  The streams of a running node never rotate. In every state that a node can reach, whatever
  its tasks do and however they interleave, the epoch is still 0, every priority sends on and
  listens to the stream derived from the pre-shared key and epoch 0, and each has its one reader,
  running. (The documentation says that the streams rotate every five minutes.)
\<close>

theorem streams_never_rotate:
  assumes "node_main C tx_ok rx_ok scale pattern nid psk_file image_file tank = Inr start"
    and "load_psk psk_file = Inr psk" and "node_reach env start ns"
  defines "l \<equiv> sh_link (ns_shared ns)"
  shows "epoch l = 0 \<and> session_key l = psk
    \<and> (\<forall>p. tx_stream_id (tx l p) = derive_stream_id (blake3 C) psk 0 p
         \<and> readers l p = [new_reader \<lparr>rx_stream_id = derive_stream_id (blake3 C) psk 0 p,
                                     rx_port = stream_port p\<rparr>])"
proof -
  obtain psk' img l0 where "load_psk psk_file = Inr psk'"
    and l0: "LinkAdapter_new (blake3 C) tx_ok rx_ok nid psk' = Inr l0"
    and cfg: "config (ns_shared start) = (Identity_from_seed C nid psk', demo_pubkeys C psk', img, link_config_of l0)"
    using node_main_config [OF assms(1)] by metis
  then have "psk' = psk" using assms(2) by simp
  have "link_config_of l = link_config_of l0"
    using node_reach_config [OF assms(3)] cfg by (simp add: config_def l_def)
  then show ?thesis
    using l0 \<open>psk' = psk\<close> by (auto simp: LinkAdapter_new_def link_config_of_def fun_eq_iff split: if_splits)
qed

text \<open>
  (C20) Running nodes never lose contact on the link. Whatever two nodes started with the same
  pre-shared key have done since, independently of each other, both are still in epoch 0 with one
  running reader for each priority, and a datagram that one of them sends is taken by the reader
  of its priority in the other, with exactly the frame that was sent.
\<close>

theorem running_nodes_hear_each_other:
  assumes "node_main C tx_ok rx_ok scale pattern a psk_file image_file tank = Inr starta"
    and "load_psk psk_file = Inr psk" and "node_reach enva starta nsa"
    and "node_main C tx_ok' rx_ok' scale' pattern' b psk_file' image_file' tank' = Inr startb"
    and "load_psk psk_file' = Inr psk" and "node_reach envb startb nsb"
  shows "epoch (sh_link (ns_shared nsa)) = 0 \<and> epoch (sh_link (ns_shared nsb)) = 0
    \<and> (\<forall>q. length (readers (sh_link (ns_shared nsb)) q) = 1)
    \<and> hears (sh_link (ns_shared nsb)) p (fst (LinkAdapter_send ok (sh_link (ns_shared nsa)) d p)) d"
proof -
  note A = streams_never_rotate [OF assms(1-3)] and B = streams_never_rotate [OF assms(4-6)]
  let ?la = "sh_link (ns_shared nsa)"
  obtain t where "fst (LinkAdapter_send ok ?la d p) = Tx_packet t d" and "tx_stream_id t = tx_stream_id (tx ?la p)"
    by (auto simp: LinkAdapter_send_def Tx_send_def Let_def)
  then show ?thesis using A B by (auto simp: hears_packet new_reader_def)
qed

end
