(* ===== verification/ImageCodec.thy ===== *)
theory ImageCodec
  imports NodeConfig
begin

text \<open>
  The image codec, \<^verbatim>\<open>tacticalmesh-app/src/image_codec.rs\<close>: three functions over the crate
  \<^verbatim>\<open>image\<close>, which is the parameter \<open>image_lib\<close>; \<open>image_lib_ok\<close> states what its documentation
  promises and the program relies on. Put into a node, the codec gives the pictures that are served,
  sent and shown.
\<close>

section \<open>The image crate\<close>

record ('gray, 'img) image_lib =
  GrayImage_from_raw :: "u32 \<Rightarrow> u32 \<Rightarrow> bytes \<Rightarrow> 'gray option"
  write_to_jpeg :: "'gray \<Rightarrow> u8 \<Rightarrow> string + bytes"
  load_from_memory :: "bytes \<Rightarrow> string + 'img"
  thumbnail :: "'img \<Rightarrow> u32 \<Rightarrow> u32 \<Rightarrow> 'img"
  into_luma8 :: "'img \<Rightarrow> 'gray"
  gray_width :: "'gray \<Rightarrow> u32"
  gray_height :: "'gray \<Rightarrow> u32"
  into_raw :: "'gray \<Rightarrow> bytes"

section \<open>The codec\<close>

definition encode_jpeg ::
  "('gray, 'img) image_lib \<Rightarrow> bytes \<Rightarrow> u32 \<Rightarrow> u32 \<Rightarrow> u8 \<Rightarrow> bytes option" where
  "encode_jpeg L raw width height quality =
     (case GrayImage_from_raw L width height raw of
        None \<Rightarrow> None
      | Some img \<Rightarrow> (case write_to_jpeg L img quality of Inl e \<Rightarrow> None | Inr buf \<Rightarrow> Some buf))"

definition decode_jpeg :: "('gray, 'img) image_lib \<Rightarrow> bytes \<Rightarrow> (bytes \<times> u32 \<times> u32) option" where
  "decode_jpeg L b =
     (case load_from_memory L b of
        Inl e \<Rightarrow> None
      | Inr img \<Rightarrow>
          (let gray = into_luma8 L img; w = gray_width L gray; h = gray_height L gray
           in Some (into_raw L gray, w, h)))"

definition decode_and_scale ::
  "('gray, 'img) image_lib \<Rightarrow> bytes \<Rightarrow> u32 \<Rightarrow> u32 \<Rightarrow> (bytes \<times> u32 \<times> u32) option" where
  "decode_and_scale L b max_w max_h =
     (case load_from_memory L b of
        Inl e \<Rightarrow> None
      | Inr img \<Rightarrow>
          (let img = thumbnail L img max_w max_h;
               gray = into_luma8 L img; w = gray_width L gray; h = gray_height L gray
           in Some (into_raw L gray, w, h)))"

section \<open>What the crate promises\<close>

definition pixels :: "u32 \<Rightarrow> u32 \<Rightarrow> nat" where
  "pixels w h = unat w * unat h"

text \<open>
  A container that is big enough becomes an image of the given size; a decoded image has one byte
  per pixel; a thumbnail fits within the bounds; a JPEG that was written can be loaded again and
  has the size of what was written.
\<close>

definition image_lib_ok :: "('gray, 'img) image_lib \<Rightarrow> bool" where
  "image_lib_ok L \<longleftrightarrow>
     (\<forall>w h raw. GrayImage_from_raw L w h raw = None \<longleftrightarrow> length raw < pixels w h)
   \<and> (\<forall>w h raw g. GrayImage_from_raw L w h raw = Some g \<longrightarrow> gray_width L g = w \<and> gray_height L g = h)
   \<and> (\<forall>b img. load_from_memory L b = Inr img \<longrightarrow>
        length (into_raw L (into_luma8 L img))
          = pixels (gray_width L (into_luma8 L img)) (gray_height L (into_luma8 L img)))
   \<and> (\<forall>b img mw mh. load_from_memory L b = Inr img \<longrightarrow>
        (let g = into_luma8 L (thumbnail L img mw mh)
         in gray_width L g \<le> mw \<and> gray_height L g \<le> mh
            \<and> length (into_raw L g) = pixels (gray_width L g) (gray_height L g)))
   \<and> (\<forall>g q buf. write_to_jpeg L g q = Inr buf \<longrightarrow>
        (\<exists>img. load_from_memory L buf = Inr img
           \<and> gray_width L (into_luma8 L img) = gray_width L g
           \<and> gray_height L (into_luma8 L img) = gray_height L g))"

lemma image_laws:
  assumes "image_lib_ok L"
  shows "GrayImage_from_raw L w h raw = None \<longleftrightarrow> length raw < pixels w h"
    and "GrayImage_from_raw L w h raw = Some g \<Longrightarrow> gray_width L g = w \<and> gray_height L g = h"
    and "load_from_memory L b = Inr img \<Longrightarrow>
        length (into_raw L (into_luma8 L img))
          = pixels (gray_width L (into_luma8 L img)) (gray_height L (into_luma8 L img))"
    and "load_from_memory L b = Inr img \<Longrightarrow> g = into_luma8 L (thumbnail L img mw mh) \<Longrightarrow>
        gray_width L g \<le> mw \<and> gray_height L g \<le> mh
        \<and> length (into_raw L g) = pixels (gray_width L g) (gray_height L g)"
    and "write_to_jpeg L g q = Inr b \<Longrightarrow>
        \<exists>img. load_from_memory L b = Inr img \<and> gray_width L (into_luma8 L img) = gray_width L g
          \<and> gray_height L (into_luma8 L img) = gray_height L g"
  using assms unfolding image_lib_ok_def Let_def by blast+

section \<open>Properties of the codec\<close>

lemma encode_jpeg_short:
  "image_lib_ok L \<Longrightarrow> length raw < pixels w h \<Longrightarrow> encode_jpeg L raw w h q = None"
  using image_laws(1) [of L w h raw] by (simp add: encode_jpeg_def)

text \<open>A buffer that is too long is not refused.\<close>

lemma encode_jpeg_long:
  assumes "image_lib_ok L" and "pixels w h \<le> length raw" and "\<forall>g. \<exists>buf. write_to_jpeg L g q = Inr buf"
  shows "\<exists>buf. encode_jpeg L raw w h q = Some buf"
proof -
  obtain g where "GrayImage_from_raw L w h raw = Some g"
    using image_laws(1) [OF assms(1), of w h raw] assms(2) by force
  moreover obtain buf where "write_to_jpeg L g q = Inr buf" using assms(3) by blast
  ultimately show ?thesis by (simp add: encode_jpeg_def)
qed

lemma decode_jpeg_pixels:
  "image_lib_ok L \<Longrightarrow> decode_jpeg L b = Some (px, w, h) \<Longrightarrow> length px = pixels w h"
  by (auto simp: decode_jpeg_def Let_def image_laws(3) split: sum.splits)

lemma decode_and_scale_fits:
  assumes "image_lib_ok L" and "decode_and_scale L b mw mh = Some (px, w, h)"
  shows "length px = pixels w h \<and> w \<le> mw \<and> h \<le> mh"
  using assms(2) image_laws(4) [OF assms(1), of b _ _ mw mh]
  by (auto simp: decode_and_scale_def Let_def split: sum.splits)

lemma encode_decode_size:
  assumes "image_lib_ok L" and "encode_jpeg L raw w h q = Some buf"
  shows "\<exists>px. decode_jpeg L buf = Some (px, w, h) \<and> length px = pixels w h"
proof -
  obtain g where g: "GrayImage_from_raw L w h raw = Some g" "write_to_jpeg L g q = Inr buf"
    using assms(2) by (auto simp: encode_jpeg_def split: option.splits sum.splits)
  obtain img where "load_from_memory L buf = Inr img"
    "gray_width L (into_luma8 L img) = w" "gray_height L (into_luma8 L img) = h"
    using image_laws(5) [OF assms(1) g(2)] image_laws(2) [OF assms(1) g(1)] by auto
  then have "decode_jpeg L buf = Some (into_raw L (into_luma8 L img), w, h)"
    by (simp add: decode_jpeg_def Let_def)
  with decode_jpeg_pixels [OF assms(1) this] show ?thesis by simp
qed

section \<open>The test pattern\<close>

text \<open>
  The picture a node serves when it has no file, \<^verbatim>\<open>tacticalmesh-bin/src/main.rs\<close>. \<open>band x y\<close> is
  the number of the ring that the floating-point code computes for a pixel.
\<close>

definition test_pixel :: "(nat \<Rightarrow> nat \<Rightarrow> u8) \<Rightarrow> nat \<Rightarrow> nat \<Rightarrow> u8" where
  "test_pixel band y x =
     (let ring = band x y mod 2 * 127; grad = of_nat ((x + y) mod 256)
      in saturating_add ring (grad div 2))"

definition generate_test_pattern :: "(nat \<Rightarrow> nat \<Rightarrow> u8) \<Rightarrow> picture" where
  "generate_test_pattern band =
     (concat (map (\<lambda>y. map (test_pixel band y) [0..<640]) [0..<480]), 640, 480)"

text \<open>A picture is well formed when it has one byte per pixel.\<close>

definition picture_ok :: "picture \<Rightarrow> bool" where
  "picture_ok = (\<lambda>(px, w, h). length px = pixels w h)"

lemma length_concat_rows: "\<forall>r \<in> set rows. length r = n \<Longrightarrow> length (concat rows) = length rows * n"
  by (induction rows) simp_all

lemma test_pattern_ok: "picture_ok (generate_test_pattern band)"
proof -
  have "length (concat (map (\<lambda>y. map (test_pixel band y) [0..<640]) [0..<480])) = 480 * 640"
    by (subst length_concat_rows [where n = 640]) simp_all
  then show ?thesis by (simp add: picture_ok_def generate_test_pattern_def pixels_def)
qed

section \<open>The codec in a node\<close>

definition with_codec :: "('gray, 'img) image_lib \<Rightarrow> node_env \<Rightarrow> node_env" where
  "with_codec L env = env\<lparr>jpeg_encode := encode_jpeg L, jpeg_decode := decode_jpeg L\<rparr>"

lemma with_codec_simps [simp]:
  "jpeg_encode (with_codec L env) = encode_jpeg L" "jpeg_decode (with_codec L env) = decode_jpeg L"
  by (simp_all add: with_codec_def)

lemma local_image_ok:
  assumes "image_lib_ok L"
    and "load_local_image (decode_and_scale L) (generate_test_pattern band) image_file tank = Inr img"
  shows "\<exists>pic. img = Some pic \<and> picture_ok pic"
proof -
  have scaled: "picture_ok pic" if "decode_and_scale L b IMG_MAX_W IMG_MAX_H = Some pic" for b pic
    using decode_and_scale_fits [OF assms(1)] that by (cases pic) (auto simp: picture_ok_def)
  have raw: "picture_ok (b, 640, 480)" if "length b = 640 * 480" for b
    using that by (simp add: picture_ok_def pixels_def)
  obtain pic where "img = Some pic" and "pic = generate_test_pattern band
      \<or> (\<exists>b. decode_and_scale L b IMG_MAX_W IMG_MAX_H = Some pic)
      \<or> (\<exists>b. length b = 640 * 480 \<and> pic = (b, 640, 480))"
    using assms(2)
    by (cases img) (auto simp: load_local_image_def split: option.splits sum.splits if_splits)
  then show ?thesis using scaled raw test_pattern_ok by blast
qed

text \<open>
  (C11) Every picture that a node serves can be shown by the node that asked for it. A node started
  with any image file, with the default picture or with the test pattern has, in every state it can
  reach, a local picture with one byte per pixel; a request that it answers with shards is answered
  with chunks that put together decode to a picture of exactly the announced width and height, again
  with one byte per pixel.
\<close>

theorem served_picture_decodes:
  assumes "image_lib_ok L"
    and "node_main C tx_ok rx_ok (decode_and_scale L) (generate_test_pattern band) nid psk_file image_file tank = Inr start"
    and "node_reach (with_codec L env) start ns"
    and "handle_request_image (with_codec L env) req src (ns_shared ns) = (s', ts)"
  shows "(\<exists>raw w h. sh_local_image (ns_shared ns) = Some (raw, w, h) \<and> length raw = pixels w h)
    \<and> (\<forall>r n b cs w h len. ts = [Task_SendShards r n b cs (w, h, len)] \<longrightarrow>
         r = req \<and> b = 0 \<and> len = length (concat cs) \<and> n = of_nat (length cs)
         \<and> (\<exists>px. decode_jpeg L (concat cs) = Some (px, w, h) \<and> length px = pixels w h))"
proof -
  obtain img psk l where img: "load_local_image (decode_and_scale L) (generate_test_pattern band) image_file tank = Inr img"
    "config (ns_shared start) = (Identity_from_seed C nid psk, demo_pubkeys C psk, img, link_config_of l)"
    using node_main_config [OF assms(2)] by metis
  obtain raw w h where pic: "img = Some (raw, w, h)" "length raw = pixels w h"
    using local_image_ok [OF assms(1) img(1)] by (auto simp: picture_ok_def)
  have loc: "sh_local_image (ns_shared ns) = Some (raw, w, h)"
    using node_reach_config [OF assms(3)] img(2) pic(1) by (simp add: config_def)
  have "ts = [] \<or> (\<exists>buf. encode_jpeg L raw w h 75 = Some buf
      \<and> ts = [Task_SendShards req (of_nat (length (chunks SHARD_SIZE buf))) 0 (chunks SHARD_SIZE buf) (w, h, length buf)])"
    using assms(4) loc by (auto simp: handle_request_image_def Let_def split: if_splits option.splits)
  moreover have "concat (chunks SHARD_SIZE buf) = buf" for buf :: bytes
    by (simp add: concat_chunks SHARD_SIZE_def)
  ultimately show ?thesis
    using loc pic(2) encode_decode_size [OF assms(1)] by auto
qed

end
