(* ===== verification/TestPattern.thy ===== *)
theory TestPattern
  imports Complex_Main ImageCodec
begin

text \<open>
  The rings of the test pattern, \<^verbatim>\<open>tacticalmesh-bin/src/main.rs\<close>, whose numbers the code computes in
  single precision. Every operation is the real one followed by rounding; \<open>f32_rounding\<close> says what
  IEEE 754 promises of the rounding in the range that is used: numbers of 24 bits are exact and the
  relative error is at most \<open>2 ^ - 24\<close>. With it the rings are those of exact arithmetic.
\<close>

definition f32_rounding :: "(real \<Rightarrow> real) \<Rightarrow> bool" where
  "f32_rounding rnd \<longleftrightarrow>
     (\<forall>m :: int. \<bar>m\<bar> \<le> 2 ^ 24 \<longrightarrow> rnd (of_int m / 8) = of_int m / 8)
   \<and> (\<forall>v. 1 / 2 ^ 126 \<le> v \<longrightarrow> v \<le> 2 ^ 127 \<longrightarrow> \<bar>rnd v - v\<bar> \<le> v / 2 ^ 24)"

text \<open>The conversion of a float to \<^verbatim>\<open>u8\<close> truncates and saturates.\<close>

definition u8_of_float :: "real \<Rightarrow> u8" where
  "u8_of_float v = word_of_int (max 0 (min 255 \<lfloor>v\<rfloor>))"

definition f32_band :: "(real \<Rightarrow> real) \<Rightarrow> nat \<Rightarrow> nat \<Rightarrow> u8" where
  "f32_band rnd x y =
     (let cx = rnd (640 / 2);
          cy = rnd (480 / 2);
          max_r = rnd (sqrt (rnd (rnd (cx * cx) + rnd (cy * cy))));
          dx = rnd (rnd (real x) - cx);
          dy = rnd (rnd (real y) - cy);
          r = rnd (sqrt (rnd (rnd (dx * dx) + rnd (dy * dy))))
      in u8_of_float (rnd (rnd (r / max_r) * 8)))"

text \<open>The rings are 50 pixels wide around the centre.\<close>

definition ring_number :: "nat \<Rightarrow> nat" where
  "ring_number n = length (filter (\<lambda>k. 2500 * k * k \<le> n) [1..<9])"

definition ring_band :: "nat \<Rightarrow> nat \<Rightarrow> u8" where
  "ring_band x y =
     (let dx = int x - 320; dy = int y - 240 in of_nat (ring_number (nat (dx * dx + dy * dy))))"

section \<open>The ring of a distance\<close>

lemma ring_number_bounds:
  assumes "n \<le> 160000"
  shows "2500 * ring_number n * ring_number n \<le> n" and "n < 2500 * (ring_number n + 1) * (ring_number n + 1)"
    and "ring_number n \<le> 8"
proof -
  have "[1..<9] = [1, 2, 3, 4, 5, 6, 7, 8 :: nat]" by (simp add: upt_rec)
  moreover have "n < 2500 \<or> 2500 \<le> n \<and> n < 10000 \<or> 10000 \<le> n \<and> n < 22500 \<or> 22500 \<le> n \<and> n < 40000
      \<or> 40000 \<le> n \<and> n < 62500 \<or> 62500 \<le> n \<and> n < 90000 \<or> 90000 \<le> n \<and> n < 122500
      \<or> 122500 \<le> n \<and> n < 160000 \<or> n = 160000"
    using assms by linarith
  ultimately show "2500 * ring_number n * ring_number n \<le> n"
    and "n < 2500 * (ring_number n + 1) * (ring_number n + 1)" and "ring_number n \<le> 8"
    unfolding ring_number_def by (elim disjE; simp)+
qed

section \<open>Rounding\<close>

lemma f32_exact:
  assumes "f32_rounding rnd" and "8 * v = of_int m" and "\<bar>m\<bar> \<le> 2 ^ 24"
  shows "rnd v = v"
proof -
  have "v = of_int m / 8" using assms(2) by simp
  then show ?thesis using assms(1,3) unfolding f32_rounding_def by metis
qed

lemma f32_int: "f32_rounding rnd \<Longrightarrow> \<bar>m\<bar> \<le> 2 ^ 21 \<Longrightarrow> rnd (of_int m) = of_int m"
  by (rule f32_exact [where m = "8 * m"]) simp_all

lemma f32_error:
  assumes "f32_rounding rnd" and "1 / 2 ^ 20 \<le> v" and "v \<le> 2 ^ 20"
  shows "v * (1 - 1 / 2 ^ 24) \<le> rnd v" and "rnd v \<le> v * (1 + 1 / 2 ^ 24)"
proof -
  have "1 / 2 ^ 126 \<le> v" and "v \<le> 2 ^ 127"
    using assms(2,3) by (auto intro: order_trans [where y = "1 / 2 ^ 20"] order_trans [where y = "2 ^ 20"])
  then have "\<bar>rnd v - v\<bar> \<le> v / 2 ^ 24" using assms(1) unfolding f32_rounding_def by blast
  then have "v - v / 2 ^ 24 \<le> rnd v" and "rnd v \<le> v + v / 2 ^ 24" by (simp_all only: abs_le_iff) argo+
  then show "v * (1 - 1 / 2 ^ 24) \<le> rnd v" and "rnd v \<le> v * (1 + 1 / 2 ^ 24)"
    by (simp_all only: right_diff_distrib distrib_left mult_1_right times_divide_eq_right)
qed

lemma f32_three:
  fixes s :: real
  assumes rnd: "f32_rounding rnd" and s: "1 \<le> s" "s \<le> 400"
  shows "s / 50 * (1 - 3 / 2 ^ 24) \<le> rnd (rnd (rnd s / 400) * 8)"
    and "rnd (rnd (rnd s / 400) * 8) \<le> s / 50 * (1 + 4 / 2 ^ 24)"
proof -
  let ?a = "rnd s" let ?b = "rnd (?a / 400)"
  have a: "s * (1 - 1 / 2 ^ 24) \<le> ?a" "?a \<le> s * (1 + 1 / 2 ^ 24)" using f32_error [OF rnd, of s] s by simp_all
  then have ar: "1 / 2 \<le> ?a" "?a \<le> 500" using s by simp_all
  then have "1 / 2 ^ 20 \<le> ?a / 400" "?a / 400 \<le> 2 ^ 20" by simp_all
  note b = f32_error [OF rnd this]
  then have "1 / 2 ^ 20 \<le> ?b * 8" "?b * 8 \<le> 2 ^ 20" using ar by simp_all
  note c = f32_error [OF rnd this]
  show "s / 50 * (1 - 3 / 2 ^ 24) \<le> rnd (?b * 8)" using s a(1) b(1) c(1) by simp
  show "rnd (?b * 8) \<le> s / 50 * (1 + 4 / 2 ^ 24)" using s a(2) b(2) c(2) by simp
qed

text \<open>Rounding three times does not reach the next ring.\<close>

lemma f32_ring:
  assumes rnd: "f32_rounding rnd" and "n \<le> 160000"
  shows "\<lfloor>rnd (rnd (rnd (sqrt (real n)) / 400) * 8)\<rfloor> = int (ring_number n)"
proof -
  let ?k = "ring_number n" and ?s = "sqrt (real n)"
  note b = ring_number_bounds [OF assms(2)]
  show ?thesis
  proof (cases "n = 2500 * ?k * ?k")
    case True
    have "real n = real (2500 * ?k * ?k)" by (rule arg_cong [OF True])
    then have "real n = (50 * real ?k)\<^sup>2" by (simp add: power2_eq_square)
    then have s: "?s = 50 * real ?k" by (simp only: real_sqrt_abs)
    have "rnd ?s = ?s" by (rule f32_exact [OF rnd, where m = "400 * int ?k"]) (use b(3) s in simp_all)
    moreover have "rnd (real ?k / 8) = real ?k / 8"
      by (rule f32_exact [OF rnd, where m = "int ?k"]) (use b(3) in simp_all)
    moreover have "rnd (real ?k) = real ?k"
      using f32_int [OF rnd, of "int ?k"] b(3) by simp
    ultimately show ?thesis by (simp add: s)
  next
    case False
    let ?e = "1 / 2 ^ 24 :: real"
    have k: "?k \<le> 7" using False b assms(2) by (cases "?k = 8") auto
    have n: "2500 * ?k * ?k + 1 \<le> n" "n + 1 \<le> 2500 * (?k + 1) * (?k + 1)" "1 \<le> n" using False b(1,2) by linarith+
    have lo: "50 * real ?k * (1 + 1 / 10 ^ 6) \<le> ?s"
    proof (rule real_le_rsqrt)
      have "real ?k * real ?k \<le> 49" using k mult_mono [of "real ?k" 7 "real ?k" 7] by simp
      moreover have "2500 * (real ?k * real ?k) + 1 \<le> real n"
        using n(1) of_nat_mono [of "2500 * ?k * ?k + 1" n, where 'a = real] by (simp add: mult.assoc)
      ultimately show "(50 * real ?k * (1 + 1 / 10 ^ 6))\<^sup>2 \<le> real n"
        by (simp add: power2_eq_square field_simps)
    qed
    have hi: "?s \<le> 50 * (real ?k + 1) * (1 - 1 / 10 ^ 6)"
    proof (rule real_le_lsqrt)
      have "(real ?k + 1) * (real ?k + 1) \<le> 64"
        using k mult_mono [of "real ?k + 1" 8 "real ?k + 1" 8] by simp
      moreover have "real n + 1 \<le> 2500 * ((real ?k + 1) * (real ?k + 1))"
        using of_nat_mono [OF n(2), where 'a = real]
        by (simp only: of_nat_mult of_nat_add of_nat_1 of_nat_numeral mult.assoc)
      ultimately show "real n \<le> (50 * (real ?k + 1) * (1 - 1 / 10 ^ 6))\<^sup>2"
        by (simp add: power2_eq_square field_simps)
    qed simp_all
    have s: "1 \<le> ?s" "?s \<le> 400" using n(3) assms(2) real_sqrt_le_mono [of "real n" 160000] by simp_all
    let ?c = "rnd (rnd (rnd ?s / 400) * 8)"
    note c = f32_three [OF rnd s]
    have "0 \<le> real ?k" by simp
    then have "real ?k \<le> ?s / 50 * (1 - 3 / 2 ^ 24)" using lo s(1) by (simp add: field_simps)
    then have "real ?k \<le> ?c" using c(1) by linarith
    have "?s / 50 * (1 + 4 / 2 ^ 24) \<le> (real ?k + 1) * (1 - 1 / 10 ^ 6) * (1 + 4 / 2 ^ 24)"
      using hi by (intro mult_right_mono) simp_all
    also have "\<dots> < real ?k + 1" by (simp add: field_simps)
    finally have "?c < real ?k + 1" using c(2) by linarith
    with \<open>real ?k \<le> ?c\<close> show ?thesis by (simp add: floor_eq_iff)
  qed
qed

lemma f32_band_ring:
  assumes rnd: "f32_rounding rnd" and "x < 640" and "y < 480"
  shows "f32_band rnd x y = ring_band x y"
proof -
  define dx dy where "dx = int x - 320" and "dy = int y - 240"
  have d: "\<bar>dx\<bar> \<le> 320" "\<bar>dy\<bar> \<le> 240" using assms(2,3) by (auto simp: dx_def dy_def)
  have sq: "dx * dx \<le> 320 * 320" "dy * dy \<le> 240 * 240" "0 \<le> dx * dx" "0 \<le> dy * dy"
    using d abs_mult_self_eq [of dx] abs_mult_self_eq [of dy]
      mult_mono [of "\<bar>dx\<bar>" 320 "\<bar>dx\<bar>" 320] mult_mono [of "\<bar>dy\<bar>" 240 "\<bar>dy\<bar>" 240] by simp_all
  define n where "n = nat (dx * dx + dy * dy)"
  have n: "int n = dx * dx + dy * dy" "n \<le> 160000" using sq by (simp_all add: n_def)
  note I = f32_int [OF rnd]
  have "rnd (640 / 2) = 320" "rnd (480 / 2) = 240" using I [of 320] I [of 240] by simp_all
  moreover have "rnd (real x) = real x" using I [of "int x"] assms(2) by simp
  moreover have "rnd (real y) = real y" using I [of "int y"] assms(3) by simp
  ultimately have c: "rnd (640 / 2) = 320" "rnd (480 / 2) = 240" "rnd (real x) = real x" "rnd (real y) = real y"
    by blast+
  have m: "rnd (sqrt (rnd (rnd (320 * 320) + rnd (240 * 240)))) = 400"
    using I [of 102400] I [of 57600] I [of 160000] I [of 400] real_sqrt_abs [of 400] by simp
  have "real x - 320 = of_int dx" "real y - 240 = of_int dy" by (simp_all add: dx_def dy_def)
  moreover have "rnd (of_int dx) = of_int dx" "rnd (of_int dy) = of_int dy" using I d by simp_all
  moreover have "rnd (of_int dx * of_int dx) = of_int (dx * dx)" "rnd (of_int dy * of_int dy) = of_int (dy * dy)"
    using I [of "dx * dx"] I [of "dy * dy"] sq by simp_all
  moreover have "rnd (of_int (dx * dx) + of_int (dy * dy)) = real n"
  proof -
    have "of_int (dx * dx) + of_int (dy * dy) = (of_int (int n) :: real)" unfolding n(1) by simp
    moreover have "rnd (of_int (int n)) = of_int (int n)" using I [of "int n"] n(2) by simp
    ultimately show ?thesis by simp
  qed
  ultimately have "f32_band rnd x y = u8_of_float (rnd (rnd (rnd (sqrt (real n)) / 400) * 8))"
    unfolding f32_band_def Let_def c m by metis
  also have "\<dots> = of_nat (ring_number n)"
    using f32_ring [OF rnd n(2)] ring_number_bounds(3) [OF n(2)] by (simp add: u8_of_float_def)
  finally show ?thesis by (simp add: ring_band_def Let_def n_def dx_def dy_def)
qed

text \<open>
  (C31) The test pattern of a node without a picture, computed in single precision, is the one of
  exact integer arithmetic, pixel by pixel: rings 50 pixels wide around the centre, alternating
  between 0 and 127, plus half of the diagonal gradient. No rounding moves a pixel to another ring.
\<close>

theorem test_pattern_exact:
  assumes "f32_rounding rnd"
  shows "generate_test_pattern (f32_band rnd) = generate_test_pattern ring_band"
proof -
  have "map (test_pixel (f32_band rnd) y) [0..<640] = map (test_pixel ring_band y) [0..<640]" if "y < 480" for y
    using that by (simp add: test_pixel_def f32_band_ring [OF assms])
  then have "map (\<lambda>y. map (test_pixel (f32_band rnd) y) [0..<640]) [0..<480]
      = map (\<lambda>y. map (test_pixel ring_band y) [0..<640]) [0..<480]"
    by (intro map_cong) auto
  then show ?thesis by (simp only: generate_test_pattern_def)
qed

lemma exact_rounding: "f32_rounding (\<lambda>v. v)"
  by (simp add: f32_rounding_def)

theorem test_pattern_exact_witness:
  "generate_test_pattern (f32_band (\<lambda>v. v)) = generate_test_pattern ring_band
   \<and> test_pixel ring_band 240 320 = 24 \<and> test_pixel ring_band 240 370 = 176"
proof -
  have "ring_number 0 = 0" "ring_number 2500 = 1" by (simp_all add: ring_number_def upt_rec)
  then show ?thesis
    using test_pattern_exact [OF exact_rounding]
    by (simp add: test_pixel_def ring_band_def saturating_add_def Let_def)
qed

end
