(* ===== verification/Main_Program.thy ===== *)
theory Main_Program
  imports Terminal TestPattern
begin

text \<open>
  The whole of \<^verbatim>\<open>tacticalmesh-bin/src/main.rs\<close>: from the command line through the start-up of
  \<open>node_main\<close> to the terminal loop and the end of the process, with what it logs. The values of the
  declared options come from the command-line library, the contents of files, the sockets and the
  terminal from the system: arguments.
\<close>

section \<open>Command line\<close>

record Cli =
  cli_node_id :: u8
  cli_iface :: string
  cli_psk_file :: "string option"
  cli_image_file :: "string option"

text \<open>
  \<open>arg\<close> gives the value of a declared option on a line without other options, \<open>u8_value\<close> reads a
  number. Without a number for the node the library ends the process with its usage message, as it
  does by itself for undeclared options and for requests for help, which are not modelled.
\<close>

definition Cli_parse :: "(string \<Rightarrow> u8 option) \<Rightarrow> (string \<Rightarrow> string option) \<Rightarrow> Cli option" where
  "Cli_parse u8_value arg =
     (case arg ''node-id'' of
        None \<Rightarrow> None
      | Some v \<Rightarrow>
          (case u8_value v of
             None \<Rightarrow> None
           | Some n \<Rightarrow>
               Some \<lparr>cli_node_id = n,
                     cli_iface = (case arg ''iface'' of None \<Rightarrow> ''wlan1'' | Some i \<Rightarrow> i),
                     cli_psk_file = arg ''psk-file'',
                     cli_image_file = arg ''image-file''\<rparr>))"

section \<open>System and log\<close>

record system =
  read_file :: "string \<Rightarrow> string + bytes"
  path_exists :: "string \<Rightarrow> bool"
  tx_opens :: "string \<Rightarrow> Priority \<Rightarrow> bool"
  rx_opens :: "string \<Rightarrow> Priority \<Rightarrow> bool"
  raw_enters :: bool
  alt_enters :: bool
  term_opens :: bool
  raw_leaves :: bool
  alt_leaves :: bool

datatype log_event =
    Warn_demo_psk
  | Info_raw_image string
  | Info_image u32 u32 string
  | Info_tank u32 u32
  | Warn_tank
  | Info_test_pattern
  | Info_starting u8 string u32
  | Info_shutting_down u8

definition TANK :: string where "TANK = ''assets/tank.jpg''"

definition image_log :: "system \<Rightarrow> (bytes \<Rightarrow> u32 \<Rightarrow> u32 \<Rightarrow> picture option) \<Rightarrow> Cli \<Rightarrow> log_event list" where
  "image_log os scale cli =
     (case cli_image_file cli of
        Some path \<Rightarrow>
          (case read_file os path of
             Inl e \<Rightarrow> []
           | Inr b \<Rightarrow>
               if length b = 640 * 480 then [Info_raw_image path]
               else case scale b IMG_MAX_W IMG_MAX_H of
                      None \<Rightarrow> []
                    | Some (raw, w, h) \<Rightarrow> [Info_image w h path])
      | None \<Rightarrow>
          if path_exists os TANK then
            (case read_file os TANK of
               Inl e \<Rightarrow> []
             | Inr b \<Rightarrow>
                 (case scale b IMG_MAX_W IMG_MAX_H of
                    Some (raw, w, h) \<Rightarrow> [Info_tank w h]
                  | None \<Rightarrow> [Warn_tank]))
          else [Info_test_pattern])"

section \<open>The program\<close>

definition start_node ::
  "crypto \<Rightarrow> system \<Rightarrow> (bytes \<Rightarrow> u32 \<Rightarrow> u32 \<Rightarrow> picture option) \<Rightarrow> (real \<Rightarrow> real) \<Rightarrow> Cli
    \<Rightarrow> boot_error + node_state" where
  "start_node C os scale rnd cli =
     node_main C (tx_opens os (cli_iface cli)) (rx_opens os (cli_iface cli)) scale
       (generate_test_pattern (f32_band rnd)) (cli_node_id cli)
       (map_option (read_file os) (cli_psk_file cli)) (map_option (read_file os) (cli_image_file cli))
       (if path_exists os TANK then Some (read_file os TANK) else None)"

datatype exit = Exit_usage | Exit_boot boot_error | Exit_terminal tui_error | Exit_ok

text \<open>
  The program over the rounds of its terminal loop; no exit means that the loop still runs after
  them.
\<close>

definition program ::
  "crypto \<Rightarrow> system \<Rightarrow> (bytes \<Rightarrow> u32 \<Rightarrow> u32 \<Rightarrow> picture option) \<Rightarrow> (real \<Rightarrow> real) \<Rightarrow> (string \<Rightarrow> u8 option)
    \<Rightarrow> (string \<Rightarrow> string option) \<Rightarrow> tui_round list \<Rightarrow> term_mode
    \<Rightarrow> exit option \<times> term_mode \<times> log_event list" where
  "program C os scale rnd u8_value arg rounds t =
     (case Cli_parse u8_value arg of
        None \<Rightarrow> (Some Exit_usage, t, [])
      | Some cli \<Rightarrow>
          let log = (if cli_psk_file cli = None then [Warn_demo_psk] else []) in
          (case start_node C os scale rnd cli of
             Inl e \<Rightarrow> (Some (Exit_boot e), t, log)
           | Inr ns \<Rightarrow>
               let log = log @ image_log os scale cli
                     @ [Info_starting (cli_node_id cli) (cli_iface cli) (epoch (sh_link (ns_shared ns)))] in
               (case tui_run (raw_enters os) (alt_enters os) (term_opens os) (raw_leaves os) (alt_leaves os)
                       rounds (ns_shared ns) t of
                  (None, t) \<Rightarrow> (None, t, log)
                | (Some (Inl e), t) \<Rightarrow> (Some (Exit_terminal e), t, log)
                | (Some (Inr _), t) \<Rightarrow> (Some Exit_ok, t, log @ [Info_shutting_down (cli_node_id cli)]))))"

section \<open>Start-up\<close>

lemma link_opens:
  "LinkAdapter_new h tx_ok rx_ok nid key = Inl e \<longleftrightarrow> e = IoError \<and> \<not> (\<forall>p. tx_ok p \<and> rx_ok p)"
  by (auto simp: LinkAdapter_new_def list_all_iff set_PRIORITIES)

text \<open>A start-up fails for one of five reasons, in this order.\<close>

lemma node_main_error:
  assumes "node_main C tx_ok rx_ok scale pattern nid psk_file image_file tank = Inl e"
  shows "(\<exists>m. psk_file = Some (Inl m) \<and> e = ReadError m)
    \<or> (\<exists>b. psk_file = Some (Inr b) \<and> length b \<noteq> 32 \<and> e = BadPsk)
    \<or> \<not> (\<forall>p. tx_ok p \<and> rx_ok p) \<and> e = LinkFailed IoError
    \<or> (\<exists>m. image_file = Some (Inl m) \<and> e = ReadError m)
    \<or> (\<exists>b. image_file = Some (Inr b) \<and> length b \<noteq> 640 * 480 \<and> scale b IMG_MAX_W IMG_MAX_H = None \<and> e = BadImage)
    \<or> (\<exists>m. image_file = None \<and> tank = Some (Inl m) \<and> e = ReadError m)"
  using assms
  by (auto simp: node_main_def load_psk_def load_local_image_def link_opens
      split: sum.splits option.splits if_splits)

text \<open>How the terminal loop can end, and what it leaves of the terminal.\<close>

lemma tui_next_event_error: "tui_next_event p = Inl e \<Longrightarrow> e \<in> {PollFailed, ReadFailed}"
  by (cases p) simp_all

lemma tui_rounds_error:
  "tui_rounds rs u s outs = (Some (Inl e), x) \<Longrightarrow> e \<in> {PollFailed, ReadFailed}"
proof (induction rs u s outs rule: tui_rounds.induct)
  case (2 r rs u s outs)
  show ?case
  proof (cases "tui_next_event (round_poll r)")
    case (Inl e')
    then show ?thesis using 2 tui_next_event_error [OF Inl] by (simp add: Let_def)
  next
    case (Inr ev)
    then show ?thesis using 2 by (cases ev) (auto simp: Let_def split: prod.splits if_splits)
  qed
qed simp

lemma tui_run_ends:
  assumes "tui_run raw_ok alt_ok new_ok raw_off alt_off rounds s t = (Some res, t')"
    and "\<not> raw_mode t" and "\<not> alternate_screen t"
  defines "dropped \<equiv> res \<in> {Inr (), Inl PollFailed, Inl ReadFailed}"
  shows "(raw_mode t' \<longleftrightarrow> res \<in> {Inl AlternateScreenFailed, Inl TerminalFailed} \<or> dropped \<and> \<not> raw_off)
    \<and> (alternate_screen t' \<longleftrightarrow> res = Inl TerminalFailed \<or> dropped \<and> \<not> alt_off)
    \<and> (res = Inl RawModeFailed \<longleftrightarrow> \<not> raw_ok)
    \<and> (res = Inl AlternateScreenFailed \<longleftrightarrow> raw_ok \<and> \<not> alt_ok)
    \<and> (res = Inl TerminalFailed \<longleftrightarrow> raw_ok \<and> alt_ok \<and> \<not> new_ok)"
proof (cases "raw_ok \<and> alt_ok \<and> new_ok")
  case True
  then obtain x where loop: "tui_rounds rounds TuiState_new s [] = (Some res, x)"
    and t': "t' = Tui_drop raw_off alt_off (t\<lparr>raw_mode := True, alternate_screen := True\<rparr>)"
    using assms(1) by (auto simp: tui_run_def Tui_new_def split: option.splits prod.splits)
  have "res \<in> {Inr (), Inl PollFailed, Inl ReadFailed}"
    using tui_rounds_error [of rounds TuiState_new s "[]" _ x] loop by (cases res) auto
  then show ?thesis
    using True t' by (auto simp: Tui_drop_def dropped_def)
next
  case False
  then show ?thesis
    using assms by (auto simp: tui_run_def Tui_new_def Let_def dropped_def split: if_splits)
qed

section \<open>Properties\<close>

text \<open>
  (C27) From the command line to the exit, whether or not the calls that switch the terminal work. A
  program that started with the terminal in its ordinary mode and has ended left it in raw mode in
  exactly these cases: the alternate screen or the drawing surface could not be opened, so that no
  \<open>Tui\<close> exists whose destructor would run, or the loop has ended and the call that leaves raw mode
  failed, an error the destructor ignores. It left the alternate screen on exactly when the drawing
  surface could not be opened, or the loop has ended and the call that leaves the screen failed. The
  three opening errors are reported exactly when the respective call is the first to fail. The
  program ends well exactly when its log ends with the line of the shutdown; and a start-up that
  fails never touches the terminal.
\<close>

theorem program_exit:
  assumes "program C os scale rnd u8_value arg rounds t = (Some res, t', lines)"
    and "\<not> raw_mode t" and "\<not> alternate_screen t"
  shows "(raw_mode t' \<longleftrightarrow>
           res \<in> {Exit_terminal AlternateScreenFailed, Exit_terminal TerminalFailed}
           \<or> res \<in> {Exit_ok, Exit_terminal PollFailed, Exit_terminal ReadFailed} \<and> \<not> raw_leaves os)
    \<and> (alternate_screen t' \<longleftrightarrow>
           res = Exit_terminal TerminalFailed
           \<or> res \<in> {Exit_ok, Exit_terminal PollFailed, Exit_terminal ReadFailed} \<and> \<not> alt_leaves os)
    \<and> (res = Exit_terminal RawModeFailed \<longrightarrow> \<not> raw_enters os)
    \<and> (res = Exit_terminal AlternateScreenFailed \<longrightarrow> raw_enters os \<and> \<not> alt_enters os)
    \<and> (res = Exit_terminal TerminalFailed \<longrightarrow> raw_enters os \<and> alt_enters os \<and> \<not> term_opens os)
    \<and> (res = Exit_ok \<longleftrightarrow> (\<exists>n. lines \<noteq> [] \<and> last lines = Info_shutting_down n))
    \<and> (res = Exit_usage \<longleftrightarrow> Cli_parse u8_value arg = None)
    \<and> (\<forall>e. res = Exit_boot e \<longrightarrow> t' = t)"
proof (cases "Cli_parse u8_value arg")
  case None
  then show ?thesis using assms by (auto simp: program_def)
next
  case (Some cli)
  show ?thesis
  proof (cases "start_node C os scale rnd cli")
    case (Inl e)
    then show ?thesis using assms Some by (auto simp: program_def split: if_splits)
  next
    case (Inr ns)
    obtain r t'' where run: "tui_run (raw_enters os) (alt_enters os) (term_opens os) (raw_leaves os) (alt_leaves os)
        rounds (ns_shared ns) t = (r, t'')" by fastforce
    then obtain r' where r: "r = Some r'" using assms Some Inr
      by (cases r) (auto simp: program_def Let_def)
    note ends = tui_run_ends [OF run [unfolded r] assms(2,3)]
    have t': "t' = t''" and res: "res = (case r' of Inl e \<Rightarrow> Exit_terminal e | Inr _ \<Rightarrow> Exit_ok)"
      and lines: "(\<exists>n. lines \<noteq> [] \<and> last lines = Info_shutting_down n) \<longleftrightarrow> r' = Inr ()"
      using assms(1) Some Inr run r by (cases r'; auto simp: program_def Let_def)+
    show ?thesis
      using ends unfolding t' lines res Some by (cases r') auto
  qed
qed

text \<open>Two escapes, the witness: nodes that start and quit, and a terminal without a second screen.\<close>

definition plain_system :: "bool \<Rightarrow> system" where
  "plain_system alt = \<lparr>read_file = (\<lambda>_. Inl ''no such file''), path_exists = (\<lambda>_. False),
     tx_opens = (\<lambda>_ _. True), rx_opens = (\<lambda>_ _. True), raw_enters = True, alt_enters = alt,
     term_opens = True, raw_leaves = True, alt_leaves = True\<rparr>"

definition plain_args :: "string \<Rightarrow> string option" where
  "plain_args = [''node-id'' \<mapsto> ''2'']"

definition quit_round :: tui_round where
  "quit_round = \<lparr>round_others = (\<lambda>s. s), round_poll = PollEvent (Event_Key Key_Esc Key_Press False),
     round_io = \<lparr>io_now = 0, io_frame = (\<lambda>_. (0, [])), io_ord = (\<lambda>_. []), io_board_ord = [],
       io_iw_spawned = False, io_iw_success = False\<rparr>, round_rnd = 0, round_lat = 0, round_lon = 0\<rparr>"

definition plain_program :: "bool \<Rightarrow> exit option \<times> term_mode \<times> log_event list" where
  "plain_program alt =
     program demo_crypto (plain_system alt) (\<lambda>_ _ _. None) (\<lambda>v. v) (\<lambda>v. if v = ''2'' then Some 2 else None)
       plain_args [quit_round] \<lparr>raw_mode = False, alternate_screen = False\<rparr>"

lemma plain_program_run:
  "plain_program True = (Some Exit_ok, \<lparr>raw_mode = False, alternate_screen = False\<rparr>,
     [Warn_demo_psk, Info_test_pattern, Info_starting 2 ''wlan1'' 0, Info_shutting_down 2])"
  "plain_program False = (Some (Exit_terminal AlternateScreenFailed), \<lparr>raw_mode = True, alternate_screen = False\<rparr>,
     [Warn_demo_psk, Info_test_pattern, Info_starting 2 ''wlan1'' 0])"
proof -
  let ?cli = "\<lparr>cli_node_id = 2, cli_iface = ''wlan1'', cli_psk_file = None, cli_image_file = None\<rparr>"
  have cli: "Cli_parse (\<lambda>v. if v = ''2'' then Some 2 else None) plain_args = Some ?cli"
    by (simp add: Cli_parse_def plain_args_def)
  have log: "image_log (plain_system alt) sc ?cli = [Info_test_pattern]" for alt sc
    by (simp add: image_log_def plain_system_def)
  have start: "\<exists>ns. start_node demo_crypto (plain_system alt) (\<lambda>_ _ _. None) (\<lambda>v. v) ?cli = Inr ns
      \<and> epoch (sh_link (ns_shared ns)) = 0 \<and> \<not> input_mode (sh_app (ns_shared ns))" for alt
    by (simp add: start_node_def node_main_def load_psk_def load_local_image_def plain_system_def
        LinkAdapter_new_def list_all_iff node_start_def Shared_new_def sh_link_def TxScheduler_new_def AppState_new_def)
  have quit: "fst (tui_rounds [quit_round] TuiState_new s []) = Some (Inr ())" if "\<not> input_mode (sh_app s)" for s
    using that by (simp add: quit_round_def escape_step Let_def)
  have run: "tui_run True alt True True True [quit_round] s \<lparr>raw_mode = False, alternate_screen = False\<rparr>
      = (if alt then (Some (Inr ()), \<lparr>raw_mode = False, alternate_screen = False\<rparr>)
         else (Some (Inl AlternateScreenFailed), \<lparr>raw_mode = True, alternate_screen = False\<rparr>))"
    if "\<not> input_mode (sh_app s)" for alt s
    using quit [OF that]
    by (cases "tui_rounds [quit_round] TuiState_new s []") (simp add: tui_run_def Tui_new_def Tui_drop_def)
  show "plain_program True = (Some Exit_ok, \<lparr>raw_mode = False, alternate_screen = False\<rparr>,
      [Warn_demo_psk, Info_test_pattern, Info_starting 2 ''wlan1'' 0, Info_shutting_down 2])"
    using start [of True] cli log run [where alt = True]
    by (auto simp: plain_program_def program_def plain_system_def)
  show "plain_program False = (Some (Exit_terminal AlternateScreenFailed), \<lparr>raw_mode = True, alternate_screen = False\<rparr>,
      [Warn_demo_psk, Info_test_pattern, Info_starting 2 ''wlan1'' 0])"
    using start [of False] cli log run [where alt = False]
    by (auto simp: plain_program_def program_def plain_system_def)
qed

theorem program_exit_witness:
  "\<not> alt_enters (plain_system False) \<and> fst (plain_program False) = Some (Exit_terminal AlternateScreenFailed)
   \<and> fst (plain_program True) = Some Exit_ok"
  using program_exit [OF plain_program_run(2) [unfolded plain_program_def]]
    program_exit [OF plain_program_run(1) [unfolded plain_program_def]] plain_program_run
  by (simp add: plain_system_def)

end
