(* ===== verification/Mesh.thy ===== *)
theory Mesh
  imports NodeConfig
begin

text \<open>
  Many nodes and the air between them, with the adversary of the threat model in
  \<^verbatim>\<open>OVERVIEW.md\<close>: it may inject, replay, change, delay and suppress frames, but it cannot sign for a
  node. The nodes run \<open>node_step\<close>; what they put on the air is what the scheduler and the HELLO and
  TC loops send.
\<close>

section \<open>Frames of a node\<close>

text \<open>Frames that an identity has built and signed, for whatever message and way.\<close>

definition authored :: "crypto \<Rightarrow> Identity \<Rightarrow> bytes set" where
  "authored C i =
     {build_frame_inner C t random msg prio dst i last_hop hops | t random msg prio dst last_hop hops. True}"

definition queue_frames :: "Shared \<Rightarrow> bytes set" where
  "queue_frames s = set (concat (inner (queues (sh_sched s))))"

definition heard_frames :: "LinkAdapter \<Rightarrow> bytes set" where
  "heard_frames l = {f. \<exists>p m. (f, m) \<in> set (rx_chans l p)}"

definition node_heard :: "node_state \<Rightarrow> bytes set" where
  "node_heard ns = heard_frames (sh_link (ns_shared ns)) \<union> fst ` set (ns_frames ns)"

lemma authoredI: "build_frame_inner C t random msg prio dst i last_hop hops \<in> authored C i"
  unfolding authored_def by blast

lemma frames_authored:
  assumes "sh_identity s = i"
  shows "new_frame env io k s msg prio dst \<in> authored (env_crypto env) i"
    and "route_frame env io k s msg prio dst nh \<in> authored (env_crypto env) i"
    and "relay_frame env io k s msg prio h \<in> authored (env_crypto env) i"
  using assms by (simp_all add: new_frame_def build_frame_def route_frame_def build_frame_for_route_def
      relay_frame_def build_frame_for_rebroadcast_def authoredI)

lemma authored_source: "f \<in> authored C i \<Longrightarrow> own_frame (id_node i) f"
  by (auto simp: authored_def own_frame_built)

section \<open>What a step may add\<close>

text \<open>
  \<open>flows C s s'\<close>: the identity stays, the queues gain only frames of that identity, and nothing new
  is heard.
\<close>

definition flows :: "crypto \<Rightarrow> Shared \<Rightarrow> Shared \<Rightarrow> bool" where
  "flows C s s' \<longleftrightarrow>
     sh_identity s' = sh_identity s
   \<and> queue_frames s' \<subseteq> queue_frames s \<union> authored C (sh_identity s)
   \<and> heard_frames (sh_link s') \<subseteq> heard_frames (sh_link s)"

lemma flows_refl [simp, intro]: "flows C s s"
  by (simp add: flows_def)

lemma flows_trans: "flows C s s' \<Longrightarrow> flows C s' s'' \<Longrightarrow> flows C s s''"
  by (auto simp: flows_def)

lemma flows_fields [simp]:
  "flows C s (t\<lparr>sh_olsr := x1\<rparr>) = flows C s t" "flows C s (t\<lparr>sh_app := x2\<rparr>) = flows C s t"
  "flows C s (t\<lparr>sh_board := x3\<rparr>) = flows C s t" "flows C s (t\<lparr>sh_images := x4\<rparr>) = flows C s t"
  "flows C s (t\<lparr>sh_nonces := x5\<rparr>) = flows C s t" "flows C s (t\<lparr>sh_bad_sigs := c1\<rparr>) = flows C s t"
  "flows C s (t\<lparr>sh_time_drops := c2\<rparr>) = flows C s t" "flows C s (t\<lparr>sh_replay_drops := c3\<rparr>) = flows C s t"
  "flows C s (t\<lparr>sh_channel_hops := c4\<rparr>) = flows C s t" "flows C s (t\<lparr>sh_stream_rots := c5\<rparr>) = flows C s t"
  "flows C s (t\<lparr>sh_radio := c6\<rparr>) = flows C s t" "flows C s (log_line t m) = flows C s t"
  by (simp_all add: flows_def queue_frames_def sh_link_def log_line_def)

lemma queue_frames_enqueue: "queue_frames (sh_enqueue s f p) \<subseteq> insert f (queue_frames s)"
proof -
  have "set (concat (qs[i := qs ! i @ [f]])) \<subseteq> insert f (set (concat qs))" for qs :: "bytes list list" and i
    by (cases "i < length qs") (auto dest!: set_update_subset_insert [THEN subsetD] simp: list_update_beyond)
  then show ?thesis by (auto simp: queue_frames_def sh_enqueue_def enqueue_def push_def Let_def)
qed

lemma flows_enqueue: "f \<in> authored C (sh_identity s) \<Longrightarrow> flows C s (sh_enqueue s f p)"
  using queue_frames_enqueue [of s f p]
  by (auto simp: flows_def sh_enqueue_def enqueue_def sh_link_def)

lemma sh_link_set_link [simp]: "sh_link (set_link s l) = l"
  by (simp add: set_link_def sh_link_def)

lemma flows_set_link:
  "heard_frames l \<subseteq> heard_frames (sh_link s) \<Longrightarrow> flows C s (set_link s l)"
  by (simp add: flows_def set_link_def sh_link_def queue_frames_def)

section \<open>Operations\<close>

lemma heard_cong: "rx_chans l' = rx_chans l \<Longrightarrow> heard_frames l' = heard_frames l"
  by (simp add: heard_frames_def)

lemma send_heard: "LinkAdapter_send ok l d p = (pkt, res, l') \<Longrightarrow> heard_frames l' = heard_frames l"
  by (rule heard_cong) (auto simp: LinkAdapter_send_def Tx_send_def Let_def)

lemma send_olsr_heard: "send_olsr C ser now random ok j l k m = (pkt, l') \<Longrightarrow> heard_frames l' = heard_frames l"
  by (auto simp: send_olsr_def Let_def dest!: send_heard split: sum.splits prod.splits)

lemma recv_heard:
  assumes "LinkAdapter_recv l p = Some ((frame, meta), l')"
  shows "frame \<in> heard_frames l" and "heard_frames l' \<subseteq> heard_frames l"
proof -
  obtain xs where c: "rx_chans l p = (frame, meta) # xs" and l': "l' = l\<lparr>rx_chans := (rx_chans l)(p := xs)\<rparr>"
    using assms by (auto simp: LinkAdapter_recv_def split: list.splits)
  have "(frame, meta) \<in> set (rx_chans l p)" by (simp add: c)
  then show "frame \<in> heard_frames l" unfolding heard_frames_def by blast
  have "set (rx_chans l' q) \<subseteq> set (rx_chans l q)" for q by (auto simp: l' c)
  then show "heard_frames l' \<subseteq> heard_frames l" unfolding heard_frames_def by blast
qed

lemma deliver_heard: "heard_frames (LinkAdapter_deliver l p f) \<subseteq> insert (frame_data f) (heard_frames l)"
proof -
  have "(d, m) \<in> set (rx_chans (LinkAdapter_deliver l p f) q) \<Longrightarrow>
      d = frame_data f \<or> (d, m) \<in> set (rx_chans l q)" for d m q
    by (auto simp: LinkAdapter_deliver_def reader_deliver_def try_send_def Let_def split: if_splits)
  then show ?thesis unfolding heard_frames_def by blast
qed

lemma pop_from_frames:
  assumes "pop_from i qs = Ret (r, qs')"
  shows "set (concat qs') \<subseteq> set (concat qs) \<and> (\<forall>f p. r = Some (f, p) \<longrightarrow> f \<in> set (concat qs))"
  using assms
proof (induction i qs arbitrary: r qs' rule: pop_from.induct)
  case (2 i q qs)
  show ?case
  proof (cases q)
    case Nil
    then obtain qs0 where "pop_from (Suc i) qs = Ret (r, qs0)" and "qs' = q # qs0"
      using "2.prems" by (auto split: rust.splits)
    then show ?thesis using "2.IH" [OF Nil] Nil by simp
  next
    case (Cons f rest)
    then show ?thesis using "2.prems" by (auto split: option.splits)
  qed
qed simp

lemma drop_packet: "LinkAdapter_send ok l d p = (pkt, res, l') \<Longrightarrow> drop 8 pkt = d"
  by (auto simp: LinkAdapter_send_def Tx_send_def Tx_packet_def Let_def)

lemma run_step_flows:
  assumes "run_step ok sc = Ret (r, sc')"
  shows "set (concat (inner (queues sc'))) \<subseteq> set (concat (inner (queues sc)))"
    and "r = Some (f, p, pkt, res) \<Longrightarrow> drop 8 pkt \<in> set (concat (inner (queues sc)))"
    and "heard_frames (sched_link sc') = heard_frames (sched_link sc)"
proof -
  obtain r0 qs where pop: "pop_from 0 (inner (queues sc)) = Ret (r0, qs)"
    and r: "r = Some (f, p, pkt, res) \<Longrightarrow> r0 = Some (drop 8 pkt, p)" and q: "inner (queues sc') = qs"
    using assms
    by (auto simp: run_step_def pop_next_def dest!: drop_packet split: rust.splits prod.splits option.splits)
  show "set (concat (inner (queues sc'))) \<subseteq> set (concat (inner (queues sc)))"
    and "r = Some (f, p, pkt, res) \<Longrightarrow> drop 8 pkt \<in> set (concat (inner (queues sc)))"
    using pop_from_frames [OF pop] q r by simp_all
  have "sched_link sc' = sched_link sc \<or>
      (\<exists>ok d p pkt res. LinkAdapter_send ok (sched_link sc) d p = (pkt, res, sched_link sc'))"
    using assms by (auto simp: run_step_def split: rust.splits prod.splits option.splits)
  then show "heard_frames (sched_link sc') = heard_frames (sched_link sc)"
    using send_heard by metis
qed

lemma channel_hop_flows: "flows C s (handle_channel_hop io ch s)"
  by (simp add: handle_channel_hop_def Let_def)

lemma jam_alert_flows: "flows C s (handle_jam_alert io ja s)"
  unfolding handle_jam_alert_def Let_def by (rule flows_trans [OF _ channel_hop_flows]) simp

lemma tactical_flows: "flows C s (fst (handle_tactical env io msg src s))"
  by (cases msg)
    (simp_all add: handle_tactical_def handle_target_detection_def handle_bda_def handle_command_def
      handle_state_report_def handle_image_shard_def handle_chat_def handle_mayday_def Let_def
      channel_hop_flows jam_alert_flows split: prod.splits option.splits)

lemma send_shard_flows: "flows (env_crypto env) s (send_shard env io req b p s)"
  by (auto simp: send_shard_def Let_def frames_authored intro!: flows_enqueue split: option.splits)

lemma send_burst_flows: "flows (env_crypto env) s (fst (send_burst env io req n b cs s))"
proof (induction env io req n b cs s rule: send_burst.induct)
  case (2 env io req n b data rest s)
  show ?case
  proof (cases "ser_app env (Msg_ImageShard (shard_of req n b data))")
    case (Inl e)
    then show ?thesis using 2 by simp
  next
    case (Inr p)
    then show ?thesis
      using send_shard_flows [of env s io req b p] flows_trans [OF send_shard_flows "2.IH"(2)]
      by (simp add: Let_def)
  qed
qed simp

lemma task_flows: "flows (env_crypto env) s (fst (run_task env io t s))"
proof (cases t)
  case (Task_SendShards req n b cs dims)
  then show ?thesis
    using send_burst_flows [of env s io req n b cs]
    by (auto simp: send_shards_def split: prod.splits option.splits)
qed (simp_all add: tactical_flows handle_request_image_def finish_decode_def Let_def
    split: option.splits prod.splits)

lemma flows_enqueue_trans:
  "flows C s t \<Longrightarrow> f \<in> authored C (sh_identity t) \<Longrightarrow> flows C s (sh_enqueue t f p)"
  by (erule flows_trans) (rule flows_enqueue)

lemma relay_flows: "flows (env_crypto env) s (rx_relay env io f s)"
  by (auto simp: rx_relay_def Let_def frames_authored intro!: flows_enqueue_trans split: option.splits)

lemma dispatch_flows: "flows (env_crypto env) s (fst (rx_dispatch env io rssi f s))"
proof (cases "msg_kind (auth f)")
  case OlsrTc
  have "flows (env_crypto env) s (s\<lparr>sh_olsr := olsr\<rparr>)" for olsr by simp
  then show ?thesis
    using OlsrTc by (auto simp: rx_dispatch_def Let_def frames_authored intro!: flows_enqueue_trans
      split: sum.splits OlsrMessage.splits prod.splits)
qed (auto simp: rx_dispatch_def Let_def split: sum.splits OlsrMessage.splits)

lemma jam_check_flows: "flows (env_crypto env) s (snd (rx_jam_check env io rx s))"
  by (auto simp: rx_jam_check_def jam_respond_def Let_def jam_alert_flows frames_authored intro!: flows_enqueue_trans
      split: sum.splits)

lemma rx_step_flows:
  assumes "rx_step env io raw meta rx s = (rx', s', ts)"
  shows "flows (env_crypto env) s s'"
proof -
  obtain res nc where p: "parse_and_verify_frame (env_crypto env) raw (sh_pubkeys s) (sh_nonces s) (io_now io)
      (id_session_key (sh_identity s)) = (res, nc)" by fastforce
  let ?s = "s\<lparr>sh_nonces := nc\<rparr>"
  have s: "flows (env_crypto env) s ?s" by simp
  show ?thesis
  proof (cases res)
    case (Inl e)
    then show ?thesis
      using assms p by (cases e) (auto simp: rx_step_def count_drop_def)
  next
    case (Inr f)
    let ?r = "rx_relay env io f ?s"
    let ?rx = "rx\<lparr>jam_window := jw_record (jam_window rx) (priority (auth f)) (io_now io)\<rparr>"
    have r: "flows (env_crypto env) s ?r" by (rule flows_trans [OF s relay_flows])
    have d: "flows (env_crypto env) s (fst (rx_dispatch env io (rssi_dbm meta) f ?r))"
      by (rule flows_trans [OF r dispatch_flows])
    have "flows (env_crypto env) s (snd (rx_jam_check env io ?rx (fst (rx_dispatch env io (rssi_dbm meta) f ?r))))"
      by (rule flows_trans [OF d jam_check_flows])
    with r show ?thesis
      using assms p Inr by (auto simp: rx_step_def Let_def split: if_splits prod.splits)
  qed
qed

lemma show_image_flows: "flows C s (show_image t pre s img)"
  by (cases img) (simp add: show_image_def)

lemma allow_heard: "heard_frames (set_allow_list l x) = heard_frames l"
  by (simp add: set_allow_list_def heard_frames_def)

lemma blackout_flows: "flows C s (snd (key_blackout u s))"
  unfolding key_blackout_def Let_def set_link_def [symmetric]
  by (simp add: flows_set_link allow_heard)

lemma tui_flows: "flows C s (fst (snd (snd (tui_step io rnd lat lon ev u s))))"
proof -
  have "flows C s (fst (tui_input io ev s))"
    by (cases ev) (simp_all add: tui_input_def Let_def)
  moreover have "flows C s (fst (snd (snd (tui_command io rnd lat lon ev u s))))"
    using blackout_flows [of C s u]
    by (cases ev)
      (auto simp: tui_command_def key_target_def key_bda_def key_image_def key_report_def Let_def
        show_image_flows split: option.splits prod.splits list.splits)
  ultimately show ?thesis by (simp add: tui_step_def)
qed

lemma set_link_send_flows:
  "flows C s (s\<lparr>sh_sched := (sh_sched s)\<lparr>sched_link := snd (snd (LinkAdapter_send ok (sh_link s) f p))\<rparr>\<rparr>)"
  using flows_set_link [of "snd (snd (LinkAdapter_send ok (sh_link s) f p))" s C]
    send_heard [of ok "sh_link s" f p]
  by (cases "LinkAdapter_send ok (sh_link s) f p") (simp add: set_link_def)

lemma spoofer_flows: "flows C s (spoofer_tick env io seed key active ok s)"
  using set_link_send_flows [of C s ok _ Critical] by (simp add: spoofer_tick_def Let_def flows_fields(6) [symmetric])

lemma jammer_flows: "flows C s (jammer_tick garbage active ok s)"
  using set_link_send_flows [of C s ok garbage Bulk] by (simp add: jammer_tick_def)

section \<open>Steps of a node\<close>

text \<open>Apart from the frame that a radio reader delivers, a step hears nothing new.\<close>

lemma node_step_flows:
  assumes "node_step env ns ns'"
  shows "sh_identity (ns_shared ns') = sh_identity (ns_shared ns)"
    and "queue_frames (ns_shared ns') \<subseteq> queue_frames (ns_shared ns)
          \<union> authored (env_crypto env) (sh_identity (ns_shared ns))"
    and "\<exists>f. node_heard ns' \<subseteq> insert f (node_heard ns)"
proof -
  let ?C = "env_crypto env"
  have "(flows ?C (ns_shared ns) (ns_shared ns') \<and> node_heard ns' \<subseteq> node_heard ns)
     \<or> (sh_identity (ns_shared ns') = sh_identity (ns_shared ns)
        \<and> queue_frames (ns_shared ns') = queue_frames (ns_shared ns)
        \<and> (\<exists>f. node_heard ns' \<subseteq> insert f (node_heard ns)))"
    using assms
  proof cases
    case (step_hello ord now random ok pkt l)
    then have "heard_frames l = heard_frames (sh_link (ns_shared ns))"
      by (simp add: hello_tick_def send_olsr_heard)
    then show ?thesis using step_hello by (simp add: flows_set_link node_heard_def)
  next
    case (step_tc ord now random ok sq pkt l)
    then have "heard_frames l = heard_frames (sh_link (ns_shared ns))"
      by (auto simp: tc_tick_def Let_def dest: send_olsr_heard)
    then show ?thesis using step_tc by (simp add: flows_set_link node_heard_def)
  next
    case (step_transmit ok r sched)
    then show ?thesis
      using run_step_flows [OF step_transmit(2)]
      by (auto simp: flows_def queue_frames_def node_heard_def sh_link_def)
  next
    case (step_radio p frame)
    then show ?thesis
      using deliver_heard [of "sh_link (ns_shared ns)" p frame]
      by (auto simp: node_heard_def queue_frames_def set_link_def)
  next
    case (step_reader p frame meta l)
    then show ?thesis
      using recv_heard [OF step_reader(2)] by (auto simp: flows_set_link node_heard_def)
  next
    case (step_rx raw meta p rest io rx s' new)
    then show ?thesis using rx_step_flows [OF step_rx(4)] by (auto simp: node_heard_def flows_def)
  next
    case (step_task before t after io s' new)
    then show ?thesis
      using task_flows [of env "ns_shared ns" io t] by (auto simp: node_heard_def flows_def)
  next
    case (step_outbound out rest io)
    have "flows ?C (ns_shared ns) (outbound_step env io out (ns_shared ns))"
      by (auto simp: outbound_step_def Let_def frames_authored intro!: flows_enqueue
          split: sum.splits option.splits)
    then show ?thesis using step_outbound by (auto simp: node_heard_def flows_def)
  next
    case (step_sync io rks srcs start_ms conv s')
    then have "flows ?C (ns_shared ns) s'" by (auto simp: sync_tick_def Let_def)
    then show ?thesis using step_sync by (auto simp: node_heard_def flows_def)
  next
    case (step_key io rnd lat lon ev quit u s' outs)
    then show ?thesis
      using tui_flows [of ?C "ns_shared ns" io rnd lat lon ev "ns_tui ns"]
      by (auto simp: node_heard_def flows_def)
  next
    case (step_spoofer io seed key ok)
    then show ?thesis
      using spoofer_flows [of ?C "ns_shared ns" env io seed key "spoof_active (ns_tui ns)" ok]
      by (auto simp: node_heard_def flows_def)
  next
    case (step_jammer garbage ok)
    then show ?thesis
      using jammer_flows [of ?C "ns_shared ns" garbage "jam_active (ns_tui ns)" ok]
      by (auto simp: node_heard_def flows_def)
  next
    case step_epoch
    then show ?thesis by (simp add: epoch_rotation_tick_def flows_set_link node_heard_def)
  qed (auto simp: node_heard_def sh_link_def)
  then show "sh_identity (ns_shared ns') = sh_identity (ns_shared ns)"
    and "queue_frames (ns_shared ns') \<subseteq> queue_frames (ns_shared ns) \<union> authored ?C (sh_identity (ns_shared ns))"
    and "\<exists>f. node_heard ns' \<subseteq> insert f (node_heard ns)"
    by (auto simp: flows_def)
qed

section \<open>The air\<close>

text \<open>
  A sending step of a node with the frame it puts on the air, which is what follows the eight bytes
  of the header in the packet handed to the socket: the scheduler's, or that of the HELLO or the TC
  loop.
\<close>

inductive node_send :: "node_env \<Rightarrow> node_state \<Rightarrow> bytes \<Rightarrow> node_state \<Rightarrow> bool" for env where
  send_queued:
    "run_step ok (sh_sched (ns_shared ns)) = Ret (Some (f, p, pkt, res), sched)
     \<Longrightarrow> node_send env ns (drop 8 pkt) (ns\<lparr>ns_shared := (ns_shared ns)\<lparr>sh_sched := sched\<rparr>\<rparr>)"
| send_hello:
    "hello_tick (env_crypto env) (ser_olsr env) ord now random ok (sh_identity (ns_shared ns))
        (sh_olsr (ns_shared ns)) (sh_link (ns_shared ns)) = (Some pkt, l)
     \<Longrightarrow> node_send env ns (drop 8 pkt) (ns\<lparr>ns_shared := set_link (ns_shared ns) l\<rparr>)"
| send_tc:
    "tc_tick (env_crypto env) (ser_olsr env) ord now random ok (sh_identity (ns_shared ns))
        (sh_olsr (ns_shared ns)) (ns_tc_seq ns) (sh_link (ns_shared ns)) = (sq, Some pkt, l)
     \<Longrightarrow> node_send env ns (drop 8 pkt) (ns\<lparr>ns_shared := set_link (ns_shared ns) l, ns_tc_seq := sq\<rparr>)"

lemma send_olsr_authored:
  "send_olsr C ser now random ok i l k m = (Some pkt, l') \<Longrightarrow> drop 8 pkt \<in> authored C i"
  by (auto simp: send_olsr_def Let_def build_frame_def authoredI dest!: drop_packet
      split: sum.splits prod.splits)

lemma node_send_step: "node_send env ns f ns' \<Longrightarrow> node_step env ns ns'"
  by (induction rule: node_send.induct) (blast intro: node_step.intros)+

lemma node_send_frame:
  assumes "node_send env ns f ns'"
  shows "f \<in> queue_frames (ns_shared ns) \<union> authored (env_crypto env) (sh_identity (ns_shared ns))"
    and "node_heard ns' \<subseteq> node_heard ns"
  using assms
proof (induction rule: node_send.induct)
  case (send_queued ok ns f p pkt res sched)
  case 1
  show ?case using run_step_flows(2) [OF send_queued refl] by (simp add: queue_frames_def)
  case 2
  show ?case using run_step_flows(3) [OF send_queued] by (simp add: node_heard_def sh_link_def)
next
  case (send_hello ord now random ok ns pkt l)
  case 1
  show ?case using send_hello by (simp add: hello_tick_def send_olsr_authored)
  case 2
  show ?case using send_hello by (auto simp: hello_tick_def node_heard_def dest: send_olsr_heard)
next
  case (send_tc ord now random ok ns sq pkt l)
  case 1
  show ?case using send_tc by (auto simp: tc_tick_def Let_def send_olsr_authored)
  case 2
  show ?case using send_tc by (auto simp: tc_tick_def Let_def node_heard_def dest: send_olsr_heard)
qed

definition auth_part :: "bytes \<Rightarrow> bytes" where
  "auth_part f = slice ROUTED_HEADER_LEN AUTH_HEADER_LEN f"

definition sig_part :: "bytes \<Rightarrow> bytes" where
  "sig_part f = slice (ROUTED_HEADER_LEN + AUTH_HEADER_LEN) SIG_LEN f"

text \<open>
  The air keeps every frame ever sent with the node that sent it, newest first; \<open>None\<close> marks a
  frame of the adversary. A frame is unforged if its signature does not verify under the key of the
  node it claims to be from, unless that node has sent a frame with the same signed bytes.
\<close>

record mesh =
  mesh_node :: "u8 \<Rightarrow> node_state"
  mesh_air :: "(u8 option \<times> bytes) list"

definition unforged :: "crypto \<Rightarrow> PubkeyStore \<Rightarrow> (u8 option \<times> bytes) list \<Rightarrow> bytes \<Rightarrow> bool" where
  "unforged C ks air f \<longleftrightarrow>
     (\<forall>a vk. own_frame a f \<and> PubkeyStore_get ks a = Some vk \<and> ed_verify C vk (auth_part f) (sig_part f)
        \<longrightarrow> (\<exists>g. (Some a, g) \<in> set air \<and> auth_part g = auth_part f))"

inductive mesh_step :: "node_env \<Rightarrow> PubkeyStore \<Rightarrow> u8 set \<Rightarrow> mesh \<Rightarrow> mesh \<Rightarrow> bool" for env ks V where
  mesh_send:
    "a \<in> V \<Longrightarrow> node_send env (mesh_node m a) f ns
     \<Longrightarrow> mesh_step env ks V m (m\<lparr>mesh_node := (mesh_node m)(a := ns), mesh_air := (Some a, f) # mesh_air m\<rparr>)"
| mesh_local:
    "a \<in> V \<Longrightarrow> node_step env (mesh_node m a) ns
     \<Longrightarrow> node_heard ns \<subseteq> node_heard (mesh_node m a) \<union> snd ` set (mesh_air m)
     \<Longrightarrow> mesh_step env ks V m (m\<lparr>mesh_node := (mesh_node m)(a := ns)\<rparr>)"
| mesh_adversary:
    "unforged (env_crypto env) ks (mesh_air m) f
     \<Longrightarrow> mesh_step env ks V m (m\<lparr>mesh_air := (None, f) # mesh_air m\<rparr>)"

inductive mesh_reach :: "node_env \<Rightarrow> PubkeyStore \<Rightarrow> u8 set \<Rightarrow> (u8 \<Rightarrow> node_state) \<Rightarrow> mesh \<Rightarrow> bool" for env ks V start where
  mesh_start: "mesh_reach env ks V start \<lparr>mesh_node = start, mesh_air = []\<rparr>"
| mesh_next: "mesh_reach env ks V start m \<Longrightarrow> mesh_step env ks V m m' \<Longrightarrow> mesh_reach env ks V start m'"

section \<open>The invariant of the mesh\<close>

definition mesh_inv :: "crypto \<Rightarrow> PubkeyStore \<Rightarrow> u8 set \<Rightarrow> (u8 \<Rightarrow> Identity) \<Rightarrow> mesh \<Rightarrow> bool" where
  "mesh_inv C ks V ident m \<longleftrightarrow>
     (\<forall>a \<in> V. sh_identity (ns_shared (mesh_node m a)) = ident a
        \<and> queue_frames (ns_shared (mesh_node m a)) \<subseteq> authored C (ident a)
        \<and> node_heard (mesh_node m a) \<subseteq> snd ` set (mesh_air m))
   \<and> (\<forall>a f. (Some a, f) \<in> set (mesh_air m) \<longrightarrow> a \<in> V \<and> f \<in> authored C (ident a))
   \<and> (\<forall>f. (None, f) \<in> set (mesh_air m) \<longrightarrow> unforged C ks (mesh_air m) f)"

lemma unforged_more: "unforged C ks air f \<Longrightarrow> set air \<subseteq> set air' \<Longrightarrow> unforged C ks air' f"
  unfolding unforged_def by blast

lemma mesh_invD:
  assumes "mesh_inv C ks V ident m"
  shows "a \<in> V \<Longrightarrow> sh_identity (ns_shared (mesh_node m a)) = ident a"
    and "a \<in> V \<Longrightarrow> queue_frames (ns_shared (mesh_node m a)) \<subseteq> authored C (ident a)"
    and "a \<in> V \<Longrightarrow> node_heard (mesh_node m a) \<subseteq> snd ` set (mesh_air m)"
    and "(Some a, f) \<in> set (mesh_air m) \<Longrightarrow> a \<in> V \<and> f \<in> authored C (ident a)"
    and "(None, f) \<in> set (mesh_air m) \<Longrightarrow> unforged C ks (mesh_air m) f"
  using assms unfolding mesh_inv_def by blast+

lemma mesh_step_inv:
  assumes "mesh_step env ks V m m'" and inv: "mesh_inv (env_crypto env) ks V ident m"
  shows "mesh_inv (env_crypto env) ks V ident m'"
  using assms(1)
proof cases
  case (mesh_send a f ns)
  note D = mesh_invD [OF inv] and S = node_step_flows [OF node_send_step [OF mesh_send(3)]]
    and F = node_send_frame [OF mesh_send(3)]
  have "f \<in> authored (env_crypto env) (ident a)" using F(1) D(1,2) [OF mesh_send(2)] by auto
  moreover have "queue_frames (ns_shared ns) \<subseteq> authored (env_crypto env) (ident a)"
    using S(2) D(1,2) [OF mesh_send(2)] by auto
  moreover have "unforged (env_crypto env) ks (mesh_air m') g" if "(None, g) \<in> set (mesh_air m)" for g
    using D(5) [OF that] by (rule unforged_more) (auto simp: mesh_send(1))
  ultimately show ?thesis
    using D S(1) F(2) mesh_send(2) unfolding mesh_inv_def mesh_send(1) by (auto dest!: D(3))
next
  case (mesh_local a ns)
  note D = mesh_invD [OF inv] and S = node_step_flows [OF mesh_local(3)]
  have "queue_frames (ns_shared ns) \<subseteq> authored (env_crypto env) (ident a)"
    using S(2) D(1,2) [OF mesh_local(2)] by auto
  moreover have "node_heard ns \<subseteq> snd ` set (mesh_air m)" using D(3) [OF mesh_local(2)] mesh_local(4) by blast
  ultimately show ?thesis
    using D S(1) mesh_local(2) unfolding mesh_inv_def mesh_local(1) by auto
next
  case (mesh_adversary f)
  note D = mesh_invD [OF inv]
  have "unforged (env_crypto env) ks (mesh_air m') g" if "(None, g) \<in> set (mesh_air m')" for g
  proof (cases "g = f")
    case True
    then show ?thesis using mesh_adversary(2) by (auto intro: unforged_more simp: mesh_adversary(1))
  next
    case False
    then have "(None, g) \<in> set (mesh_air m)" using that by (simp add: mesh_adversary(1))
    from D(5) [OF this] show ?thesis by (rule unforged_more) (auto simp: mesh_adversary(1))
  qed
  then show ?thesis
    using D unfolding mesh_inv_def mesh_adversary(1) by fastforce
qed

lemma mesh_reach_inv:
  assumes "mesh_reach env ks V start m"
    and "\<forall>a \<in> V. sh_identity (ns_shared (start a)) = ident a \<and> queue_frames (ns_shared (start a)) = {}
      \<and> node_heard (start a) = {}"
  shows "mesh_inv (env_crypto env) ks V ident m"
  using assms(1)
proof (induction rule: mesh_reach.induct)
  case mesh_start
  show ?case using assms(2) by (simp add: mesh_inv_def)
next
  case (mesh_next m m')
  then show ?case using mesh_step_inv by blast
qed

lemma mesh_reach_pubkeys:
  assumes "mesh_reach env ks V start m"
  shows "sh_pubkeys (ns_shared (mesh_node m a)) = sh_pubkeys (ns_shared (start a))"
  using assms
proof (induction rule: mesh_reach.induct)
  case (mesh_next m m')
  have "config (ns_shared (mesh_node m' a)) = config (ns_shared (mesh_node m a))"
    using mesh_next(2) by cases (auto dest: node_step_config node_send_step)
  then show ?case using mesh_next(3) by (simp add: config_def)
qed simp

lemma node_main_start:
  assumes "node_main C tx_ok rx_ok scale pattern nid psk_file image_file tank = Inr start"
    and "load_psk psk_file = Inr psk"
  shows "sh_identity (ns_shared start) = Identity_from_seed C nid psk"
    and "sh_pubkeys (ns_shared start) = demo_pubkeys C psk"
    and "queue_frames (ns_shared start) = {}" and "node_heard start = {}"
proof -
  obtain l img where l: "LinkAdapter_new (blake3 C) tx_ok rx_ok nid psk = Inr l"
    and st: "start = node_start (Shared_new C nid psk l img)"
    using assms by (auto simp: node_main_def split: sum.splits)
  have "rx_chans l p = []" for p
    using l by (auto simp: LinkAdapter_new_def Let_def split: if_splits)
  then show "sh_identity (ns_shared start) = Identity_from_seed C nid psk"
    and "sh_pubkeys (ns_shared start) = demo_pubkeys C psk"
    and "queue_frames (ns_shared start) = {}" and "node_heard start = {}"
    by (simp_all add: st node_start_def Shared_new_def queue_frames_def TxScheduler_new_def Queues_new_def
        node_heard_def heard_frames_def sh_link_def)
qed

lemma demo_key: "PubkeyStore_get (demo_pubkeys C psk) a \<noteq> None \<longleftrightarrow> a \<in> {1, 2, 3}"
  by (auto simp: demo_pubkeys_def PubkeyStore_get_def PubkeyStore_new_def PubkeyStore_insert_def)

lemma parsed_source:
  assumes "parse_and_verify_frame C raw ks cache now key = (Inr f, cache')"
  shows "own_frame (src_node (auth f)) raw"
proof -
  note P = parse_accept(2) [OF assms]
  have "0 < length (AuthHeader_to_bytes (auth f))" and "AuthHeader_to_bytes (auth f) ! 0 = src_node (auth f)"
    by (simp_all add: AuthHeader_to_bytes_def)
  then show ?thesis unfolding P by (auto simp: slice_def own_frame_def SRC_NODE_OFFSET_def)
qed

section \<open>What the signed bytes say\<close>

lemma auth_part_built:
  assumes "hash_len_ok C"
  shows "auth_part (build_frame_inner C t random msg prio dst i lh hops)
      = AuthHeader_to_bytes (frame_auth C t random msg prio dst i)"
  using length_AuthHeader_to_bytes [OF frame_auth_any_wf [OF assms, of t random msg prio dst i]]
  by (simp add: auth_part_def build_frame_inner_eq assemble_frame_def slice_def)

lemma authored_same_auth:
  assumes "hash_len_ok C" and "g \<in> authored C i" and "auth_part g = AuthHeader_to_bytes a" and "AuthHeader_wf a"
  obtains random msg lh hops where
    "g = build_frame_inner C (timestamp_ms a) random msg (priority a) (dst_node a) i lh hops"
    and "kind msg = msg_kind a" and "payload_hash12 C (payload msg) = payload_hash a"
proof -
  obtain t random msg prio dst lh hops where g: "g = build_frame_inner C t random msg prio dst i lh hops"
    using assms(2) unfolding authored_def by blast
  have "frame_auth C t random msg prio dst i = a"
    using auth_codec.enc_inj [OF frame_auth_any_wf [OF assms(1)] assms(4)] assms(3)
    unfolding g auth_part_built [OF assms(1)] by blast
  then show thesis using g that [of random msg lh hops] by (auto simp: frame_auth_def)
qed

text \<open>What a node of a mesh in order accepts has been sent.\<close>

lemma mesh_inv_accepted:
  assumes inv: "mesh_inv C (demo_pubkeys C psk) V (\<lambda>a. Identity_from_seed C a psk) m" and "b \<in> V"
    and "raw \<in> node_heard (mesh_node m b)"
    and parse: "parse_and_verify_frame C raw (demo_pubkeys C psk) cache now key = (Inr f, cache')"
    and "hash_len_ok C"
  shows "src_node (auth f) \<in> {1, 2, 3} \<inter> V
    \<and> (\<exists>random msg lh hops.
         (Some (src_node (auth f)),
          build_frame_inner C (timestamp_ms (auth f)) random msg (priority (auth f)) (dst_node (auth f))
            (Identity_from_seed C (src_node (auth f)) psk) lh hops) \<in> set (mesh_air m)
       \<and> kind msg = msg_kind (auth f) \<and> payload_hash12 C (payload msg) = payload_hash12 C (plaintext f))"
proof -
  let ?a = "src_node (auth f)" and ?ks = "demo_pubkeys C psk"
  note D = mesh_invD [OF inv] and acc = parse_accept [OF parse]
  have parts: "auth_part raw = slice 4 44 raw" "sig_part raw = slice 48 64 raw"
    by (simp_all add: auth_part_def sig_part_def frame_len_defs)
  obtain vk where vk: "PubkeyStore_get ?ks ?a = Some vk" and sig: "ed_verify C vk (auth_part raw) (sig_part raw)"
    using acc(1) unfolding parts by blast
  have own: "own_frame ?a raw"
    by (rule parsed_source [OF parse])
  obtain who where air: "(who, raw) \<in> set (mesh_air m)" using D(3) [OF assms(2)] assms(3) by force
  have "\<exists>g. (Some ?a, g) \<in> set (mesh_air m) \<and> auth_part g = auth_part raw"
  proof (cases who)
    case None
    then show ?thesis using D(5) air own vk sig unfolding unforged_def by blast
  next
    case (Some a)
    then have "own_frame a raw" using D(4) air authored_source [of raw C "Identity_from_seed C a psk"] by auto
    then have "a = ?a" using own by (simp add: own_frame_def)
    then show ?thesis using air Some by blast
  qed
  then obtain g where g: "(Some ?a, g) \<in> set (mesh_air m)" "auth_part g = AuthHeader_to_bytes (auth f)"
    unfolding acc(2) parts by blast
  obtain random msg lh hops where "g = build_frame_inner C (timestamp_ms (auth f)) random msg (priority (auth f))
      (dst_node (auth f)) (Identity_from_seed C ?a psk) lh hops" "kind msg = msg_kind (auth f)"
      "payload_hash12 C (payload msg) = payload_hash (auth f)"
    using authored_same_auth [OF assms(5) _ g(2) accepted_auth_wf [OF parse]] D(4) [OF g(1)] by blast
  then show ?thesis using g(1) D(4) [OF g(1)] vk demo_key [of C psk ?a] acc(4) by auto
qed

lemma started_mesh:
  assumes "\<forall>a \<in> V. node_main C (tx_ok a) (rx_ok a) scale pattern a (psk_file a) (image_file a) (tank a) = Inr (start a)
      \<and> load_psk (psk_file a) = Inr psk"
    and "env_crypto env = C" and "mesh_reach env (demo_pubkeys C psk) V start m"
  shows "mesh_inv C (demo_pubkeys C psk) V (\<lambda>a. Identity_from_seed C a psk) m"
    and "b \<in> V \<Longrightarrow> sh_pubkeys (ns_shared (mesh_node m b)) = demo_pubkeys C psk"
proof -
  have st: "sh_identity (ns_shared (start a)) = Identity_from_seed C a psk"
      "sh_pubkeys (ns_shared (start a)) = demo_pubkeys C psk" "queue_frames (ns_shared (start a)) = {}"
      "node_heard (start a) = {}" if "a \<in> V" for a
    using bspec [OF assms(1) that] by (blast dest: node_main_start)+
  then show "mesh_inv C (demo_pubkeys C psk) V (\<lambda>a. Identity_from_seed C a psk) m"
    using mesh_reach_inv [OF assms(3), of "\<lambda>a. Identity_from_seed C a psk"] assms(2) by simp
  show "b \<in> V \<Longrightarrow> sh_pubkeys (ns_shared (mesh_node m b)) = demo_pubkeys C psk"
    using mesh_reach_pubkeys [OF assms(3)] st(2) by simp
qed

section \<open>Properties\<close>

text \<open>
  (C5) Frame injection is defeated. Any number of nodes, started by the program with one pre-shared
  key, run against an adversary who hears everything and injects, replays, changes, delays and
  suppresses frames at will but cannot sign for them. In every state they can reach, a frame that a
  node accepts is from node 1, 2 or 3, this node runs, and it has itself sent a frame that it built
  for a message of the same kind, priority, destination, time and payload hash: what is accepted is
  what was sent, unless two payloads have the same hash.
\<close>

theorem accepted_frames_were_sent:
  assumes "\<forall>a \<in> V. node_main C (tx_ok a) (rx_ok a) scale pattern a (psk_file a) (image_file a) (tank a) = Inr (start a)
      \<and> load_psk (psk_file a) = Inr psk"
    and "env_crypto env = C" and "mesh_reach env (demo_pubkeys C psk) V start m" and "b \<in> V"
    and "ns_frames (mesh_node m b) = (raw, meta, p) # rest"
    and "parse_and_verify_frame C raw (sh_pubkeys (ns_shared (mesh_node m b)))
           (sh_nonces (ns_shared (mesh_node m b))) now key = (Inr f, nc)"
    and "crypto_ok C"
  shows "src_node (auth f) \<in> {1, 2, 3} \<inter> V
    \<and> (\<exists>random msg lh hops.
         (Some (src_node (auth f)),
          build_frame_inner C (timestamp_ms (auth f)) random msg (priority (auth f)) (dst_node (auth f))
            (Identity_from_seed C (src_node (auth f)) psk) lh hops) \<in> set (mesh_air m)
       \<and> kind msg = msg_kind (auth f) \<and> payload_hash12 C (payload msg) = payload_hash12 C (plaintext f))"
proof -
  have "raw \<in> node_heard (mesh_node m b)" using assms(5) by (force simp: node_heard_def)
  moreover have "parse_and_verify_frame C raw (demo_pubkeys C psk) (sh_nonces (ns_shared (mesh_node m b))) now key
      = (Inr f, nc)"
    using assms(6) unfolding started_mesh(2) [OF assms(1-4)] .
  ultimately show ?thesis
    using mesh_inv_accepted [OF started_mesh(1) [OF assms(1-3)] assms(4)] crypto_okD(1) [OF assms(7)] by blast
qed

end
