(* ===== verification/MeshMessages.thy ===== *)
theory MeshMessages
  imports Mesh
begin

text \<open>
  The application's view of the mesh of \<open>Mesh\<close>: where the messages come from that the nodes hand to
  their message handlers. The queue of pending tasks of a node holds them until they are handled.
\<close>

text \<open>Node \<open>a\<close> has sent a message of kind \<open>k\<close> with the hash of the payload \<open>p\<close>.\<close>

definition sent_message :: "crypto \<Rightarrow> bytes \<Rightarrow> (u8 option \<times> bytes) list \<Rightarrow> u8 \<Rightarrow> MsgKind \<Rightarrow> bytes \<Rightarrow> bool" where
  "sent_message C psk air a k p \<longleftrightarrow>
     (\<exists>t random msg prio dst lh hops.
        (Some a, build_frame_inner C t random msg prio dst (Identity_from_seed C a psk) lh hops) \<in> set air
      \<and> kind msg = k \<and> payload_hash12 C (payload msg) = payload_hash12 C p)"

definition tasks_sent :: "crypto \<Rightarrow> (bytes \<Rightarrow> string + AppMsg) \<Rightarrow> bytes \<Rightarrow> u8 set \<Rightarrow> mesh \<Rightarrow> bool" where
  "tasks_sent C de psk V m \<longleftrightarrow>
     (\<forall>b \<in> V. \<forall>msg src. Task_Tactical msg src \<in> set (ns_tasks (mesh_node m b)) \<longrightarrow>
        src \<in> {1, 2, 3} \<inter> V \<and> (\<exists>p. de p = Inr msg \<and> sent_message C psk (mesh_air m) src Data p))"

lemma sent_message_Cons: "sent_message C psk air a k p \<Longrightarrow> sent_message C psk (x # air) a k p"
  unfolding sent_message_def list.set by blast

section \<open>Where tasks come from\<close>

lemma run_task_tactical: "Task_Tactical msg src \<notin> set (snd (run_task env io t s))"
proof (cases t)
  case (Task_Tactical m a)
  then show ?thesis
    by (cases m) (auto simp: handle_tactical_def handle_image_shard_def Let_def split: prod.splits option.splits)
next
  case (Task_SendShards r n b cs dims)
  then show ?thesis by (cases dims) (auto simp: send_shards_def split: prod.splits option.splits)
qed (auto simp: handle_request_image_def Let_def split: prod.splits option.splits)

lemma rx_step_tactical:
  assumes "rx_step env io raw meta rx s = (rx', s', ts)" and "Task_Tactical msg src \<in> set ts"
  obtains f nc where "parse_and_verify_frame (env_crypto env) raw (sh_pubkeys s) (sh_nonces s) (io_now io)
      (id_session_key (sh_identity s)) = (Inr f, nc)"
    and "src = src_node (auth f)" and "msg_kind (auth f) = Data" and "de_app env (plaintext f) = Inr msg"
proof -
  have d: "src = src_node (auth f) \<and> msg_kind (auth f) = Data \<and> de_app env (plaintext f) = Inr msg"
    if "Task_Tactical msg src \<in> set (snd (rx_dispatch env io r f s'))" for r f s'
    using that by (auto simp: rx_dispatch_def Let_def split: MsgKind.splits sum.splits OlsrMessage.splits
        prod.splits if_splits)
  show thesis
    using assms d that by (auto simp: rx_step_def Let_def split: sum.splits prod.splits if_splits) (metis snd_conv)
qed

lemma node_step_tactical:
  assumes "node_step env ns ns'" and "Task_Tactical msg src \<in> set (ns_tasks ns')"
    and "Task_Tactical msg src \<notin> set (ns_tasks ns)"
  obtains raw meta p rest f cache now key cache' where "ns_frames ns = (raw, meta, p) # rest"
    and "parse_and_verify_frame (env_crypto env) raw (sh_pubkeys (ns_shared ns)) cache now key = (Inr f, cache')"
    and "src = src_node (auth f)" and "msg_kind (auth f) = Data" and "de_app env (plaintext f) = Inr msg"
  using assms(1)
proof cases
  case (step_rx raw meta p rest io rx s' new)
  then have "Task_Tactical msg src \<in> set new" using assms(2,3) by simp
  from rx_step_tactical [OF step_rx(4) this] show thesis using that [OF step_rx(2)] by metis
next
  case (step_task before t after io s' new)
  then have "Task_Tactical msg src \<in> set new" using assms(2,3) by auto
  then show thesis using run_task_tactical [of msg src env io t "ns_shared ns"] step_task(3) by simp
qed (use assms(2,3) in simp_all)

lemma node_send_tasks: "node_send env ns f ns' \<Longrightarrow> ns_tasks ns' = ns_tasks ns"
  by (induction rule: node_send.induct) simp_all

section \<open>The invariant\<close>

lemma mesh_step_tasks:
  assumes "mesh_step env (demo_pubkeys C psk) V m m'" and C: "env_crypto env = C" and "hash_len_ok C"
    and inv: "mesh_inv C (demo_pubkeys C psk) V (\<lambda>a. Identity_from_seed C a psk) m"
    and ks: "\<forall>b \<in> V. sh_pubkeys (ns_shared (mesh_node m b)) = demo_pubkeys C psk"
    and sent: "tasks_sent C (de_app env) psk V m"
  shows "tasks_sent C (de_app env) psk V m'"
  using assms(1)
proof cases
  case (mesh_send a f ns)
  then show ?thesis
    using sent node_send_tasks [OF mesh_send(3)] unfolding tasks_sent_def
    by (auto split: if_splits) (meson sent_message_Cons)+
next
  case (mesh_local a ns)
  have new: "src \<in> {1, 2, 3} \<inter> V \<and> (\<exists>p. de_app env p = Inr msg \<and> sent_message C psk (mesh_air m) src Data p)"
    if task: "Task_Tactical msg src \<in> set (ns_tasks ns)" for msg src
  proof (cases "Task_Tactical msg src \<in> set (ns_tasks (mesh_node m a))")
    case True
    then show ?thesis using sent mesh_local(2) unfolding tasks_sent_def by blast
  next
    case False
    from node_step_tactical [OF mesh_local(3) task False]
    obtain raw meta p rest f cache now key cache' where h: "ns_frames (mesh_node m a) = (raw, meta, p) # rest"
      and parse: "parse_and_verify_frame C raw (demo_pubkeys C psk) cache now key = (Inr f, cache')"
      and f: "src = src_node (auth f)" "msg_kind (auth f) = Data" "de_app env (plaintext f) = Inr msg"
      using ks mesh_local(2) C by metis
    have "raw \<in> node_heard (mesh_node m a)" using h by (force simp: node_heard_def)
    from mesh_inv_accepted [OF inv mesh_local(2) this parse assms(3)] f show ?thesis
      unfolding sent_message_def by metis
  qed
  then show ?thesis using sent mesh_local(2) unfolding tasks_sent_def mesh_local(1) by auto
next
  case (mesh_adversary f)
  then show ?thesis
    using sent unfolding tasks_sent_def by auto (meson sent_message_Cons)
qed

lemma mesh_reach_tasks:
  assumes "mesh_reach env (demo_pubkeys C psk) V start m"
    and boot: "\<forall>a \<in> V. node_main C (tx_ok a) (rx_ok a) scale pattern a (psk_file a) (image_file a) (tank a) = Inr (start a)
      \<and> load_psk (psk_file a) = Inr psk"
    and "env_crypto env = C" and "hash_len_ok C"
  shows "tasks_sent C (de_app env) psk V m"
  using assms(1)
proof (induction rule: mesh_reach.induct)
  case mesh_start
  have "ns_tasks (start a) = []" if "a \<in> V" for a
  proof -
    note main = bspec [OF boot that]
    have "\<exists>s. start a = node_start s"
      using main by (auto simp: node_main_def split: sum.splits) (metis+)
    then show ?thesis by (auto simp: node_start_def)
  qed
  then show ?case by (simp add: tasks_sent_def)
next
  case (mesh_next m m')
  show ?case
    using mesh_step_tasks [OF mesh_next(2) assms(3,4) started_mesh(1) [OF boot assms(3) mesh_next(1)] _ mesh_next(3)]
      started_mesh(2) [OF boot assms(3) mesh_next(1)] by blast
qed

section \<open>Properties\<close>

text \<open>
  (C6) Every message that a node acts on was sent by the node under whose name it acts. Any number
  of started nodes run against the adversary of \<open>Mesh\<close>. In every state they can reach, each message
  waiting for or in the hands of a message handler, with source \<open>src\<close>, comes from a data frame that
  node \<open>src\<close>, one of the nodes 1 to 3 and of those that run, has itself built and sent, with this
  message as its payload, unless two payloads have the same hash.
\<close>

theorem handled_messages_were_sent:
  assumes "\<forall>a \<in> V. node_main C (tx_ok a) (rx_ok a) scale pattern a (psk_file a) (image_file a) (tank a) = Inr (start a)
      \<and> load_psk (psk_file a) = Inr psk"
    and "env_crypto env = C" and "mesh_reach env (demo_pubkeys C psk) V start m" and "b \<in> V"
    and "Task_Tactical msg src \<in> set (ns_tasks (mesh_node m b))" and "crypto_ok C"
  shows "src \<in> {1, 2, 3} \<inter> V \<and> (\<exists>p. de_app env p = Inr msg \<and> sent_message C psk (mesh_air m) src Data p)"
  using mesh_reach_tasks [OF assms(3,1,2) crypto_okD(1) [OF assms(6)]] assms(4,5) unfolding tasks_sent_def by blast

end
