(* ===== verification/Network.thy ===== *)
theory Network
  imports OlsrScenarios
begin

text \<open>
  Several routers together. The tables of the nodes are compared with one table of the links that
  really exist; when the nodes have heard each other, all of them compute on the same graph, and
  forwarding hop by hop along their routes takes every frame to its destination, without loops and
  at least cost.
\<close>

section \<open>The hops of a least-cost walk\<close>

definition least_walk :: "edge_fun \<Rightarrow> u8 \<Rightarrow> u8 \<Rightarrow> nat \<Rightarrow> bool" where
  "least_walk E a v c \<longleftrightarrow> (\<exists>n. walk E a v c n) \<and> (\<forall>c' n'. walk E a v c' n' \<longrightarrow> c \<le> c')"

lemma least_walk_unique: "least_walk E a v c \<Longrightarrow> least_walk E a v c' \<Longrightarrow> c = c'"
  by (meson least_walk_def order_antisym)

lemma least_walk_le: "least_walk E a v c \<Longrightarrow> walk E a v c' n \<Longrightarrow> c \<le> c'"
  by (auto simp: least_walk_def)

lemma least_walk_exists: "walk E a v c n \<Longrightarrow> \<exists>k. least_walk E a v k"
proof -
  assume w: "walk E a v c n"
  let ?P = "\<lambda>k. \<exists>n. walk E a v k n"
  from w have "\<exists>k. ?P k" by blast
  then have "?P (Least ?P)" by (rule LeastI_ex)
  moreover have "Least ?P \<le> c'" if "walk E a v c' n'" for c' n'
    by (rule Least_le) (use that in blast)
  ultimately show ?thesis unfolding least_walk_def by blast
qed

context link_graph
begin

lemma least_walk_nodes:
  assumes "walk E a v c n" and "least_walk E a v c"
  shows "\<exists>S. finite S \<and> card S = Suc n \<and> (\<forall>x \<in> S. \<exists>k \<le> c. least_walk E a x k)"
  using assms
proof (induction rule: walk.induct)
  case (walk_refl a)
  then show ?case by (intro exI [of _ "{a}"]) auto
next
  case (walk_snoc a u c n v w)
  have pos: "0 < unat w" using walk_snoc.hyps(2) by (rule cost_pos)
  have "c \<le> c'" if "walk E a u c' n'" for c' n'
    using least_walk_le [OF walk_snoc.prems walk.walk_snoc [OF that walk_snoc.hyps(2)]] by simp
  then have "least_walk E a u c" using walk_snoc.hyps(1) by (auto simp: least_walk_def)
  from walk_snoc.IH [OF this] obtain S where S: "finite S" "card S = Suc n"
    "\<forall>x \<in> S. \<exists>k \<le> c. least_walk E a x k" by blast
  have "v \<notin> S"
    using S(3) pos least_walk_unique [OF walk_snoc.prems] by fastforce
  then show ?case
    using S walk_snoc.prems by (intro exI [of _ "insert v S"]) (auto intro: trans_le_add1)
qed

end

lemma walk_Cons: "(u, w) \<in> set (E a) \<Longrightarrow> walk E u v c n \<Longrightarrow> walk E a v (unat w + c) (Suc n)"
  using walk_trans [of E u v c n a "unat w" 1] walk_edge by fastforce

section \<open>Networks\<close>

type_synonym network = "u8 \<Rightarrow> OlsrState"
type_synonym link_table = "u8 \<Rightarrow> u8 \<rightharpoonup> LinkQuality"

definition true_edges :: "link_table \<Rightarrow> edge_fun" where
  "true_edges Q u = map (\<lambda>(n, q). (n, link_cost q)) (entries (id_order u) (Q u))"

lemma set_true_edges: "(v, w) \<in> set (true_edges Q u) \<longleftrightarrow> (\<exists>q. Q u v = Some q \<and> w = link_cost q)"
  using id_order_ok by (auto simp: true_edges_def set_entries order_ok_def image_iff)

lemma link_cost_graph: "0 < unat (link_cost q)" "unat (link_cost q) < 2 ^ 16"
proof -
  show "0 < unat (link_cost q)" using link_cost_range(1) [of q] by linarith
  show "unat (link_cost q) < 2 ^ 16" using link_cost_range(2) [of q] by simp
qed

interpretation true_graph: link_graph "true_edges Q" for Q
  using link_cost_graph by unfold_locales (auto simp only: set_true_edges)

text \<open>
  A node knows the links: its neighbour table is its row of the table of links, and its topology
  has the rows of the others, without the links back to itself.
\<close>

definition knows_links :: "link_table \<Rightarrow> OlsrState \<Rightarrow> bool" where
  "knows_links Q s \<longleftrightarrow>
     (\<forall>n. map_option link_quality (neighbors s n) = Q (local_id s) n)
   \<and> (\<forall>u. u \<noteq> local_id s \<longrightarrow> unwrap_or (topology s u) Map.empty = (Q u)(local_id s := None))"

definition links_within :: "u8 set \<Rightarrow> link_table \<Rightarrow> bool" where
  "links_within V Q \<longleftrightarrow> (\<forall>u \<in> V. dom (Q u) \<subseteq> V)"

definition converged :: "u8 set \<Rightarrow> link_table \<Rightarrow> network \<Rightarrow> bool" where
  "converged V Q net \<longleftrightarrow> links_within V Q \<and> (\<forall>a \<in> V. olsr_reach a (net a) \<and> knows_links Q (net a))"

lemma known_edges:
  assumes "knows_links Q s" and "order_ok ord"
  shows "(v, w) \<in> set (edges ord s u) \<longleftrightarrow>
     (v, w) \<in> set (true_edges Q u) \<and> (u = local_id s \<or> v \<noteq> local_id s)"
proof (cases "u = local_id s")
  case True
  have "neighbors s v = Some e \<Longrightarrow> Q (local_id s) v = Some (link_quality e)" for e
    using assms(1) unfolding knows_links_def by (metis option.simps(9))
  moreover have "Q (local_id s) v = Some q \<Longrightarrow> \<exists>e. neighbors s v = Some e \<and> link_quality e = q" for q
    using assms(1) unfolding knows_links_def by (metis map_option_eq_Some)
  ultimately show ?thesis
    unfolding True set_edges_local [OF assms(2)] set_true_edges by auto
next
  case False
  then have row: "unwrap_or (topology s u) Map.empty = (Q u)(local_id s := None)"
    using assms(1) by (auto simp: knows_links_def)
  have "(\<exists>m. topology s u = Some m \<and> m v = Some q) \<longleftrightarrow> unwrap_or (topology s u) Map.empty v = Some q" for q
    by (cases "topology s u") auto
  then show ?thesis
    using False by (auto simp: set_edges [OF assms(2)] set_true_edges row split: if_splits)
qed

lemma known_walk:
  assumes "knows_links Q s" and "order_ok ord" and "walk (edges ord s) a v c n"
  shows "walk (true_edges Q) a v c n"
  using assms(3) by induction (auto intro: walk_refl walk_snoc simp: known_edges [OF assms(1,2)])

lemma true_walk_known:
  assumes "knows_links Q s" and "order_ok ord" and "walk (true_edges Q) a v c n" and "a = local_id s"
  shows "\<exists>c' n'. walk (edges ord s) a v c' n' \<and> c' \<le> c"
  using assms(3,4)
proof (induction rule: walk.induct)
  case (walk_refl a)
  then show ?case using walk.walk_refl by blast
next
  case (walk_snoc a u c n v w)
  then obtain c' n' where w: "walk (edges ord s) a u c' n'" "c' \<le> c" by blast
  show ?case
  proof (cases "v = local_id s")
    case True
    with walk_snoc.prems show ?thesis using walk_refl [of "edges ord s" v] by auto
  next
    case False
    then have "(v, w) \<in> set (edges ord s u)" using walk_snoc.hyps(2) by (simp add: known_edges [OF assms(1,2)])
    with w show ?thesis by (metis walk.walk_snoc add_le_mono1)
  qed
qed

lemma known_least:
  assumes "knows_links Q s" and "order_ok ord" and "a = local_id s"
  shows "least_walk (edges ord s) a v c \<longleftrightarrow> least_walk (true_edges Q) a v c"
proof -
  note known = known_walk [OF assms(1,2)] and true = true_walk_known [OF assms(1,2) _ assms(3)]
  show ?thesis
  proof
    assume l: "least_walk (edges ord s) a v c"
    then have "\<exists>n. walk (true_edges Q) a v c n" using known unfolding least_walk_def by blast
    moreover have "c \<le> c'" if "walk (true_edges Q) a v c' n'" for c' n'
      using true [OF that] least_walk_le [OF l] by (meson order_trans)
    ultimately show "least_walk (true_edges Q) a v c" by (auto simp: least_walk_def)
  next
    assume l: "least_walk (true_edges Q) a v c"
    then obtain n where "walk (true_edges Q) a v c n" by (auto simp: least_walk_def)
    from true [OF this] obtain c' n' where w: "walk (edges ord s) a v c' n'" "c' \<le> c" by blast
    moreover from this have "c \<le> c'" using least_walk_le [OF l known] by blast
    ultimately have "walk (edges ord s) a v c n'" by simp
    moreover have "c \<le> c'" if "walk (edges ord s) a v c' n'" for c' n'
      using least_walk_le [OF l known [OF that]] .
    ultimately show "least_walk (edges ord s) a v c" by (auto simp: least_walk_def)
  qed
qed

lemma walk_within:
  "walk (true_edges Q) a v c n \<Longrightarrow> links_within V Q \<Longrightarrow> a \<in> V \<Longrightarrow> v \<in> V"
  by (induction rule: walk.induct) (auto simp: links_within_def set_true_edges)

section \<open>Routes in a network that has converged\<close>

lemma hops_within:
  assumes "links_within V Q" and "a \<in> V" and "walk (true_edges Q) a v c n" and "least_walk (true_edges Q) a v c"
  shows "n < card V"
proof -
  obtain S where S: "finite S" "card S = Suc n" "\<forall>x \<in> S. \<exists>k \<le> c. least_walk (true_edges Q) a x k"
    using true_graph.least_walk_nodes [OF assms(3,4)] by blast
  have "S \<subseteq> V" using S(3) walk_within [OF _ assms(1,2)] by (fastforce simp: least_walk_def)
  then have "card S \<le> card V" by (intro card_mono) simp_all
  with S(2) show ?thesis by simp
qed

text \<open>
  One hop: the route of a node exists when the destination can be reached; its cost is the least
  cost, and its next hop is over a real link to a node that is nearer by exactly that link.
\<close>

lemma route_hop:
  assumes "converged V Q net" and "card V \<le> 10" and "a \<in> V" and "a \<noteq> d"
    and "least_walk (true_edges Q) a d k"
  shows "\<exists>r q k'. route_to (net a) d = Some r \<and> unat (route_cost r) = k \<and> Q a (next_hop r) = Some q
    \<and> next_hop r \<in> V \<and> least_walk (true_edges Q) (next_hop r) d k' \<and> k = unat (link_cost q) + k'"
proof -
  let ?s = "net a" and ?G = "true_edges Q"
  have reach: "olsr_reach a ?s" and kn: "knows_links Q ?s" and within: "links_within V Q"
    using assms(1,3) by (auto simp: converged_def)
  have local: "local_id ?s = a" using reach_inv [OF reach] by simp
  obtain ord where ord: "order_ok ord" "routes ?s = table_routes ord ?s"
    using reach_routes [OF reach] by blast
  note known = known_walk [OF kn ord(1)]
  have least: "least_walk (edges ord ?s) a d k" using known_least [OF kn ord(1) local [symmetric]] assms(5) by simp
  then obtain r where r: "table_routes ord ?s d = Some r"
    using table_route_None [of ord ?s d] assms(4) local by (fastforce simp: least_walk_def)
  have cost: "unat (route_cost r) = k"
  proof (rule least_walk_unique [OF _ least])
    show "least_walk (edges ord ?s) a d (unat (route_cost r))"
      using table_route_least(2,3) [OF r] unfolding least_walk_def local by blast
  qed
  obtain n where n: "walk (edges ord ?s) a d k (Suc n)"
    and hop: "Suc n \<le> 9 \<longrightarrow> (\<exists>w. (next_hop r, w) \<in> set (edges ord ?s a) \<and> unat w \<le> k
        \<and> walk (edges ord ?s) (next_hop r) d (k - unat w) n)"
    using table_route_next_hop [OF r] unfolding local cost by metis
  have "Suc n < card V" using hops_within [OF within assms(3) known [OF n] assms(5)] .
  with hop assms(2) obtain w where w: "(next_hop r, w) \<in> set (edges ord ?s a)" "unat w \<le> k"
    "walk (edges ord ?s) (next_hop r) d (k - unat w) n" by auto
  have edge: "(next_hop r, w) \<in> set (?G a)" using w(1) by (simp add: known_edges [OF kn ord(1)])
  then obtain q where q: "Q a (next_hop r) = Some q" "w = link_cost q" by (auto simp: set_true_edges)
  have "k - unat w \<le> c" if "walk ?G (next_hop r) d c m" for c m
    using least_walk_le [OF assms(5) walk_Cons [OF edge that]] by simp
  then have "least_walk ?G (next_hop r) d (k - unat w)" using known [OF w(3)] by (auto simp: least_walk_def)
  moreover have "next_hop r \<in> V" using q(1) within assms(3) by (auto simp: links_within_def)
  ultimately show ?thesis
    using r cost q w(2) ord(2) by (intro exI [of _ r] exI [of _ q]) (auto simp: route_to_def)
qed

section \<open>Forwarding\<close>

text \<open>A path that frames for \<open>d\<close> take when every node on it forwards to the next hop of its route.\<close>

fun follows :: "network \<Rightarrow> u8 \<Rightarrow> u8 list \<Rightarrow> bool" where
  "follows net d [] \<longleftrightarrow> False"
| "follows net d [u] \<longleftrightarrow> u = d"
| "follows net d (u # v # ps) \<longleftrightarrow>
     u \<noteq> d \<and> map_option next_hop (route_to (net u) d) = Some v \<and> follows net d (v # ps)"

text \<open>The cost of a path over real links.\<close>

fun path_cost :: "link_table \<Rightarrow> u8 list \<Rightarrow> nat option" where
  "path_cost Q (u # v # ps) =
     (case Q u v of
        None \<Rightarrow> None
      | Some q \<Rightarrow> map_option (\<lambda>c. unat (link_cost q) + c) (path_cost Q (v # ps)))"
| "path_cost Q _ = Some 0"

lemma forwarding_path:
  assumes "converged V Q net" and "card V \<le> 10" and "a \<in> V" and "least_walk (true_edges Q) a d k"
  shows "\<exists>ps. follows net d (a # ps) \<and> distinct (a # ps) \<and> set (a # ps) \<subseteq> V
    \<and> path_cost Q (a # ps) = Some k \<and> (\<forall>x \<in> set (a # ps). \<exists>k' \<le> k. least_walk (true_edges Q) x d k')"
  using assms(3,4)
proof (induction k arbitrary: a rule: less_induct)
  case (less k)
  show ?case
  proof (cases "a = d")
    case True
    then have "k = 0" using less.prems(2) least_walk_le [OF less.prems(2)] walk_refl by fastforce
    with True less.prems show ?thesis by (intro exI [of _ "[]"]) auto
  next
    case False
    from route_hop [OF assms(1,2) less.prems(1) False less.prems(2)] obtain r q k' where
      r: "route_to (net a) d = Some r" "Q a (next_hop r) = Some q" "next_hop r \<in> V"
      and least: "least_walk (true_edges Q) (next_hop r) d k'" and k: "k = unat (link_cost q) + k'" by blast
    have "k' < k" using k link_cost_graph(1) [of q] by simp
    from less.IH [OF this r(3) least] obtain ps where
      ps: "follows net d (next_hop r # ps)" "distinct (next_hop r # ps)" "set (next_hop r # ps) \<subseteq> V"
      "path_cost Q (next_hop r # ps) = Some k'"
      "\<forall>x \<in> set (next_hop r # ps). \<exists>k1 \<le> k'. least_walk (true_edges Q) x d k1" by blast
    have "a \<notin> set (next_hop r # ps)"
      using ps(5) \<open>k' < k\<close> least_walk_unique [OF less.prems(2)] by fastforce
    moreover have "\<exists>k1 \<le> k. least_walk (true_edges Q) x d k1" if "x \<in> set (next_hop r # ps)" for x
      using ps(5) that \<open>k' < k\<close> by (meson order_trans less_imp_le)
    ultimately show ?thesis
      using ps r k False less.prems by (intro exI [of _ "next_hop r # ps"]) auto
  qed
qed

section \<open>The exchange of TC messages\<close>

text \<open>What a node receives is a list of messages, each with the order of the tables and the link it came over.\<close>

definition receive_tcs :: "OlsrState \<Rightarrow> (iter_order \<times> Tc \<times> u8) list \<Rightarrow> OlsrState" where
  "receive_tcs = foldl (\<lambda>s (ord, tc, src). snd (process_tc ord tc src s))"

definition row_known :: "link_table \<Rightarrow> u8 \<Rightarrow> OlsrState \<Rightarrow> bool" where
  "row_known Q u s \<longleftrightarrow> unwrap_or (topology s u) Map.empty = (Q u)(local_id s := None)"

definition truthful :: "link_table \<Rightarrow> Tc \<Rightarrow> bool" where
  "truthful Q tc \<longleftrightarrow> map_of (rev (advertised_neighbors tc)) = Q (tc_sender tc)"

lemma map_of_entries: "set ks = UNIV \<Longrightarrow> map_of (entries ks m) k = m k"
proof -
  have "map_of (entries ks m) k = (if k \<in> set ks then m k else None)"
    by (induction ks) (auto split: option.splits)
  then show "set ks = UNIV \<Longrightarrow> map_of (entries ks m) k = m k" by simp
qed

lemma map_of_rev_distinct: "distinct (map fst xs) \<Longrightarrow> map_of (rev xs) k = map_of xs k"
proof (induction xs)
  case (Cons x xs)
  then have "map_of xs (fst x) = None" by (simp add: map_of_eq_None_iff)
  with Cons show ?case by (cases x) (auto simp: map_add_def split: option.splits)
qed simp

lemma make_tc_truthful:
  assumes "order_ok ord" and "\<And>n. map_option link_quality (neighbors s n) = Q (local_id s) n"
  shows "truthful Q (make_tc ord now sq s)"
proof -
  let ?ks = "ord (local_id s)" and ?f = "\<lambda>(i, e). (i, link_quality e)"
  have ks: "distinct ?ks" "set ?ks = UNIV" using assms(1) by (auto simp: order_ok_def)
  have map: "map_of (map ?f xs) k = map_option link_quality (map_of xs k)" for xs :: "(u8 \<times> NeighborEntry) list" and k
    by (induction xs) auto
  have "map fst (map ?f xs) = map fst xs" for xs :: "(u8 \<times> NeighborEntry) list"
    by (induction xs) auto
  then have "distinct (map fst (map ?f (entries ?ks (neighbors s))))"
    using distinct_fst_entries [OF ks(1), of "neighbors s"] by metis
  from map_of_rev_distinct [OF this] show ?thesis
    by (simp add: truthful_def make_tc_def map map_of_entries [OF ks(2)] assms(2) fun_eq_iff)
qed

lemma receive_tcs_frame:
  "local_id (receive_tcs s ds) = local_id s" "neighbors (receive_tcs s ds) = neighbors s"
  unfolding receive_tcs_def by (induction ds arbitrary: s) auto

lemma receive_tcs_reach:
  "olsr_reach i s \<Longrightarrow> \<forall>(ord, tc, src) \<in> set ds. order_ok ord \<Longrightarrow> olsr_reach i (receive_tcs s ds)"
  unfolding receive_tcs_def by (induction ds arbitrary: s) (auto intro: reach_tc)

text \<open>One message: the row of its sender is right or as it was, that of any other node is as it was.\<close>

lemma process_tc_row:
  fixes ord src s
  assumes "truthful Q tc"
  defines "s' \<equiv> snd (process_tc ord tc src s)"
  shows "row_known Q u s \<Longrightarrow> row_known Q u s'"
    and "row_known Q u s' \<or> last_tc_seq s' u = last_tc_seq s u"
    and "tc_sender tc = u \<Longrightarrow> should_forward_tc s tc \<Longrightarrow> row_known Q u s'"
    and "tc_sender tc \<noteq> u \<Longrightarrow> topology s' u = topology s u"
proof -
  have sent: "row_known Q (tc_sender tc) s'" if "should_forward_tc s tc"
    using process_tc_accept [OF that, of ord src] assms(1)
    by (auto simp: row_known_def s'_def tc_row_eq truthful_def fun_eq_iff)
  have same: "s' = s" if "\<not> should_forward_tc s tc"
    using that by (auto simp: s'_def process_tc_def should_forward_tc_def Let_def)
  have other: "topology s' u = topology s u \<and> last_tc_seq s' u = last_tc_seq s u" if "tc_sender tc \<noteq> u"
    using that same process_tc_accept [of s tc ord src] by (cases "should_forward_tc s tc") (auto simp: s'_def)
  have loc: "local_id s' = local_id s" by (simp add: s'_def)
  show "row_known Q u s \<Longrightarrow> row_known Q u s'"
    using sent same other loc by (cases "tc_sender tc = u"; cases "should_forward_tc s tc") (auto simp: row_known_def)
  show "row_known Q u s' \<or> last_tc_seq s' u = last_tc_seq s u"
    using sent same other by (cases "tc_sender tc = u"; cases "should_forward_tc s tc") auto
  show "tc_sender tc = u \<Longrightarrow> should_forward_tc s tc \<Longrightarrow> row_known Q u s'" using sent by blast
  show "tc_sender tc \<noteq> u \<Longrightarrow> topology s' u = topology s u" using other by blast
qed

text \<open>Many messages, in any order and with any repetitions, of which one from \<open>u\<close> was new at the start.\<close>

lemma receive_tcs_row:
  assumes "\<forall>(ord, tc, src) \<in> set ds. truthful Q tc"
    and "row_known Q u s \<or> (last_tc_seq s u = l \<and> (\<exists>(ord, tc, src) \<in> set ds. tc_sender tc = u
           \<and> u \<noteq> local_id s \<and> \<not> tc_duplicate (tc_seq tc) (unwrap_or l 0)))"
  shows "row_known Q u (receive_tcs s ds)"
  using assms
proof (induction ds arbitrary: s)
  case Nil
  then show ?case by (simp add: receive_tcs_def)
next
  case (Cons x ds)
  obtain ord tc src where x: "x = (ord, tc, src)" by (cases x)
  let ?s = "snd (process_tc ord tc src s)"
  have tr: "truthful Q tc" and rest: "\<forall>(ord, tc, src) \<in> set ds. truthful Q tc"
    using Cons.prems(1) x by auto
  have "row_known Q u ?s \<or> (last_tc_seq ?s u = l \<and> (\<exists>(ord, tc, src) \<in> set ds. tc_sender tc = u
      \<and> u \<noteq> local_id ?s \<and> \<not> tc_duplicate (tc_seq tc) (unwrap_or l 0)))"
  proof (cases "row_known Q u s \<or> (tc_sender tc = u \<and> should_forward_tc s tc)")
    case True
    then show ?thesis using process_tc_row(1,3) [OF tr] by blast
  next
    case False
    then have "\<not> (tc_sender tc = u \<and> u \<noteq> local_id s \<and> \<not> tc_duplicate (tc_seq tc) (unwrap_or l 0))"
      using Cons.prems(2) by (auto simp: should_forward_tc_def)
    then show ?thesis
      using False Cons.prems(2) process_tc_row(2) [OF tr, of u ord src s] x by auto
  qed
  from Cons.IH [OF rest this] show ?case by (simp add: receive_tcs_def x)
qed

lemma receive_tcs_other:
  assumes "\<forall>(ord, tc, src) \<in> set ds. tc_sender tc \<noteq> u"
  shows "topology (receive_tcs s ds) u = topology s u"
  using assms
proof (induction ds arbitrary: s)
  case (Cons x ds)
  obtain ord tc src where x: "x = (ord, tc, src)" by (cases x)
  have "topology (snd (process_tc ord tc src s)) u = topology s u"
    using Cons.prems x by (auto simp: process_tc_def Let_def)
  with Cons x show ?case by (simp add: receive_tcs_def)
qed (simp add: receive_tcs_def)

text \<open>
  The exchange: every node knows its own links; every node receives TC messages that nodes of the
  network made, among them, for each other node, one that is new to it.
\<close>

definition tc_of_network :: "u8 set \<Rightarrow> network \<Rightarrow> iter_order \<times> Tc \<times> u8 \<Rightarrow> bool" where
  "tc_of_network V net = (\<lambda>(ord, tc, src). order_ok ord \<and> tc_sender tc \<in> V
     \<and> (\<exists>ord' now sq. order_ok ord' \<and> tc = make_tc ord' now sq (net (tc_sender tc))))"

definition hears_all :: "u8 set \<Rightarrow> OlsrState \<Rightarrow> (iter_order \<times> Tc \<times> u8) list \<Rightarrow> bool" where
  "hears_all V s ds \<longleftrightarrow>
     (\<forall>u \<in> V. u \<noteq> local_id s \<longrightarrow> (\<exists>(ord, tc, src) \<in> set ds. tc_sender tc = u \<and> should_forward_tc s tc))"

definition neighbors_known :: "u8 set \<Rightarrow> link_table \<Rightarrow> network \<Rightarrow> bool" where
  "neighbors_known V Q net \<longleftrightarrow> links_within V Q \<and> (\<forall>u. u \<notin> V \<longrightarrow> Q u = Map.empty)
     \<and> (\<forall>a \<in> V. olsr_reach a (net a) \<and> (\<forall>n. map_option link_quality (neighbors (net a) n) = Q a n)
          \<and> (\<forall>u. u \<notin> V \<longrightarrow> topology (net a) u = None))"

lemma exchange_converges:
  assumes "neighbors_known V Q net"
    and "\<forall>a \<in> V. (\<forall>x \<in> set (ds a). tc_of_network V net x) \<and> hears_all V (net a) (ds a)"
  shows "converged V Q (\<lambda>a. receive_tcs (net a) (ds a))"
proof -
  have loc: "local_id (net a) = a" if "a \<in> V" for a
    using assms(1) that reach_inv [of a "net a"] by (simp add: neighbors_known_def)
  have truth: "\<forall>(ord, tc, src) \<in> set (ds a). truthful Q tc" if a: "a \<in> V" for a
  proof clarify
    fix ord tc src assume "(ord, tc, src) \<in> set (ds a)"
    then have "tc_of_network V net (ord, tc, src)" using assms(2) a by blast
    then obtain ord' now sq where "tc_sender tc \<in> V" "order_ok ord'" "tc = make_tc ord' now sq (net (tc_sender tc))"
      by (auto simp: tc_of_network_def)
    then show "truthful Q tc"
      using make_tc_truthful [of ord' "net (tc_sender tc)" Q now sq] assms(1) loc
      by (simp add: neighbors_known_def)
  qed
  have row: "row_known Q u (receive_tcs (net a) (ds a))" if a: "a \<in> V" and u: "u \<noteq> a" for a u
  proof (cases "u \<in> V")
    case True
    then have "\<exists>(ord, tc, src) \<in> set (ds a). tc_sender tc = u \<and> should_forward_tc (net a) tc"
      using assms(2) a u loc by (auto simp: hears_all_def)
    then show ?thesis
      using loc [OF a] u by (intro receive_tcs_row [OF truth [OF a], where l = "last_tc_seq (net a) u"])
        (auto simp: should_forward_tc_def)
  next
    case False
    then have "\<forall>(ord, tc, src) \<in> set (ds a). tc_sender tc \<noteq> u"
      using assms(2) a by (auto simp: tc_of_network_def)
    from receive_tcs_other [OF this, of "net a"] show ?thesis
      using assms(1) a False by (auto simp: row_known_def neighbors_known_def)
  qed
  have "olsr_reach a (receive_tcs (net a) (ds a))" if "a \<in> V" for a
    using assms that by (intro receive_tcs_reach) (auto simp: neighbors_known_def tc_of_network_def)
  then show ?thesis
    using assms(1) row loc
    by (simp add: converged_def neighbors_known_def knows_links_def row_known_def receive_tcs_frame)
qed

section \<open>Properties\<close>

text \<open>
  (C3) The network converges to loop-free least-cost forwarding. Take at most ten nodes whose
  neighbour tables are the links that exist, and let every node receive TC messages that the nodes
  made of these tables, in any order and with any repetitions, at least one new one from each other
  node. If then every node forwards to the next hop of its own route, a frame from any node to any
  other that can be reached at all gets there, over real links, visiting no node twice, and no path
  over the links is cheaper.
\<close>

theorem network_converges:
  assumes "neighbors_known V Q net" and "card V \<le> 10"
    and "\<forall>a \<in> V. (\<forall>x \<in> set (ds a). tc_of_network V net x) \<and> hears_all V (net a) (ds a)"
    and "a \<in> V" and "walk (true_edges Q) a d c n"
  shows "\<exists>ps k. follows (\<lambda>u. receive_tcs (net u) (ds u)) d (a # ps) \<and> distinct (a # ps)
    \<and> path_cost Q (a # ps) = Some k \<and> (\<forall>c n. walk (true_edges Q) a d c n \<longrightarrow> k \<le> c)"
proof -
  obtain k where "least_walk (true_edges Q) a d k" using least_walk_exists [OF assms(5)] ..
  from forwarding_path [OF exchange_converges [OF assms(1,3)] assms(2,4) this] least_walk_le [OF this]
  show ?thesis by blast
qed

section \<open>Three nodes in a line\<close>

definition line_hello :: "u8 \<Rightarrow> Hello" where
  "line_hello n = \<lparr>hello_sender = n, hello_neighbors = [], hello_sent_at_ms = 0\<rparr>"

definition line_hears :: "u8 \<Rightarrow> OlsrState \<Rightarrow> OlsrState" where
  "line_hears n s = process_hello id_order 0 (line_hello n) n (- 30) s"

definition line_net :: network where
  "line_net a =
     (if a = 1 then line_hears 2 (OlsrState_new 1)
      else if a = 2 then line_hears 3 (line_hears 1 (OlsrState_new 2))
      else line_hears 2 (OlsrState_new 3))"

definition line_links :: link_table where
  "line_links u =
     (if u = 1 then [2 \<mapsto> good_link]
      else if u = 2 then [1 \<mapsto> good_link, 3 \<mapsto> good_link]
      else if u = 3 then [2 \<mapsto> good_link] else Map.empty)"

definition line_tcs :: "u8 \<Rightarrow> (iter_order \<times> Tc \<times> u8) list" where
  "line_tcs a = map (\<lambda>u. (id_order, make_tc id_order 0 1 (line_net u), u)) [1, 2, 3]"

lemma line_hears_simps [simp]:
  "local_id (line_hears n s) = local_id s" "topology (line_hears n s) = topology s"
  "last_tc_seq (line_hears n s) = last_tc_seq s"
  "n \<noteq> local_id s \<Longrightarrow> map_option link_quality (neighbors (line_hears n s) k)
     = (if k = n then Some good_link else map_option link_quality (neighbors s k))"
  by (simp_all add: line_hears_def line_hello_def process_hello_neighbors hello_mcs_def good_link_def)

lemma line_hears_reach: "olsr_reach i s \<Longrightarrow> olsr_reach i (line_hears n s)"
  unfolding line_hears_def by (rule reach_hello [OF _ id_order_ok])

lemma OlsrState_new_simps [simp]:
  "local_id (OlsrState_new i) = i" "neighbors (OlsrState_new i) = Map.empty"
  "topology (OlsrState_new i) = Map.empty" "last_tc_seq (OlsrState_new i) = Map.empty"
  by (simp_all add: OlsrState_new_def)

lemma line_rows:
  "a \<in> {1, 2, 3} \<Longrightarrow> map_option link_quality (neighbors (line_net a) n) = line_links a n"
  by (elim insertE) (simp_all add: line_net_def line_links_def)

lemma line_neighbors_known: "neighbors_known {1, 2, 3} line_links line_net"
proof -
  have "links_within {1, 2, 3} line_links" by (auto simp: links_within_def line_links_def)
  moreover have "olsr_reach a (line_net a) \<and> (\<forall>u. topology (line_net a) u = None)" if "a \<in> {1, 2, 3}" for a
    using that by (auto simp: line_net_def intro!: line_hears_reach reach_new)
  moreover have "u \<notin> {1, 2, 3} \<longrightarrow> line_links u = Map.empty" for u by (simp add: line_links_def)
  ultimately show ?thesis unfolding neighbors_known_def by (simp add: line_rows del: map_option_eq_Some)
qed

lemma line_exchange:
  "\<forall>a \<in> {1, 2, 3}. (\<forall>x \<in> set (line_tcs a). tc_of_network {1, 2, 3} line_net x)
     \<and> hears_all {1, 2, 3} (line_net a) (line_tcs a)"
proof -
  have loc: "local_id (line_net u) = u" if "u \<in> {1, 2, 3}" for u
    using that by (auto simp: line_net_def)
  have new: "last_tc_seq (line_net a) u = None" for a u by (simp add: line_net_def)
  have "tc_of_network {1, 2, 3} line_net (id_order, make_tc id_order 0 1 (line_net u), u)" if "u \<in> {1, 2, 3}" for u
    using that loc id_order_ok by (auto simp: tc_of_network_def make_tc_def)
  moreover have "hears_all {1, 2, 3} (line_net a) (line_tcs a)" for a
    using loc new
    by (auto simp: hears_all_def line_tcs_def should_forward_tc_def make_tc_def tc_duplicate_def)
  ultimately show ?thesis by (auto simp: line_tcs_def)
qed

theorem network_converges_witness:
  "\<exists>ps. follows (\<lambda>u. receive_tcs (line_net u) (line_tcs u)) 3 (1 # ps) \<and> distinct (1 # ps)
     \<and> path_cost line_links (1 # ps) \<noteq> None"
proof -
  have e: "(2, link_cost good_link) \<in> set (true_edges line_links 1)"
    "(3, link_cost good_link) \<in> set (true_edges line_links 2)"
    by (auto simp: set_true_edges line_links_def)
  have "walk (true_edges line_links) 2 3 (unat (link_cost good_link)) 1" using e(2) by (rule walk_edge)
  with e(1) have "\<exists>c n. walk (true_edges line_links) 1 3 c n" by (blast intro: walk_Cons)
  then obtain c n where w: "walk (true_edges line_links) 1 3 c n" by blast
  have "card {1, 2, 3 :: u8} \<le> 10" by simp
  from network_converges [OF line_neighbors_known this line_exchange _ w] show ?thesis by auto
qed

end
