(* ===== verification/Delivery.thy ===== *)
theory Delivery
  imports Network Behaviour
begin

text \<open>
  A message on its way over several hops: the outbound queue of the sender, the receive loop of
  every node on the path that the routes prescribe, and the message handler of the destination.
  Each forwarder builds the frame anew, so the last one is the source that the destination sees.
\<close>

section \<open>One hop\<close>

text \<open>A forwarder queues one copy and hands nothing to its handlers.\<close>

lemma forwarder_step:
  assumes "can_receive env iou k u (io_now iov) v" and "queues_ok (queues (sh_sched v))"
    and "route_to (sh_olsr v) d = Some r" and "d \<noteq> id_node (sh_identity v)" and "d \<noteq> BROADCAST"
  shows "\<exists>rx' v'. rx_step env iov
       (build_frame_inner (env_crypto env) (fst (io_frame iou k)) (snd (io_frame iou k)) msg prio d
          (sh_identity u) lh hops) meta rx v = (rx', v', [])
     \<and> sh_lane v' prio = sh_lane v prio @
         [build_frame_inner (env_crypto env) (fst (io_frame iov 1)) (snd (io_frame iov 1)) msg prio d
            (sh_identity v) (next_hop r) 0]"
proof -
  let ?f = "parsed_built env iou k u msg prio d lh hops"
  obtain nc where nc: "parse_and_verify_frame (env_crypto env)
      (build_frame_inner (env_crypto env) (fst (io_frame iou k)) (snd (io_frame iou k)) msg prio d
         (sh_identity u) lh hops) (sh_pubkeys v) (sh_nonces v) (io_now iov)
      (id_session_key (sh_identity v)) = (Inr ?f, nc)"
    using can_receive_parse [OF assms(1)] .
  let ?v = "v\<lparr>sh_nonces := nc\<rparr>"
  have "rx_relay env iov ?f ?v = sh_enqueue ?v (route_frame env iov 1 ?v msg prio d (next_hop r)) prio"
    using assms(3-5) by (cases msg) (simp add: rx_relay_def Let_def rebroadcast_def forward_unicast_def)
  moreover have "\<not> deliver_local (id_node (sh_identity v)) ?f"
    using assms(4,5) by (simp add: deliver_local_def)
  moreover have "sh_lane (sh_enqueue ?v f prio) prio = sh_lane v prio @ [f]" for f
    using assms(2) sh_lane_enqueue [of ?v f prio] by (simp add: sh_lane_def)
  ultimately show ?thesis by (simp add: rx_step_def nc Let_def frame_builders)
qed

text \<open>The destination hands the message to its handler.\<close>

lemma destination_step:
  assumes "can_receive env iou k u (io_now iov) v" and "de_app env (payload msg) = Inr m"
    and "kind msg = Data" and "d = id_node (sh_identity v)"
  shows "\<exists>rx' v'. rx_step env iov
       (build_frame_inner (env_crypto env) (fst (io_frame iou k)) (snd (io_frame iou k)) msg prio d
          (sh_identity u) lh hops) meta rx v
     = (rx', v', [Task_Tactical m (id_node (sh_identity u))])"
proof -
  let ?f = "parsed_built env iou k u msg prio d lh hops"
  obtain nc where nc: "parse_and_verify_frame (env_crypto env)
      (build_frame_inner (env_crypto env) (fst (io_frame iou k)) (snd (io_frame iou k)) msg prio d
         (sh_identity u) lh hops) (sh_pubkeys v) (sh_nonces v) (io_now iov)
      (id_session_key (sh_identity v)) = (Inr ?f, nc)"
    using can_receive_parse [OF assms(1)] .
  have "deliver_local (id_node (sh_identity v)) ?f" using assms(4) by (simp add: deliver_local_def)
  moreover have "rx_dispatch env iov r ?f s = (s, [Task_Tactical m (id_node (sh_identity u))])" for r s
    using assms(2,3) by (simp add: rx_dispatch_def)
  ultimately show ?thesis by (simp add: rx_step_def nc Let_def split: prod.splits)
qed

section \<open>Many hops\<close>

text \<open>
  The nodes of a path receive in turn what the one before has queued; the result is what the last
  one hands to its handlers. Nothing comes out if a node queues anything but one frame.
\<close>

fun carry ::
  "node_env \<Rightarrow> (u8 \<Rightarrow> step_io) \<Rightarrow> (u8 \<Rightarrow> RxMeta) \<Rightarrow> (u8 \<Rightarrow> RxState) \<Rightarrow> (u8 \<Rightarrow> Shared) \<Rightarrow> Priority \<Rightarrow> bytes
    \<Rightarrow> u8 list \<Rightarrow> task list option" where
  "carry env io meta rx net prio frame [] = None"
| "carry env io meta rx net prio frame (v # vs) =
     (case rx_step env (io v) frame (meta v) (rx v) (net v) of
        (rx', s', ts) \<Rightarrow>
          if vs = [] then Some ts
          else (case drop (length (sh_lane (net v) prio)) (sh_lane s' prio) of
                  [f] \<Rightarrow> if ts = [] then carry env io meta rx net prio f vs else None
                | _ \<Rightarrow> None))"

text \<open>Nodes that know each other's keys, with clocks that agree, and fresh nonces for the frames they build.\<close>

definition can_talk :: "node_env \<Rightarrow> (u8 \<Rightarrow> step_io) \<Rightarrow> (u8 \<Rightarrow> Shared) \<Rightarrow> u8 set \<Rightarrow> bool" where
  "can_talk env io net V \<longleftrightarrow>
     (\<forall>u \<in> V. id_node (sh_identity (net u)) = u \<and> queues_ok (queues (sh_sched (net u))))
   \<and> (\<forall>u \<in> V. \<forall>v \<in> V. u \<noteq> v \<longrightarrow>
        can_receive env (io u) 0 (net u) (io_now (io v)) (net v)
        \<and> can_receive env (io u) 1 (net u) (io_now (io v)) (net v))"

lemma can_talkD:
  assumes "can_talk env io net V" and "u \<in> V"
  shows "id_node (sh_identity (net u)) = u" and "queues_ok (queues (sh_sched (net u)))"
    and "v \<in> V \<Longrightarrow> u \<noteq> v \<Longrightarrow> k \<in> {0, 1} \<Longrightarrow> can_receive env (io u) k (net u) (io_now (io v)) (net v)"
  using assms by (auto simp: can_talk_def)

lemma carry_path:
  assumes "can_talk env io net V" and "set (u # v # vs) \<subseteq> V" and "distinct (u # v # vs)"
    and "follows (\<lambda>u. sh_olsr (net u)) d (v # vs)" and "d \<noteq> BROADCAST" and "k \<in> {0, 1}"
    and "de_app env (payload msg) = Inr m" and "kind msg = Data"
  shows "carry env io meta rx net prio
      (build_frame_inner (env_crypto env) (fst (io_frame (io u) k)) (snd (io_frame (io u) k)) msg prio d
         (sh_identity (net u)) lh hops) (v # vs)
    = Some [Task_Tactical m (last (butlast (u # v # vs)))]"
  using assms(2-4,6)
proof (induction vs arbitrary: u v k lh hops)
  case Nil
  then have recv: "can_receive env (io u) k (net u) (io_now (io v)) (net v)" and "d = v"
    and "id_node (sh_identity (net v)) = v" and "id_node (sh_identity (net u)) = u"
    using can_talkD [OF assms(1)] by auto
  then have "d = id_node (sh_identity (net v))" by simp
  from destination_step [OF recv assms(7,8) this, of prio lh hops "meta v" "rx v"]
    \<open>id_node (sh_identity (net u)) = u\<close> show ?case by auto
next
  case (Cons w vs)
  have recv: "can_receive env (io u) k (net u) (io_now (io v)) (net v)" and "queues_ok (queues (sh_sched (net v)))"
    and "id_node (sh_identity (net v)) = v"
    using can_talkD [OF assms(1)] Cons.prems by auto
  moreover obtain r where "route_to (sh_olsr (net v)) d = Some r" and w: "next_hop r = w" and "v \<noteq> d"
    and rest: "follows (\<lambda>u. sh_olsr (net u)) d (w # vs)"
    using Cons.prems(3) by auto
  ultimately obtain rx' v' where step: "rx_step env (io v)
       (build_frame_inner (env_crypto env) (fst (io_frame (io u) k)) (snd (io_frame (io u) k)) msg prio d
          (sh_identity (net u)) lh hops) (meta v) (rx v) (net v) = (rx', v', [])"
    "sh_lane v' prio = sh_lane (net v) prio @
         [build_frame_inner (env_crypto env) (fst (io_frame (io v) 1)) (snd (io_frame (io v) 1)) msg prio d
            (sh_identity (net v)) (next_hop r) 0]"
    using forwarder_step [OF recv, of d r msg prio lh hops "meta v" "rx v"] assms(5) by auto
  have "carry env io meta rx net prio
      (build_frame_inner (env_crypto env) (fst (io_frame (io v) 1)) (snd (io_frame (io v) 1)) msg prio d
         (sh_identity (net v)) (next_hop r) 0) (w # vs) = Some [Task_Tactical m (last (butlast (v # w # vs)))]"
    using Cons.prems rest by (intro Cons.IH) auto
  then show ?case using step by simp
qed

section \<open>Properties\<close>

text \<open>
  (C4) A message crosses the network. In a network of at most ten nodes that has converged, a
  message handed to the outbound queue of one node for another that can be reached over the links
  becomes one frame in the sender's queue; there is a loop-free path of next hops from the sender
  to the destination such that every node on it, receiving the frame of the one before, queues
  exactly one frame of its own and hands nothing to its handlers, and the destination hands exactly
  this message to its handler. The source it is given is the last node that forwarded.
\<close>

theorem message_crosses_network:
  assumes "converged V Q (\<lambda>u. sh_olsr (net u))" and "card V \<le> 10" and "can_talk env io net V"
    and "codec_ok (ser_app env) (de_app env)" and "ser_app env (out_app_msg out) = Inr p"
    and "a \<in> V" and "out_dst out \<noteq> a" and "out_dst out \<noteq> BROADCAST"
    and "walk (true_edges Q) a (out_dst out) c n"
  shows "\<exists>ps frame. follows (\<lambda>u. sh_olsr (net u)) (out_dst out) (a # ps) \<and> distinct (a # ps) \<and> set ps \<subseteq> V
    \<and> sh_lane (outbound_step env (io a) out (net a)) (out_prio out) = sh_lane (net a) (out_prio out) @ [frame]
    \<and> carry env io meta rx net (out_prio out) frame ps
        = Some [Task_Tactical (out_app_msg out) (last (butlast (a # ps)))]"
proof -
  let ?d = "out_dst out" and ?msg = "\<lparr>kind = Data, payload = p\<rparr>"
  obtain k where "least_walk (true_edges Q) a ?d k" using least_walk_exists [OF assms(9)] ..
  from forwarding_path [OF assms(1,2,6) this] obtain ps where
    ps: "follows (\<lambda>u. sh_olsr (net u)) ?d (a # ps)" "distinct (a # ps)" "set (a # ps) \<subseteq> V" by blast
  from ps(1) assms(7) obtain v vs where vs: "ps = v # vs" by (cases ps) auto
  then obtain r where r: "route_to (sh_olsr (net a)) ?d = Some r"
    and rest: "follows (\<lambda>u. sh_olsr (net u)) ?d (v # vs)"
    using ps(1) by auto
  let ?frame = "build_frame_inner (env_crypto env) (fst (io_frame (io a) 0)) (snd (io_frame (io a) 0)) ?msg
      (out_prio out) ?d (sh_identity (net a)) (next_hop r) 0"
  have "outbound_step env (io a) out (net a) = sh_enqueue (net a) ?frame (out_prio out)"
    using assms(5,8) r by (simp add: outbound_step_def Let_def frame_builders)
  then have "sh_lane (outbound_step env (io a) out (net a)) (out_prio out) = sh_lane (net a) (out_prio out) @ [?frame]"
    using can_talkD(2) [OF assms(3,6)] by (simp add: sh_lane_enqueue)
  moreover have "carry env io meta rx net (out_prio out) ?frame ps
      = Some [Task_Tactical (out_app_msg out) (last (butlast (a # ps)))]"
    unfolding vs
  proof (rule carry_path [OF assms(3) _ _ rest assms(8)])
    show "set (a # v # vs) \<subseteq> V" and "distinct (a # v # vs)" using ps vs by simp_all
    show "de_app env (payload ?msg) = Inr (out_app_msg out)" using codec_okD [OF assms(4,5)] by simp
  qed simp_all
  moreover have "set ps \<subseteq> V" using ps(3) by simp
  ultimately show ?thesis using ps(1,2) by blast
qed

end
