(* ===== verification/ConfigScenarios.thy ===== *)
theory ConfigScenarios
  imports NodeScenarios ImageCodec Terminal Delivery
begin

text \<open>
  More properties applied to the nodes of the demonstration network: the image codec with a
  trivial picture format, the configuration, the terminal loop, and a message over two hops.
\<close>

section \<open>An image library\<close>

definition demo_load :: "bytes \<Rightarrow> string + picture" where
  "demo_load b =
     (let w = from_le_bytes (take 4 b); h = from_le_bytes (take 4 (drop 4 b)); px = drop 8 b
      in if length b < 8 \<or> length px < pixels w h then Inl ''bad image''
         else Inr (take (pixels w h) px, w, h))"

definition demo_image_lib :: "(picture, picture) image_lib" where
  "demo_image_lib =
     \<lparr>GrayImage_from_raw = (\<lambda>w h raw. if length raw < pixels w h then None else Some (raw, w, h)),
      write_to_jpeg = (\<lambda>(raw, w, h) q. if length raw < pixels w h then Inl ''short''
                         else Inr (to_le_bytes 4 w @ to_le_bytes 4 h @ raw)),
      load_from_memory = demo_load,
      thumbnail = (\<lambda>(raw, w, h) mw mh. (replicate (pixels (min w mw) (min h mh)) 0, min w mw, min h mh)),
      into_luma8 = (\<lambda>p. p),
      gray_width = (\<lambda>(raw, w, h). w), gray_height = (\<lambda>(raw, w, h). h), into_raw = (\<lambda>(raw, w, h). raw)\<rparr>"

lemma demo_image_lib_ok: "image_lib_ok demo_image_lib"
  by (auto simp: image_lib_ok_def demo_image_lib_def demo_load_def Let_def from_le_to_le_bytes
      split: if_splits prod.splits)

section \<open>A node that serves a file\<close>

definition demo_file :: bytes where
  "demo_file = to_le_bytes 4 (2 :: u32) @ to_le_bytes 4 (1 :: u32) @ [5, 6]"

definition demo_server :: node_state where
  "demo_server = node_start ((demo_node 1)\<lparr>sh_local_image := Some ([0, 0], 2, 1)\<rparr>)"

lemma demo_file_loads: "decode_and_scale demo_image_lib demo_file IMG_MAX_W IMG_MAX_H = Some ([0, 0], 2, 1)"
proof -
  have "demo_load demo_file = Inr ([5, 6], 2, 1)"
    by (simp add: demo_load_def demo_file_def pixels_def from_le_to_le_bytes Let_def)
  moreover have "min (2 :: u32) 320 = 2" and "min (1 :: u32) 240 = 1" by (simp_all add: min_def)
  moreover have "replicate 2 (0 :: u8) = [0, 0]" by (simp add: numeral_2_eq_2)
  ultimately show ?thesis
    by (simp add: decode_and_scale_def demo_image_lib_def IMG_MAX_W_def IMG_MAX_H_def pixels_def Let_def)
qed

lemma demo_server_main:
  "node_main demo_crypto (\<lambda>_. True) (\<lambda>_. True) (decode_and_scale demo_image_lib)
     (generate_test_pattern band) 1 None (Some (Inr demo_file)) None = Inr demo_server"
proof -
  have "length demo_file \<noteq> 640 * 480" by (simp add: demo_file_def)
  then show ?thesis
    using demo_file_loads
    by (simp add: node_main_def load_psk_def load_local_image_def demo_server_def demo_node_def
        demo_link_def demo_psk_def Shared_new_def LinkAdapter_new_def list_all_iff)
qed

theorem served_picture_decodes_witness:
  "\<exists>s' cs n len px. handle_request_image (with_codec demo_image_lib demo_env)
       \<lparr>ri_target_id = 9, ri_requester = 2\<rparr> 2 (ns_shared demo_server)
         = (s', [Task_SendShards \<lparr>ri_target_id = 9, ri_requester = 2\<rparr> n 0 cs (2, 1, len)])
     \<and> decode_jpeg demo_image_lib (concat cs) = Some (px, 2, 1) \<and> length px = 2"
proof -
  let ?req = "\<lparr>ri_target_id = 9, ri_requester = 2\<rparr>" and ?buf = "to_le_bytes 4 (2 :: u32) @ to_le_bytes 4 (1 :: u32) @ [0, 0]"
  have "encode_jpeg demo_image_lib [0, 0] 2 1 75 = Some ?buf"
    by (simp add: encode_jpeg_def demo_image_lib_def pixels_def)
  then obtain n cs len where h: "handle_request_image (with_codec demo_image_lib demo_env) ?req 2 (ns_shared demo_server)
      = (ns_shared demo_server, [Task_SendShards ?req n 0 cs (2, 1, len)])"
    by (simp add: handle_request_image_def demo_server_def node_start_def Let_def)
  have "\<exists>px. decode_jpeg demo_image_lib (concat cs) = Some (px, 2, 1) \<and> length px = pixels 2 1"
    using served_picture_decodes [OF demo_image_lib_ok demo_server_main [of "\<lambda>_ _. 0"] reach_start h] by blast
  with h show ?thesis by (auto simp: pixels_def)
qed

theorem streams_never_rotate_witness:
  "\<exists>ns. node_step demo_env demo_start ns \<and> epoch (sh_link (ns_shared ns)) = 0
     \<and> tx_stream_id (tx (sh_link (ns_shared ns)) High) = derive_stream_id (blake3 demo_crypto) demo_psk 0 High"
proof -
  obtain ns where step: "node_step demo_env demo_start ns" using step_epoch by blast
  have "node_reach demo_env demo_start ns"
    by (rule reach_step [OF reach_start _ step]) (simp add: demo_start_def node_start_def)
  from streams_never_rotate [OF demo_main demo_load_psk this] step show ?thesis by blast
qed

section \<open>Leaving the terminal loop\<close>

definition escape_round :: tui_round where
  "escape_round = \<lparr>round_others = (\<lambda>s. s), round_poll = PollEvent (Event_Key Key_Esc Key_Press False),
     round_io = demo_io 0, round_rnd = 0, round_lat = 0, round_lon = 0\<rparr>"

theorem two_escapes_end_loop_witness:
  "\<exists>t'. tui_run True True True True True [escape_round, escape_round] (demo_node 1)
       \<lparr>raw_mode = False, alternate_screen = False\<rparr> = (Some (Inr ()), t')
     \<and> \<not> raw_mode t' \<and> \<not> alternate_screen t'"
  by (rule two_escapes_end_loop) (simp_all add: escape_round_def escape_key_def)

section \<open>A message over two hops\<close>

text \<open>The three nodes in the line of theory Network, after their exchange.\<close>

definition line_node :: "u8 \<Rightarrow> Shared" where
  "line_node u = (demo_node u)\<lparr>sh_olsr := receive_tcs (line_net u) (line_tcs u)\<rparr>"

definition line_chat :: OutboundMsg where
  "line_chat = \<lparr>out_app_msg = Msg_Chat \<lparr>chat_from = 1, chat_text = ''hello''\<rparr>, out_dst = 3, out_prio = High\<rparr>"

lemma line_can_talk: "can_talk demo_env (\<lambda>_. demo_io 1000) line_node {1, 2, 3}"
proof -
  have "can_receive demo_env (demo_io 1000) k (line_node u) (io_now (demo_io 1000)) (line_node v)"
    if "u \<in> {1, 2, 3}" for u v k
  proof -
    have "can_receive demo_env (demo_io 1000) k (demo_node u) (io_now (demo_io 1000)) (demo_node v)"
      using that by (intro demo_can_receive) (simp_all add: demo_io_def)
    then show ?thesis by (simp add: can_receive_def line_node_def)
  qed
  moreover have "queues_ok (queues (sh_sched (line_node u)))" for u
    by (simp add: line_node_def Queues_new_def queues_ok_def)
  ultimately show ?thesis by (simp add: can_talk_def line_node_def)
qed

theorem message_crosses_network_witness:
  "\<exists>ps frame. follows (\<lambda>u. sh_olsr (line_node u)) 3 (1 # ps)
     \<and> sh_lane (outbound_step demo_env (demo_io 1000) line_chat (line_node 1)) High = [frame]
     \<and> carry demo_env (\<lambda>_. demo_io 1000) (\<lambda>_. demo_meta) (\<lambda>_. RxState_new) line_node High frame ps
         = Some [Task_Tactical (Msg_Chat \<lparr>chat_from = 1, chat_text = ''hello''\<rparr>) (last (butlast (1 # ps)))]"
proof -
  have chat: "out_app_msg line_chat = Msg_Chat \<lparr>chat_from = 1, chat_text = ''hello''\<rparr>"
    "out_dst line_chat = 3" "out_prio line_chat = High"
    by (simp_all add: line_chat_def)
  have conv: "converged {1, 2, 3} line_links (\<lambda>u. sh_olsr (line_node u))"
    using exchange_converges [OF line_neighbors_known line_exchange] by (simp add: line_node_def)
  have "(2, link_cost good_link) \<in> set (true_edges line_links 1)"
    "(3, link_cost good_link) \<in> set (true_edges line_links 2)"
    by (auto simp: set_true_edges line_links_def)
  then have "\<exists>c n. walk (true_edges line_links) 1 3 c n" by (blast intro: walk_Cons walk_edge)
  then obtain c n where w: "walk (true_edges line_links) 1 3 c n" by blast
  obtain p where p: "ser_app demo_env (out_app_msg line_chat) = Inr p"
    by (simp add: line_chat_def demo_ser_app_def)
  have side: "card {1, 2, 3 :: u8} \<le> 10" "codec_ok (ser_app demo_env) (de_app demo_env)" "1 \<in> {1, 2, 3 :: u8}"
    "out_dst line_chat \<noteq> 1" "out_dst line_chat \<noteq> BROADCAST"
    using demo_codec_app by (simp_all add: chat BROADCAST_def)
  have lane: "sh_lane (line_node 1) High = []" by (simp add: line_node_def)
  from message_crosses_network [OF conv side(1) line_can_talk side(2) p side(3-5) w [folded chat(2)],
      of "\<lambda>_. demo_meta" "\<lambda>_. RxState_new"]
  show ?thesis unfolding chat lane append_Nil by blast
qed

end
