(* ===== verification/MeshScenarios.thy ===== *)
theory MeshScenarios
  imports MeshMessages ConfigScenarios
begin

text \<open>Concrete runs of a mesh of two nodes, for the properties of \<open>Mesh\<close>.\<close>

definition demo_boot :: "u8 \<Rightarrow> node_state" where
  "demo_boot n = node_start ((demo_node n)\<lparr>sh_local_image := Some ([7], 1, 1)\<rparr>)"

lemma demo_boot_main:
  "node_main demo_crypto (\<lambda>_. True) (\<lambda>_. True) (\<lambda>_ _ _. None) ([7], 1, 1) n None None None = Inr (demo_boot n)"
  by (simp add: node_main_def load_psk_def load_local_image_def demo_boot_def demo_node_def demo_link_def
      demo_psk_def Shared_new_def LinkAdapter_new_def list_all_iff)

lemma demo_boot_simps [simp]:
  "sh_link (ns_shared (demo_boot n)) = demo_link n" "ns_frames (demo_boot n) = []"
  "sh_olsr (ns_shared (demo_boot n)) = OlsrState_new n"
  "sh_identity (ns_shared (demo_boot n)) = Identity_from_seed demo_crypto n demo_psk"
  "sh_pubkeys (ns_shared (demo_boot n)) = demo_pubkeys demo_crypto demo_psk"
  "sh_nonces (ns_shared (demo_boot n)) = NonceCache_new"
  "queues (sh_sched (ns_shared (demo_boot n))) = Queues_new"
  using demo_link_simps(1) [of n] by (simp_all add: demo_boot_def node_start_def sh_link_def)

text \<open>The first HELLO of node 1.\<close>

definition demo_hello :: bytes where
  "demo_hello = build_frame demo_crypto 1000 [1, 2, 3, 4, 0]
     \<lparr>kind = OlsrHello, payload = 1 # to_le_bytes 8 (1000 :: u64)\<rparr> High BROADCAST
     (Identity_from_seed demo_crypto 1 demo_psk)"

lemma demo_hello_tick:
  "\<exists>pkt l. hello_tick demo_crypto demo_ser_olsr id_order 1000 [1, 2, 3, 4, 0] True
      (Identity_from_seed demo_crypto 1 demo_psk) (OlsrState_new 1) (demo_link 1) = (Some pkt, l)
    \<and> drop 8 pkt = demo_hello"
proof -
  have "hello_neighbors (make_hello id_order 1000 (OlsrState_new 1)) = []"
    "hello_sender (make_hello id_order 1000 (OlsrState_new 1)) = 1"
    "hello_sent_at_ms (make_hello id_order 1000 (OlsrState_new 1)) = 1000"
    using entries_none [of "id_order 1" Map.empty] by (simp_all add: make_hello_def)
  then show ?thesis
    using drop_packet [of True "demo_link 1" demo_hello High]
    by (cases "LinkAdapter_send True (demo_link 1) demo_hello High")
      (simp add: hello_tick_def send_olsr_def demo_ser_olsr_def demo_hello_def Let_def)
qed

definition demo_frame_of :: "bytes \<Rightarrow> RxFrame" where
  "demo_frame_of d = \<lparr>frame_data = d, frame_rssi_dbm = - 60, frame_stream_id = 0, frame_seq = 0\<rparr>"

lemma demo_hello_source: "own_frame n demo_hello \<longleftrightarrow> n = 1"
  by (simp add: demo_hello_def build_frame_def own_frame_built)

lemma mesh_hears:
  "a \<in> V \<Longrightarrow> node_step env (mesh_node m a) ns \<Longrightarrow> node_heard ns \<subseteq> {f} \<Longrightarrow> (w, f) \<in> set (mesh_air m)
   \<Longrightarrow> mesh_step env ks V m (m\<lparr>mesh_node := (mesh_node m)(a := ns)\<rparr>)"
  by (rule mesh_local) force+

text \<open>A reader of node 2 gets a frame that is on the air and hands it to the receive loop.\<close>

lemma demo_delivery:
  assumes reach: "mesh_reach env ks {1, 2} demo_boot m" and boot: "mesh_node m 2 = demo_boot 2"
    and air: "(w, d) \<in> set (mesh_air m)" and own: "\<not> own_frame 2 d"
  obtains n where "mesh_reach env ks {1, 2} demo_boot (m\<lparr>mesh_node := (mesh_node m)(2 := n)\<rparr>)"
    and "ns_frames n = [(d, demo_meta, p)]" and "ns_tasks n = []"
    and "sh_pubkeys (ns_shared n) = demo_pubkeys demo_crypto demo_psk" and "sh_nonces (ns_shared n) = NonceCache_new"
    and "sh_identity (ns_shared n) = Identity_from_seed demo_crypto 2 demo_psk"
proof -
  let ?l2 = "LinkAdapter_deliver (demo_link 2) p (demo_frame_of d)"
  have chans: "rx_chans ?l2 = (\<lambda>_. [])(p := [(d, demo_meta)])"
    using own by (auto simp: LinkAdapter_deliver_def reader_deliver_def demo_frame_of_def filtered_out_def
        try_send_def RX_CHAN_DEPTH_def demo_meta_def fun_eq_iff Let_def)
  let ?n2 = "(demo_boot 2)\<lparr>ns_shared := set_link (ns_shared (demo_boot 2)) ?l2\<rparr>"
  let ?m2 = "m\<lparr>mesh_node := (mesh_node m)(2 := ?n2)\<rparr>"
  have "node_step env (mesh_node m 2) ?n2"
    using step_radio [of env "demo_boot 2" p "demo_frame_of d"] by (simp add: boot)
  moreover have "node_heard ?n2 \<subseteq> {d}"
    by (auto simp: node_heard_def heard_frames_def chans split: if_splits)
  ultimately have s2: "mesh_step env ks {1, 2} m ?m2"
    using air by (intro mesh_hears) simp_all
  let ?l3 = "?l2\<lparr>rx_chans := (rx_chans ?l2)(p := [])\<rparr>"
  let ?n3 = "?n2\<lparr>ns_shared := set_link (ns_shared ?n2) ?l3, ns_frames := [(d, demo_meta, p)]\<rparr>"
  have "LinkAdapter_recv ?l2 p = Some ((d, demo_meta), ?l3)"
    by (simp add: LinkAdapter_recv_def chans)
  then have "node_step env ?n2 ?n3"
    using step_reader [of ?n2 p d demo_meta ?l3 env] by (simp add: FRAME_CHAN_DEPTH_def)
  moreover have "node_heard ?n3 \<subseteq> {d}"
    by (auto simp: node_heard_def heard_frames_def chans split: if_splits)
  ultimately have "mesh_step env ks {1, 2} ?m2 (?m2\<lparr>mesh_node := (mesh_node ?m2)(2 := ?n3)\<rparr>)"
    using air by (intro mesh_hears [of 2 _ _ _ _ d w]) simp_all
  then have "mesh_reach env ks {1, 2} demo_boot (m\<lparr>mesh_node := (mesh_node m)(2 := ?n3)\<rparr>)"
    using mesh_next [OF mesh_next [OF reach s2]] by simp
  then show thesis
    by (rule that) (simp_all add: set_link_def demo_boot_def node_start_def)
qed

text \<open>Node 1 sends its HELLO, a reader of node 2 gets it and hands it to the receive loop.\<close>

lemma demo_mesh_run:
  "\<exists>m. mesh_reach demo_env (demo_pubkeys demo_crypto demo_psk) {1, 2} demo_boot m
     \<and> ns_frames (mesh_node m 2) = [(demo_hello, demo_meta, High)]
     \<and> sh_pubkeys (ns_shared (mesh_node m 2)) = demo_pubkeys demo_crypto demo_psk
     \<and> sh_nonces (ns_shared (mesh_node m 2)) = NonceCache_new"
proof -
  let ?ks = "demo_pubkeys demo_crypto demo_psk" and ?V = "{1, 2} :: u8 set"
  obtain pkt l where tick: "hello_tick demo_crypto demo_ser_olsr id_order 1000 [1, 2, 3, 4, 0] True
      (Identity_from_seed demo_crypto 1 demo_psk) (OlsrState_new 1) (demo_link 1) = (Some pkt, l)"
    and pkt: "drop 8 pkt = demo_hello"
    using demo_hello_tick by blast
  let ?n1 = "(demo_boot 1)\<lparr>ns_shared := set_link (ns_shared (demo_boot 1)) l\<rparr>"
  let ?m0 = "\<lparr>mesh_node = demo_boot, mesh_air = []\<rparr>"
  let ?m1 = "\<lparr>mesh_node = demo_boot(1 := ?n1), mesh_air = [(Some 1, demo_hello)]\<rparr>"
  have "node_send demo_env (demo_boot 1) demo_hello ?n1"
    using send_hello [of demo_env id_order 1000 "[1, 2, 3, 4, 0]" True "demo_boot 1" pkt l] tick pkt by simp
  then have s1: "mesh_step demo_env ?ks ?V ?m0 ?m1"
    using mesh_send [of 1 ?V demo_env ?m0 demo_hello ?n1 ?ks] by simp
  have "\<not> own_frame 2 demo_hello" by (simp add: demo_hello_source)
  from demo_delivery [OF mesh_next [OF mesh_start s1] _ _ this, of "Some 1" High]
  obtain n where "mesh_reach demo_env ?ks ?V demo_boot (?m1\<lparr>mesh_node := (mesh_node ?m1)(2 := n)\<rparr>)"
    "ns_frames n = [(demo_hello, demo_meta, High)]" "sh_pubkeys (ns_shared n) = ?ks"
    "sh_nonces (ns_shared n) = NonceCache_new"
    by auto
  then show ?thesis by (intro exI [of _ "?m1\<lparr>mesh_node := (mesh_node ?m1)(2 := n)\<rparr>"]) simp
qed

lemma boot_both:
  "\<forall>a \<in> {1, 2}. node_main demo_crypto (\<lambda>_. True) (\<lambda>_. True) (\<lambda>_ _ _. None) ([7], 1, 1) a None None None
    = Inr (demo_boot a) \<and> load_psk None = Inr demo_psk"
  by (simp add: demo_boot_main demo_load_psk)

theorem accepted_frames_were_sent_witness:
  "\<exists>m random msg lh hops. mesh_reach demo_env (demo_pubkeys demo_crypto demo_psk) {1, 2} demo_boot m
     \<and> (Some 1, build_frame_inner demo_crypto 1000 random msg High BROADCAST
           (Identity_from_seed demo_crypto 1 demo_psk) lh hops) \<in> set (mesh_air m)
     \<and> kind msg = OlsrHello
     \<and> payload_hash12 demo_crypto (payload msg) = payload_hash12 demo_crypto (1 # to_le_bytes 8 (1000 :: u64))"
proof -
  let ?ks = "demo_pubkeys demo_crypto demo_psk"
  obtain m where m: "mesh_reach demo_env ?ks {1, 2} demo_boot m"
    "ns_frames (mesh_node m 2) = [(demo_hello, demo_meta, High)]"
    "sh_pubkeys (ns_shared (mesh_node m 2)) = ?ks" "sh_nonces (ns_shared (mesh_node m 2)) = NonceCache_new"
    using demo_mesh_run by blast
  have reg: "registered demo_crypto ?ks (Identity_from_seed demo_crypto 1 demo_psk)"
    using demo_pubkeys_get [of 1 demo_crypto demo_psk] by (simp add: registered_def)
  obtain nc where "check_and_insert NonceCache_new 1 1000 (snd (build_nonce [1, 2, 3, 4, 0] 1 1000)) 2000 = (Inr (), nc)"
    by (simp add: check_accept NonceCache_new_def abs_diff_le_iff nonce_consts)
  then obtain f where f: "parse_and_verify_frame demo_crypto demo_hello ?ks NonceCache_new 2000 demo_psk = (Inr f, nc)"
    and fields: "src_node (auth f) = 1" "timestamp_ms (auth f) = 1000" "priority (auth f) = High"
      "dst_node (auth f) = BROADCAST" "msg_kind (auth f) = OlsrHello" "plaintext f = 1 # to_le_bytes 8 (1000 :: u64)"
    using parse_built [OF demo_crypto_ok reg, of "[1, 2, 3, 4, 0]" NonceCache_new 1000 2000 nc]
    by (simp add: demo_hello_def build_frame_def)
  have "env_crypto demo_env = demo_crypto" by simp
  from accepted_frames_were_sent [OF boot_both this m(1) _ m(2) _ demo_crypto_ok, of 2000 demo_psk f nc]
  have "\<exists>random msg lh hops. (Some (src_node (auth f)),
       build_frame_inner demo_crypto (timestamp_ms (auth f)) random msg (priority (auth f)) (dst_node (auth f))
         (Identity_from_seed demo_crypto (src_node (auth f)) demo_psk) lh hops) \<in> set (mesh_air m)
     \<and> kind msg = msg_kind (auth f) \<and> payload_hash12 demo_crypto (payload msg) = payload_hash12 demo_crypto (plaintext f)"
    using f m(3,4) by simp
  then show ?thesis using m(1) unfolding fields by blast
qed

section \<open>A target seen by node 1\<close>

text \<open>A codec with a single message is enough here.\<close>

definition demo_target :: AppMsg where
  "demo_target = Msg_TargetDetection \<lparr>td_target_id = 100, td_kind = Vehicle, td_lat = 0, td_lon = 0,
     td_detected_at_ms = 1000, td_detector = 1\<rparr>"

definition target_env :: node_env where
  "target_env = demo_env\<lparr>ser_app := \<lambda>_. Inr [7], de_app := \<lambda>_. Inr demo_target\<rparr>"

lemma target_env_simps [simp]:
  "env_crypto target_env = demo_crypto" "ser_app target_env m = Inr [7]" "de_app target_env b = Inr demo_target"
  by (simp_all add: target_env_def)

definition target_frame :: bytes where
  "target_frame = build_frame demo_crypto 1000 [1, 2, 3, 4, 0] \<lparr>kind = Data, payload = [7]\<rparr> Critical BROADCAST
     (Identity_from_seed demo_crypto 1 demo_psk)"

lemma mesh_quiet:
  "a \<in> V \<Longrightarrow> node_step env (mesh_node m a) ns \<Longrightarrow> node_heard ns = {}
   \<Longrightarrow> mesh_step env ks V m (m\<lparr>mesh_node := (mesh_node m)(a := ns)\<rparr>)"
  by (rule mesh_local) simp_all

text \<open>The operator of node 1 presses t, the message is queued and the scheduler sends it.\<close>

lemma target_sent:
  "\<exists>m. mesh_reach target_env ks {1, 2} demo_boot m \<and> mesh_node m 2 = demo_boot 2
     \<and> mesh_air m = [(Some 1, target_frame)]"
proof -
  let ?io = "demo_io 1000" and ?n0 = "demo_boot 1"
  let ?out = "\<lparr>out_app_msg = demo_target, out_dst = BROADCAST, out_prio = Critical\<rparr>"
  let ?s1 = "log_line (ns_shared ?n0) ''[KEY t] TargetDetection broadcast''"
  let ?n1 = "?n0\<lparr>ns_shared := ?s1, ns_tui := TuiState_new, ns_out := [?out], ns_running := True\<rparr>"
  let ?n2 = "?n1\<lparr>ns_shared := outbound_step target_env ?io ?out ?s1, ns_out := []\<rparr>"
  let ?m0 = "\<lparr>mesh_node = demo_boot, mesh_air = []\<rparr>"
  let ?m1 = "?m0\<lparr>mesh_node := (mesh_node ?m0)(1 := ?n1)\<rparr>"
  let ?m2 = "?m1\<lparr>mesh_node := (mesh_node ?m1)(1 := ?n2)\<rparr>"
  have queue: "queues (sh_sched ?s1) = Queues_new" "sh_link ?s1 = demo_link 1"
    "sh_identity ?s1 = Identity_from_seed demo_crypto 1 demo_psk"
    using demo_link_simps(1) [of 1] by (simp_all add: log_line_def demo_boot_def node_start_def sh_link_def)
  have key: "tui_step ?io 0 0 0 (KeyPress CHR ''t'') (ns_tui ?n0) (ns_shared ?n0) = (False, TuiState_new, ?s1, [?out])"
    by (simp add: tui_step_def tui_command_def key_target_def demo_boot_def node_start_def demo_node_def Shared_new_def
        AppState_new_def demo_io_def demo_target_def)
  have "node_step target_env ?n0 ?n1"
    using step_key [OF key, of target_env] by (simp add: OUT_CHAN_DEPTH_def demo_boot_def node_start_def)
  moreover have "node_heard ?n1 = {}"
    by (simp add: node_heard_def heard_frames_def queue)
  ultimately have s1: "mesh_step target_env ks {1, 2} ?m0 ?m1" by (intro mesh_quiet) simp_all
  have out: "outbound_step target_env ?io ?out ?s1 = sh_enqueue ?s1 target_frame Critical"
    by (simp add: outbound_step_def new_frame_def queue target_frame_def demo_io_def)
  have "node_step target_env ?n1 ?n2"
    using step_outbound [of ?n1 ?out "[]" target_env ?io] by simp
  moreover have "node_heard ?n2 = {}"
    using queue(2) by (simp add: out node_heard_def heard_frames_def sh_enqueue_def enqueue_def sh_link_def)
  ultimately have s2: "mesh_step target_env ks {1, 2} ?m1 ?m2" by (intro mesh_quiet) simp_all
  have "queues (sh_sched (ns_shared ?n2)) = \<lparr>inner = [[], [target_frame], [], []]\<rparr>"
    by (simp add: out sh_enqueue_def enqueue_def push_def queue Queues_new_def Let_def)
  then obtain pkt res sc where
    run: "run_step (\<lambda>_. True) (sh_sched (ns_shared ?n2)) = Ret (Some (target_frame, Critical, pkt, res), sc)"
    and pkt: "drop 8 pkt = target_frame"
    by (cases "LinkAdapter_send True (sched_link (sh_sched (ns_shared ?n2))) target_frame Critical")
      (auto simp: run_step_def pop_next_def Priority_from_u8_def dest: drop_packet)
  from send_queued [OF run, of target_env]
  have "mesh_step target_env ks {1, 2} ?m2 (?m2\<lparr>mesh_node := (mesh_node ?m2)(1 :=
      ?n2\<lparr>ns_shared := (ns_shared ?n2)\<lparr>sh_sched := sc\<rparr>\<rparr>), mesh_air := [(Some 1, target_frame)]\<rparr>)"
    using mesh_send [of 1 "{1, 2}" target_env ?m2 target_frame _ ks] by (simp add: pkt)
  from mesh_next [OF mesh_next [OF mesh_next [OF mesh_start s1] s2] this] show ?thesis
    by (rule exI [where P = "\<lambda>m. mesh_reach _ _ _ _ m \<and> _ m", OF conjI]) simp
qed

theorem handled_messages_were_sent_witness:
  "\<exists>m p. mesh_reach target_env (demo_pubkeys demo_crypto demo_psk) {1, 2} demo_boot m
     \<and> Task_Tactical demo_target 1 \<in> set (ns_tasks (mesh_node m 2))
     \<and> de_app target_env p = Inr demo_target \<and> sent_message demo_crypto demo_psk (mesh_air m) 1 Data p"
proof -
  let ?ks = "demo_pubkeys demo_crypto demo_psk" and ?i = "Identity_from_seed demo_crypto 1 demo_psk"
  let ?io = "demo_io 2000"
  obtain m where m: "mesh_reach target_env ?ks {1, 2} demo_boot m" "mesh_node m 2 = demo_boot 2"
    "mesh_air m = [(Some 1, target_frame)]"
    using target_sent by blast
  have own: "own_frame k target_frame \<longleftrightarrow> k = 1" for k
    by (simp add: target_frame_def build_frame_def own_frame_built)
  have "(Some 1, target_frame) \<in> set (mesh_air m)" and "\<not> own_frame 2 target_frame" by (simp_all add: m(3) own)
  from demo_delivery [OF m(1,2) this, of Critical]
  obtain n where n: "mesh_reach target_env ?ks {1, 2} demo_boot (m\<lparr>mesh_node := (mesh_node m)(2 := n)\<rparr>)"
    "ns_frames n = [(target_frame, demo_meta, Critical)]" "ns_tasks n = []" "sh_pubkeys (ns_shared n) = ?ks"
    "sh_nonces (ns_shared n) = NonceCache_new" "sh_identity (ns_shared n) = Identity_from_seed demo_crypto 2 demo_psk"
    by metis
  let ?m = "m\<lparr>mesh_node := (mesh_node m)(2 := n)\<rparr>"
  have reg: "registered demo_crypto ?ks ?i"
    using demo_pubkeys_get [of 1 demo_crypto demo_psk] by (simp add: registered_def)
  obtain nc where "check_and_insert NonceCache_new 1 1000 (snd (build_nonce [1, 2, 3, 4, 0] 1 1000)) 2000 = (Inr (), nc)"
    by (simp add: check_accept NonceCache_new_def abs_diff_le_iff nonce_consts)
  then obtain f where f: "parse_and_verify_frame demo_crypto target_frame ?ks NonceCache_new 2000 demo_psk = (Inr f, nc)"
    and fields: "src_node (auth f) = 1" "dst_node (auth f) = BROADCAST" "msg_kind (auth f) = Data"
    using parse_built [OF demo_crypto_ok reg, of "[1, 2, 3, 4, 0]" NonceCache_new 1000 2000 nc]
    by (simp add: target_frame_def build_frame_def)
  have io: "io_now ?io = 2000" "io_ord ?io = id_order" by (simp_all add: demo_io_def)
  have "rx_dispatch target_env ?io r f s = (s, [Task_Tactical demo_target 1])" for r s
    by (simp add: rx_dispatch_def fields)
  moreover have "deliver_local k f" for k by (simp add: deliver_local_def fields)
  ultimately have "\<exists>rx s. rx_step target_env ?io target_frame demo_meta (ns_rx n) (ns_shared n)
      = (rx, s, [Task_Tactical demo_target 1])"
    using f by (simp add: rx_step_def n(4-6) io Let_def split: prod.splits)
  then obtain rx s where step: "rx_step target_env ?io target_frame demo_meta (ns_rx n) (ns_shared n)
      = (rx, s, [Task_Tactical demo_target 1])"
    by blast
  let ?n' = "n\<lparr>ns_shared := s, ns_rx := rx, ns_frames := [], ns_tasks := ns_tasks n @ [Task_Tactical demo_target 1]\<rparr>"
  have "node_step target_env n ?n'"
    by (rule step_rx [OF n(2) _ step]) (simp add: io id_order_ok)
  moreover have "node_heard ?n' \<subseteq> node_heard n \<union> snd ` set (mesh_air m)"
    using rx_step_flows [OF step] by (auto simp: node_heard_def flows_def)
  ultimately have "mesh_step target_env ?ks {1, 2} ?m (?m\<lparr>mesh_node := (mesh_node ?m)(2 := ?n')\<rparr>)"
    by (intro mesh_local) simp_all
  from mesh_next [OF n(1) this] have reach: "mesh_reach target_env ?ks {1, 2} demo_boot
      (m\<lparr>mesh_node := (mesh_node m)(2 := ?n')\<rparr>)" by simp
  have "Task_Tactical demo_target 1 \<in> set (ns_tasks (mesh_node (m\<lparr>mesh_node := (mesh_node m)(2 := ?n')\<rparr>) 2))" by simp
  from handled_messages_were_sent [OF boot_both _ reach _ this demo_crypto_ok] reach this show ?thesis
    by (metis insertI1 insertI2 target_env_simps(1))
qed

theorem running_nodes_hear_each_other_witness:
  "hears (sh_link (ns_shared (demo_boot 2))) Bulk (fst (LinkAdapter_send True (sh_link (ns_shared (demo_boot 1))) [5] Bulk)) [5]"
  using running_nodes_hear_each_other [OF demo_boot_main [of 1] demo_load_psk reach_start
      demo_boot_main [of 2] demo_load_psk reach_start, of Bulk True "[5]"] by blast

end
