(* ===== verification/Insider.thy ===== *)
theory Insider
  imports MeshScenarios
begin

text \<open>
  What a holder of the pre-shared key can do. The signing key of every node is derived from the node
  number and that key (\<^verbatim>\<open>Identity::from_seed\<close>), and a started node knows the verifying keys of
  nodes 1 to 3 only (\<^verbatim>\<open>main.rs\<close>): so one member can sign as any other, and a fourth node is mute.
\<close>

lemma started_config:
  assumes "node_main C tx_ok rx_ok scale pattern nid psk_file image_file tank = Inr start"
    and "load_psk psk_file = Inr psk" and "node_reach env start ns"
  shows "sh_identity (ns_shared ns) = Identity_from_seed C nid psk"
    and "sh_pubkeys (ns_shared ns) = demo_pubkeys C psk"
proof -
  obtain img l where "config (ns_shared start) = (Identity_from_seed C nid psk, demo_pubkeys C psk, img, link_config_of l)"
    using node_main_config [OF assms(1)] assms(2) by (metis sum.inject(2))
  then show "sh_identity (ns_shared ns) = Identity_from_seed C nid psk"
    and "sh_pubkeys (ns_shared ns) = demo_pubkeys C psk"
    using node_reach_config [OF assms(3)] by (simp_all add: config_def)
qed

lemma parse_unregistered:
  assumes "PubkeyStore_get ks (src_node (auth f)) = None"
  shows "parse_and_verify_frame C raw ks cache now key \<noteq> (Inr f, cache')"
  using assms parse_accept(1) [of C raw ks cache now key f cache'] by auto

text \<open>A node with another number than 1, 2 or 3 starts, and nothing that it sends is ever accepted.\<close>

lemma other_nodes_mute:
  assumes "node_main C tx_ok rx_ok scale pattern nid psk_file image_file tank = Inr start"
    and "load_psk psk_file = Inr psk" and "node_reach env start ns" and "src_node (auth f) \<notin> {1, 2, 3}"
  shows "parse_and_verify_frame C raw (sh_pubkeys (ns_shared ns)) cache now key \<noteq> (Inr f, cache')"
  unfolding started_config(2) [OF assms(1-3)]
  by (rule parse_unregistered) (use demo_key [of C psk "src_node (auth f)"] assms(4) in auto)

text \<open>
  (C7) Signatures do not attribute frames among members. Whoever has the pre-shared key can compute
  the identity of any of the three nodes: a message of its choice, built with it, is accepted by
  every started node in every reachable state, and handed to the message handler under the name of
  the node that never sent it. All it takes is a nonce not yet seen. (The readers of the named node
  itself drop such a frame before it reaches the receive loop, as one of its own; the receive loop
  does not tell the difference.)
\<close>

theorem member_signs_as_any_node:
  assumes "node_main C tx_ok rx_ok scale pattern nid psk_file image_file tank = Inr start"
    and "load_psk psk_file = Inr psk" and "env_crypto env = C" and "node_reach env start ns"
    and "crypto_ok C" and "codec_ok (ser_app env) (de_app env)" and "ser_app env msg = Inr p"
    and "victim \<in> {1, 2, 3}" and "length random = 5"
    and "seen (sh_nonces (ns_shared ns)) (victim, io_now io, snd (build_nonce random victim (io_now io))) = None"
  shows "\<exists>rx' s'. rx_step env io
      (build_frame C (io_now io) random \<lparr>kind = Data, payload = p\<rparr> prio BROADCAST (Identity_from_seed C victim psk))
      meta (ns_rx ns) (ns_shared ns) = (rx', s', [Task_Tactical msg victim])"
proof -
  let ?i = "Identity_from_seed C victim psk" and ?t = "io_now io"
  note cfg = started_config [OF assms(1,2,4)]
  have "registered C (sh_pubkeys (ns_shared ns)) ?i"
    using demo_pubkeys_get [OF assms(8), of C psk] by (simp add: registered_def cfg)
  moreover obtain nc where "check_and_insert (sh_nonces (ns_shared ns)) (id_node ?i) ?t
      (snd (build_nonce random (id_node ?i) ?t)) ?t = (Inr (), nc)"
    using assms(10) by (simp add: check_accept abs_diff_le_iff)
  ultimately obtain f where "parse_and_verify_frame C
      (build_frame C ?t random \<lparr>kind = Data, payload = p\<rparr> prio BROADCAST ?i)
      (sh_pubkeys (ns_shared ns)) (sh_nonces (ns_shared ns)) ?t (id_session_key ?i) = (Inr f, nc)"
    and f: "src_node (auth f) = victim" "dst_node (auth f) = BROADCAST" "msg_kind (auth f) = Data" "plaintext f = p"
    using parse_built [OF assms(5) _ assms(9)] unfolding build_frame_def by fastforce
  moreover have "deliver_local n f" for n using f by (simp add: deliver_local_def)
  moreover have "rx_dispatch env io r f s = (s, [Task_Tactical msg victim])" for r s
    using codec_okD [OF assms(6,7)] f by (simp add: rx_dispatch_def)
  ultimately show ?thesis
    by (simp add: rx_step_def cfg assms(3) Let_def split: prod.splits)
qed

theorem member_signs_as_any_node_witness:
  "\<exists>p rx' s'. demo_ser_app (Msg_Chat \<lparr>chat_from = 3, chat_text = ''go''\<rparr>) = Inr p
     \<and> rx_step demo_env (demo_io 1000) (build_frame demo_crypto 1000 [1, 2, 3, 4, 5] \<lparr>kind = Data, payload = p\<rparr>
          Critical BROADCAST (Identity_from_seed demo_crypto 3 demo_psk))
          demo_meta (ns_rx (demo_boot 1)) (ns_shared (demo_boot 1))
        = (rx', s', [Task_Tactical (Msg_Chat \<lparr>chat_from = 3, chat_text = ''go''\<rparr>) 3])"
proof -
  let ?msg = "Msg_Chat \<lparr>chat_from = 3, chat_text = ''go''\<rparr>"
  obtain p where p: "ser_app demo_env ?msg = Inr p" by (simp add: demo_ser_app_def)
  have "codec_ok (ser_app demo_env) (de_app demo_env)" and "env_crypto demo_env = demo_crypto"
    and "io_now (demo_io 1000) = 1000"
    using demo_codec_app by (simp_all add: demo_io_def)
  with member_signs_as_any_node [OF demo_boot_main [of 1] demo_load_psk _ reach_start demo_crypto_ok _ p,
      where victim = 3 and random = "[1, 2, 3, 4, 5]" and io = "demo_io 1000" and prio = Critical and meta = demo_meta]
  show ?thesis using p by (simp add: NonceCache_new_def)
qed

end
