(* ===== verification/ImageBlocks.thy ===== *)
theory ImageBlocks
  imports ImageCache
begin

text \<open>
  The cache of \<^verbatim>\<open>tacticalmesh-app/src/image_cache.rs\<close> on blocks cut into several shards, the
  case the \<open>k\<close> and \<open>n\<close> of a shard are for, and on any mixture of shards whatever: its content as
  a function of the sequence of all shards inserted so far. A block is complete as soon as \<open>k\<close>
  shards of different indices are there, it holds the data of these \<open>k\<close> in the order of the
  indices, and no later shard changes it.
\<close>

text \<open>The first shard of every index, in the order of arrival.\<close>

definition add_first :: "(u8 \<times> bytes) list \<Rightarrow> ImageShard \<Rightarrow> (u8 \<times> bytes) list" where
  "add_first bucket sh =
     (if is_index sh \<in> fst ` set bucket then bucket else bucket @ [(is_index sh, is_data sh)])"

definition first_shards :: "ImageShard list \<Rightarrow> (u8 \<times> bytes) list" where
  "first_shards = foldl add_first []"

definition block_of :: "nat \<Rightarrow> ImageShard list \<Rightarrow> bytes option" where
  "block_of k shs =
     (if length (first_shards shs) < k then None
      else Some (concat (map snd (sort_key fst (take k (first_shards shs))))))"

lemma insert_all_snoc: "insert_all c (shs @ [sh]) = snd (insert_shard (insert_all c shs) sh)"
  by (simp add: insert_all_def)

lemma first_shards_snoc: "first_shards (shs @ [sh]) = add_first (first_shards shs) sh"
  by (simp add: first_shards_def)

lemma first_shards_Nil [simp]: "first_shards [] = []"
  by (simp add: first_shards_def)

lemma first_shards_nonempty: "shs \<noteq> [] \<Longrightarrow> first_shards shs \<noteq> []"
  by (induction shs rule: rev_induct) (auto simp: first_shards_snoc add_first_def)

lemma first_shards_distinct: "distinct (map fst (first_shards shs))"
  by (induction shs rule: rev_induct) (auto simp: first_shards_snoc add_first_def)

lemma put_bucket:
  "(if list_ex (\<lambda>(idx, _). idx = is_index sh) bucket then bucket
    else bucket @ [(is_index sh, is_data sh)]) = add_first bucket sh"
  by (auto simp: add_first_def list_ex_iff image_iff) (metis fst_conv)

lemma block_of_snoc:
  "block_of k (shs @ [sh]) =
     (case block_of k shs of
        Some d \<Rightarrow> Some d
      | None \<Rightarrow> if length (add_first (first_shards shs) sh) < k then None
                else Some (concat (map snd (sort_key fst (add_first (first_shards shs) sh)))))"
  by (auto simp: block_of_def first_shards_snoc add_first_def not_less)

section \<open>The cache as a function of the shards inserted\<close>

text \<open>
  The shards of one block; the \<open>k\<close> of the block is the one its first shard announces (a \<open>k\<close> of
  zero counts as one). The number of blocks of an image is the first one above one that any of its
  shards announces.
\<close>

definition in_block :: "u16 \<Rightarrow> u8 \<Rightarrow> ImageShard \<Rightarrow> bool" where
  "in_block t b sh \<longleftrightarrow> is_target_id sh = t \<and> is_block_id sh = b"

definition block_data :: "u16 \<Rightarrow> u8 \<Rightarrow> ImageShard list \<Rightarrow> bytes option" where
  "block_data t b shs =
     (case find (in_block t b) shs of
        None \<Rightarrow> None
      | Some sh \<Rightarrow> block_of (max 1 (unat (is_k sh))) (filter (in_block t b) shs))"

definition announces :: "u16 \<Rightarrow> ImageShard \<Rightarrow> bool" where
  "announces t sh \<longleftrightarrow> is_target_id sh = t \<and> 1 < is_total_blocks sh"

text \<open>
  The image of a target when the shards \<open>shs\<close> have arrived, the last of them \<open>sh\<close> of this target: the
  block of \<open>sh\<close> while no number of blocks is announced, all the announced blocks otherwise. The image
  the cache keeps is the first that comes about in this way.
\<close>

definition image_at :: "u16 \<Rightarrow> ImageShard \<Rightarrow> ImageShard list \<Rightarrow> bytes option" where
  "image_at t sh shs =
     (case find (announces t) shs of
        None \<Rightarrow> block_data t (is_block_id sh) shs
      | Some s \<Rightarrow>
          (let blocks = map (\<lambda>i. block_data t (of_nat i) shs) [0..<unat (is_total_blocks s)] in
           if None \<in> set blocks then None else Some (concat (map the blocks))))"

fun image_data :: "u16 \<Rightarrow> ImageShard list \<Rightarrow> ImageShard list \<Rightarrow> bytes option" where
  "image_data t before [] = None"
| "image_data t before (sh # later) =
     (case if is_target_id sh = t then image_at t sh (before @ [sh]) else None of
        Some d \<Rightarrow> Some d
      | None \<Rightarrow> image_data t (before @ [sh]) later)"

lemma image_data_snoc:
  "image_data t before (shs @ [sh]) =
     (case image_data t before shs of
        Some d \<Rightarrow> Some d
      | None \<Rightarrow> if is_target_id sh = t then image_at t sh (before @ shs @ [sh]) else None)"
  by (induction shs arbitrary: before) (auto split: option.splits)

definition holds :: "ImageCache \<Rightarrow> ImageShard list \<Rightarrow> bool" where
  "holds c shs \<longleftrightarrow>
     (\<forall>t b. shards c (t, b) = (if filter (in_block t b) shs = [] then None
                               else Some (first_shards (filter (in_block t b) shs)))
          \<and> block_k c (t, b) = map_option is_k (find (in_block t b) shs)
          \<and> assembled_blocks c (t, b) = block_data t b shs)
   \<and> (\<forall>t. total_blocks_expected c t = map_option is_total_blocks (find (announces t) shs)
          \<and> complete c t = image_data t [] shs)"

lemma holds_new: "holds ImageCache_new []"
  by (simp add: holds_def ImageCache_new_def block_data_def)

text \<open>The three steps of an insertion.\<close>

lemma holds_put:
  assumes "holds c shs"
  shows "shards (put_shard c sh) (t, b) = (if filter (in_block t b) (shs @ [sh]) = [] then None
           else Some (first_shards (filter (in_block t b) (shs @ [sh]))))"
    and "block_k (put_shard c sh) (t, b) = map_option is_k (find (in_block t b) (shs @ [sh]))"
    and "assembled_blocks (put_shard c sh) (t, b) = block_data t b shs"
    and "total_blocks_expected (put_shard c sh) t = map_option is_total_blocks (find (announces t) (shs @ [sh]))"
    and "complete (put_shard c sh) t = image_data t [] shs"
proof -
  have h: "shards c (t, b) = (if filter (in_block t b) shs = [] then None
      else Some (first_shards (filter (in_block t b) shs)))"
    "block_k c (t, b) = map_option is_k (find (in_block t b) shs)"
    "assembled_blocks c (t, b) = block_data t b shs"
    "total_blocks_expected c t = map_option is_total_blocks (find (announces t) shs)"
    "complete c t = image_data t [] shs" for t b
    using assms by (simp_all add: holds_def)
  show "shards (put_shard c sh) (t, b) = (if filter (in_block t b) (shs @ [sh]) = [] then None
      else Some (first_shards (filter (in_block t b) (shs @ [sh]))))"
    by (auto simp: put_shard_fields Let_def put_bucket h first_shards_snoc in_block_def add_first_def)
  show "block_k (put_shard c sh) (t, b) = map_option is_k (find (in_block t b) (shs @ [sh]))"
    by (auto simp: put_shard_fields or_insert_apply h find_snoc in_block_def split: option.splits)
  show "assembled_blocks (put_shard c sh) (t, b) = block_data t b shs"
    by (simp add: put_shard_fields h)
  show "total_blocks_expected (put_shard c sh) t = map_option is_total_blocks (find (announces t) (shs @ [sh]))"
    by (auto simp: put_shard_def Let_def or_insert_apply h find_snoc announces_def split: option.splits)
  show "complete (put_shard c sh) t = image_data t [] shs"
    by (simp add: put_shard_def Let_def h)
qed

lemma block_data_other: "\<not> in_block t b sh \<Longrightarrow> block_data t b (shs @ [sh]) = block_data t b shs"
  by (auto simp: block_data_def find_snoc split: option.splits)

lemma block_data_this:
  fixes shs :: "ImageShard list"
  assumes "in_block t b sh"
  defines "mine \<equiv> filter (in_block t b) (shs @ [sh])"
  shows "block_data t b (shs @ [sh]) =
    (case block_data t b shs of
       Some d \<Rightarrow> Some d
     | None \<Rightarrow> if unat (is_k (the (find (in_block t b) (shs @ [sh])))) \<le> length (first_shards mine)
               then Some (concat (map snd (sort_key fst (first_shards mine)))) else None)"
proof -
  let ?old = "filter (in_block t b) shs"
  have mine: "mine = ?old @ [sh]" using assms(1) by (simp add: mine_def)
  then have "0 < length (first_shards mine)" using first_shards_nonempty [of mine] by simp
  then have max: "length (first_shards mine) < max 1 k \<longleftrightarrow> \<not> k \<le> length (first_shards mine)" for k
    by linarith
  have one: "block_of (max 1 k) mine = (case block_of (max 1 k) ?old of
       Some d \<Rightarrow> Some d
     | None \<Rightarrow> if k \<le> length (first_shards mine)
               then Some (concat (map snd (sort_key fst (first_shards mine)))) else None)" for k
    unfolding mine block_of_snoc using max [of k] unfolding mine first_shards_snoc
    by (simp split: option.splits)
  show ?thesis
  proof (cases "find (in_block t b) shs")
    case None
    then have "?old = []" by (simp add: find_filter_Nil)
    then have "block_of (max 1 k) ?old = None" for k by (simp add: block_of_def)
    then show ?thesis
      using None one [of "unat (is_k sh)"] assms(1) by (simp add: block_data_def find_snoc mine)
  next
    case (Some s)
    then show ?thesis
      using one [of "unat (is_k s)"] assms(1) by (simp add: block_data_def find_snoc mine)
  qed
qed

lemma holds_assemble:
  fixes sh :: ImageShard
  assumes "holds c shs"
  defines "c2 \<equiv> assemble_block (put_shard c sh) sh"
  shows "assembled_blocks c2 (t, b) = block_data t b (shs @ [sh])"
    and "shards c2 = shards (put_shard c sh)" and "block_k c2 = block_k (put_shard c sh)"
    and "total_blocks_expected c2 = total_blocks_expected (put_shard c sh)"
    and "complete c2 = complete (put_shard c sh)"
proof -
  note P = holds_put [OF assms(1)]
  show "assembled_blocks c2 (t, b) = block_data t b (shs @ [sh])"
  proof (cases "in_block t b sh")
    case True
    then have key: "is_target_id sh = t" "is_block_id sh = b" by (simp_all add: in_block_def)
    have "find (in_block t b) (shs @ [sh]) \<noteq> None" using True by (auto simp: find_snoc split: option.splits)
    then obtain s where s: "find (in_block t b) (shs @ [sh]) = Some s" by blast
    show ?thesis
      unfolding c2_def assemble_block_def Let_def key P block_data_this [OF True] s
      using True by (simp add: P split: option.splits)
  next
    case False
    then have "(is_target_id sh, is_block_id sh) \<noteq> (t, b)" by (auto simp: in_block_def)
    then show ?thesis
      using P(3) by (auto simp: c2_def assemble_block_def Let_def block_data_other [OF False])
  qed
  show "shards c2 = shards (put_shard c sh)" "block_k c2 = block_k (put_shard c sh)"
    "total_blocks_expected c2 = total_blocks_expected (put_shard c sh)"
    "complete c2 = complete (put_shard c sh)"
    by (simp_all add: c2_def assemble_block_def Let_def)
qed

lemma holds_blocks:
  assumes "\<And>b. assembled_blocks c (t, b) = block_data t b shs"
  shows "(if all_blocks c t e then Some (join_blocks c t e) else None) =
    (let blocks = map (\<lambda>i. block_data t (of_nat i) shs) [0..<unat e] in
     if None \<in> set blocks then None else Some (concat (map the blocks)))"
proof -
  have "all_blocks c t e \<longleftrightarrow> None \<notin> set (map (\<lambda>i. block_data t (of_nat i) shs) [0..<unat e])"
    by (auto simp: all_blocks_def list_all_iff assms image_iff Ball_def) (metis option.exhaust)
  moreover have "join_blocks c t e = concat (map (\<lambda>i. the (block_data t (of_nat i) shs)) [0..<unat e])"
    if "all_blocks c t e"
    using that unfolding join_blocks_def all_blocks_def list_all_iff assms
    by (intro arg_cong [where f = concat] map_cong) (fastforce simp: unwrap_or_def split: option.splits)+
  ultimately show ?thesis by (simp add: Let_def o_def)
qed

lemma holds_insert:
  assumes "holds c shs"
  shows "holds (snd (insert_shard c sh)) (shs @ [sh])"
proof -
  define c2 where "c2 = assemble_block (put_shard c sh) sh"
  note P = holds_put [OF assms, of sh] and A = holds_assemble [OF assms, of sh, folded c2_def]
  have c3: "snd (insert_shard c sh) = snd (try_complete c2 sh)" by (simp add: insert_shard_def c2_def)
  let ?t = "is_target_id sh"
  have big: "1 < is_total_blocks s" if "find (announces ?t) (shs @ [sh]) = Some s" for s
    using that by (auto simp: find_Some_iff announces_def)
  have compl: "complete (snd (try_complete c2 sh)) t = image_data t [] (shs @ [sh])" for t
  proof (cases "t = ?t")
    case False
    then show ?thesis
      using try_complete_other(5) [of sh t c2] A(5) P(5) [of t] by (auto simp: image_data_snoc split: option.splits)
  next
    case True
    have old: "complete c2 ?t = image_data ?t [] shs" by (simp add: A P)
    have total: "total_blocks_expected c2 ?t = map_option is_total_blocks (find (announces ?t) (shs @ [sh]))"
      by (simp add: A P)
    show ?thesis
    proof (cases "image_data ?t [] shs")
      case (Some d)
      then show ?thesis using old True by (simp add: try_complete_def Let_def image_data_snoc)
    next
      case None
      show ?thesis
      proof (cases "find (announces ?t) (shs @ [sh])")
        case None
        then show ?thesis
          using \<open>image_data ?t [] shs = None\<close> old total True A(1)
          by (auto simp: try_complete_def Let_def image_data_snoc image_at_def split: option.splits)
      next
        case (Some s)
        have "\<not> is_total_blocks s \<le> 1" using big [OF Some] by simp
        then show ?thesis
          using \<open>image_data ?t [] shs = None\<close> old total True Some
            holds_blocks [of c2 ?t "shs @ [sh]" "is_total_blocks s", OF A(1)]
          by (auto simp: try_complete_def Let_def image_data_snoc image_at_def split: if_splits)
      qed
    qed
  qed
  have same: "shards (snd (try_complete c2 sh)) = shards c2" "block_k (snd (try_complete c2 sh)) = block_k c2"
    "assembled_blocks (snd (try_complete c2 sh)) = assembled_blocks c2"
    "total_blocks_expected (snd (try_complete c2 sh)) = total_blocks_expected c2"
    by (auto simp: try_complete_def Let_def split: option.splits)
  show ?thesis
    unfolding holds_def c3 same compl A P by simp
qed

lemma insert_all_holds: "holds (insert_all ImageCache_new shs) shs"
  by (induction shs rule: rev_induct) (simp_all add: holds_new insert_all_snoc holds_insert)

text \<open>An image of a single block is that block.\<close>

lemma insert_all_complete:
  assumes "0 < k"
    and "\<forall>sh \<in> set shs. is_target_id sh = t \<and> is_block_id sh = b \<and> is_k sh = k \<and> is_total_blocks sh \<le> 1"
  shows "get_complete (insert_all ImageCache_new shs) t = block_of (unat k) shs"
proof -
  have max: "max 1 (unat k) = unat k" using assms(1) by (simp add: unat_gt_0 max_def Suc_le_eq)
  have block: "block_data t b (shs @ [sh]) = block_of (unat k) (shs @ [sh])"
    if "\<forall>x \<in> set (shs @ [sh]). is_target_id x = t \<and> is_block_id x = b \<and> is_k x = k" for shs sh
  proof -
    have all: "\<forall>x \<in> set (shs @ [sh]). in_block t b x" using that by (simp add: in_block_def)
    then have "find (in_block t b) (shs @ [sh]) \<noteq> None" by (simp add: find_filter_Nil)
    then obtain s where s: "find (in_block t b) (shs @ [sh]) = Some s" by blast
    then have "s \<in> set (shs @ [sh])" unfolding find_Some_iff by (metis nth_mem)
    then have "is_k s = k" using that by blast
    then show ?thesis using s all max by (simp add: block_data_def filter_id_conv)
  qed
  have "image_data t [] shs = block_of (unat k) shs"
    using assms(2)
  proof (induction shs rule: rev_induct)
    case Nil
    show ?case using assms(1) by (simp add: block_of_def unat_gt_0)
  next
    case (snoc sh shs)
    have "find (announces t) (shs @ [sh]) = None"
      using snoc.prems by (auto simp: find_None_iff announces_def not_less)
    moreover have "block_data t b (shs @ [sh]) = block_of (unat k) (shs @ [sh])"
      using snoc.prems by (intro block) simp
    ultimately show ?case
      using snoc by (simp add: image_data_snoc image_at_def block_of_snoc split: option.splits)
  qed
  then show ?thesis using insert_all_holds [of shs] by (simp add: get_complete_def holds_def)
qed

text \<open>
  (C26) Whatever shards arrive, of any targets, blocks and sizes, in any order and repetition, the
  cache is this function of them. A block is decided by the first shards of \<open>k\<close> different indices
  that arrive for it, where \<open>k\<close> is what its first shard announces: it is absent while fewer indices
  are there, and from the \<open>k\<close>-th on it is the data of these \<open>k\<close> shards by increasing index, for
  ever (so the parity shards of an erasure code would be taken for data). The image of a target is
  the first that comes about with a shard of the target: the block of that shard as long as no shard
  of the target has announced more than one block, and afterwards the announced blocks, by
  increasing number, once all of them are there; what arrives later does not change it.
\<close>

theorem first_k_shards_fill_block:
  "assembled_blocks (insert_all ImageCache_new shs) (t, b) =
     (case filter (in_block t b) shs of
        [] \<Rightarrow> None
      | sh # later \<Rightarrow>
          (let k = max 1 (unat (is_k sh)); first = first_shards (sh # later) in
           if length first < k then None else Some (concat (map snd (sort_key fst (take k first))))))
   \<and> get_complete (insert_all ImageCache_new shs) t = image_data t [] shs"
proof -
  have "block_data t b shs = (case filter (in_block t b) shs of [] \<Rightarrow> None
      | sh # later \<Rightarrow> block_of (max 1 (unat (is_k sh))) (sh # later))"
    by (simp add: block_data_def find_filter split: list.splits)
  then show ?thesis
    using insert_all_holds [of shs] by (simp add: holds_def get_complete_def block_of_def Let_def split: list.splits)
qed

text \<open>
  A block of three shards among shards of another target and of another block, with a repetition and
  a surplus shard; and an image of two blocks whose second is complete before the first.
\<close>

theorem first_k_shards_fill_block_witness:
  "let shard = (\<lambda>t total b i k. \<lparr>is_target_id = t, is_total_blocks = total, is_block_id = b, is_index = i,
       is_k = k, is_n = 12, is_data = [b, i]\<rparr>);
     c = insert_all ImageCache_new
       [shard 40 2 0 3 3, shard 41 0 0 0 1, shard 40 2 1 0 1, shard 40 2 0 3 3, shard 40 2 0 0 3,
        shard 40 2 0 2 3, shard 40 2 0 1 3]
   in assembled_blocks c (40, 0) = Some [0, 0, 0, 2, 0, 3]
     \<and> get_complete c 40 = Some [0, 0, 0, 2, 0, 3, 1, 0]"
proof -
  let ?sh = "\<lambda>t total b i k. \<lparr>is_target_id = t, is_total_blocks = total, is_block_id = b, is_index = i,
       is_k = k, is_n = 12, is_data = [b, i]\<rparr>"
  let ?shs = "[?sh 40 2 0 3 3, ?sh 41 0 0 0 1, ?sh 40 2 1 0 1, ?sh 40 2 0 3 3, ?sh 40 2 0 0 3,
        ?sh 40 2 0 2 3, ?sh 40 2 0 1 3]"
  have "image_data 40 [] ?shs = Some [0, 0, 0, 2, 0, 3, 1, 0]"
    by code_simp
  then show ?thesis
    using first_k_shards_fill_block [of ?shs 40 0]
    by (simp add: in_block_def first_shards_def add_first_def Let_def)
qed

end
