(* ===== verification/Conformance.thy ===== *)
theory Conformance
  imports ImageBlocks TargetBoard Scheduler OlsrScenarios
begin

text \<open>
  The repository's own unit tests, translated like the code they test: a test is the truth of its
  assertions, and a panic makes it fail. That they hold checks the definitions of the development
  against what the authors expect of the code. Tests of code over a parameter take the parameter
  as an argument; those of the codecs and of the external crates are in \<open>ConformanceCodecs\<close>, those of
  the routes in \<open>ConformanceRoutes\<close>. Not repeated are the tests that depend on more of a crate than
  its documentation promises: that stream numbers differ for different keys, that a picture gets
  smaller or keeps its pixels, and that garbage is no picture.
\<close>

section \<open>Target board, \<^verbatim>\<open>tacticalmesh-app/src/crdt.rs\<close>\<close>

definition make_target :: "u16 \<Rightarrow> TargetState \<Rightarrow> u64 \<Rightarrow> Target" where
  "make_target i st t =
     \<lparr>t_id = i, t_kind = Vehicle, t_state = st, t_lat = 0, t_lon = 0, updated_at_ms = t,
      assigned_to = None\<rparr>"

definition merge_target :: "TargetBoard \<Rightarrow> Target \<Rightarrow> TargetBoard" where
  "merge_target b t = merge b \<lparr>upd_target = t\<rparr>"

definition two_detected_same_id_last_timestamp_wins :: bool where
  "two_detected_same_id_last_timestamp_wins =
     (let board = TargetBoard_new;
          board = merge_target board (make_target 1 Detected 100);
          board = merge_target board (make_target 1 Detected 200)
      in case board_get board 1 of
           None \<Rightarrow> False
         | Some t \<Rightarrow> t_state t = Detected \<and> updated_at_ms t = 200)"

definition destroyed_beats_late_engaged :: bool where
  "destroyed_beats_late_engaged =
     (let board = TargetBoard_new;
          board = merge_target board (make_target 2 Destroyed 500);
          board = merge_target board (make_target 2 Engaged 600)
      in case board_get board 2 of None \<Rightarrow> False | Some t \<Rightarrow> t_state t = Destroyed)"

definition aborted_beats_late_assigned :: bool where
  "aborted_beats_late_assigned =
     (let board = TargetBoard_new;
          board = merge_target board (make_target 3 Aborted 300);
          board = merge_target board (make_target 3 Assigned 400)
      in case board_get board 3 of None \<Rightarrow> False | Some t \<Rightarrow> t_state t = Aborted)"

definition comms_blackout_scenario :: bool where
  "comms_blackout_scenario =
     (let board = TargetBoard_new;
          board = merge_target board (make_target 4 Detected 100);
          board = merge_target board (make_target 4 Destroyed 800)
      in case board_get board 4 of None \<Rightarrow> False | Some t \<Rightarrow> t_state t = Destroyed)"

text \<open>The number of targets is that of a traversal of the map.\<close>

definition merge_is_idempotent :: "u16 list \<Rightarrow> bool" where
  "merge_is_idempotent ord =
     (let board = TargetBoard_new;
          update = make_target 5 Engaged 500;
          board = merge_target board update;
          board = merge_target board update;
          board = merge_target board update
      in case board_get board 5 of
           None \<Rightarrow> False
         | Some t \<Rightarrow> t_state t = Engaged \<and> updated_at_ms t = 500 \<and> length (board_list ord board) = 1)"

lemmas board_test_defs = make_target_def merge_target_def merge_def board_get_def TargetBoard_new_def
  less_TargetState_def Let_def

lemma board_tests:
  "two_detected_same_id_last_timestamp_wins" "destroyed_beats_late_engaged"
  "aborted_beats_late_assigned" "comms_blackout_scenario"
  by (simp_all add: two_detected_same_id_last_timestamp_wins_def destroyed_beats_late_engaged_def
      aborted_beats_late_assigned_def comms_blackout_scenario_def board_test_defs)

lemma merge_is_idempotent_holds:
  "distinct ord \<Longrightarrow> set ord = UNIV \<Longrightarrow> merge_is_idempotent ord"
  by (simp add: merge_is_idempotent_def board_list_def entries_single board_test_defs)

section \<open>Image cache, \<^verbatim>\<open>tacticalmesh-app/src/image_cache.rs\<close>\<close>

definition make_shard :: "u16 \<Rightarrow> u8 \<Rightarrow> u8 \<Rightarrow> u8 \<Rightarrow> u8 \<Rightarrow> ImageShard" where
  "make_shard t block_id index k n =
     \<lparr>is_target_id = t, is_total_blocks = 0, is_block_id = block_id, is_index = index, is_k = k, is_n = n,
      is_data = replicate 16 index\<rparr>"

definition eight_shards_completes_image :: bool where
  "eight_shards_completes_image =
     (let cache = insert_all ImageCache_new (map (\<lambda>i. make_shard 10 0 i 8 12) [0, 1, 2, 3, 4, 5, 6, 7])
      in case get_complete cache 10 of None \<Rightarrow> False | Some d \<Rightarrow> length d = 8 * 16)"

definition seven_shards_does_not_complete_image :: bool where
  "seven_shards_does_not_complete_image =
     (let cache = insert_all ImageCache_new (map (\<lambda>i. make_shard 20 0 i 8 12) [0, 1, 2, 3, 4, 5, 6])
      in get_complete cache 20 = None)"

definition has_shard_reflects_insertion :: bool where
  "has_shard_reflects_insertion =
     (let cache = ImageCache_new; before = has_shard cache 30 0;
          cache = snd (insert_shard cache (make_shard 30 0 0 8 12))
      in \<not> before \<and> has_shard cache 30 0 \<and> \<not> has_shard cache 30 1)"

definition shards_concatenated_in_index_order :: bool where
  "shards_concatenated_in_index_order =
     (let cache = insert_all ImageCache_new (map (\<lambda>i. make_shard 40 0 i 8 12) [3, 0, 2, 1, 5, 4, 7, 6])
      in case get_complete cache 40 of
           None \<Rightarrow> False
         | Some result \<Rightarrow>
             list_all (\<lambda>i. slice (unat i * 16) 16 result = replicate 16 i) [0 :: u8, 1, 2, 3, 4, 5, 6, 7])"

definition duplicate_shard_indices_not_double_counted :: bool where
  "duplicate_shard_indices_not_double_counted =
     (let cache = insert_all ImageCache_new [make_shard 50 0 0 8 12, make_shard 50 0 0 8 12]
      in get_complete cache 50 = None)"

text \<open>The three blocks of one shard each are those of an image cut into three chunks.\<close>

definition multi_block_requires_all_blocks :: bool where
  "multi_block_requires_all_blocks =
     (let cache = insert_all ImageCache_new
            (map (\<lambda>bid. (make_shard 60 bid 0 1 1)\<lparr>is_total_blocks := 3, is_data := replicate 8 bid\<rparr>) [0, 1, 2])
      in case get_complete cache 60 of
           None \<Rightarrow> False
         | Some result \<Rightarrow> length result = 3 * 8 \<and> slice 0 8 result = replicate 8 0
             \<and> slice 8 8 result = replicate 8 1 \<and> slice 16 8 result = replicate 8 2)"

definition multi_block_incomplete_without_all_blocks :: bool where
  "multi_block_incomplete_without_all_blocks =
     (let cache = insert_all ImageCache_new
            (map (\<lambda>bid. (make_shard 70 bid 0 1 1)\<lparr>is_total_blocks := 3\<rparr>) [0, 1])
      in get_complete cache 70 = None)"

lemma make_shard_simps [simp]:
  "is_index (make_shard t b i k n) = i" "is_data (make_shard t b i k n) = replicate 16 i"
  by (simp_all add: make_shard_def)

lemma make_shard_complete:
  "0 < k \<Longrightarrow> get_complete (insert_all ImageCache_new (map (\<lambda>i. make_shard t b i k n) is)) t =
     block_of (unat k) (map (\<lambda>i. make_shard t b i k n) is)"
  by (rule insert_all_complete [where b = b]) (simp_all add: make_shard_def)

lemmas fill_defs = block_of_def first_shards_def add_first_def slice_def

lemma eight_shards_completes_image_ok: "eight_shards_completes_image"
  using make_shard_complete [of 8 10 0 12 "[0, 1, 2, 3, 4, 5, 6, 7]"]
  by (simp add: eight_shards_completes_image_def fill_defs)

lemma seven_shards_does_not_complete_image_ok: "seven_shards_does_not_complete_image"
  using make_shard_complete [of 8 20 0 12 "[0, 1, 2, 3, 4, 5, 6]"]
  by (simp add: seven_shards_does_not_complete_image_def fill_defs)

lemma shards_concatenated_in_index_order_ok: "shards_concatenated_in_index_order"
  using make_shard_complete [of 8 40 0 12 "[3, 0, 2, 1, 5, 4, 7, 6]"]
  by (simp add: shards_concatenated_in_index_order_def fill_defs word_le_nat_alt)

lemma duplicate_shard_indices_not_double_counted_ok: "duplicate_shard_indices_not_double_counted"
  using make_shard_complete [of 8 50 0 12 "[0, 0]"]
  by (simp add: duplicate_shard_indices_not_double_counted_def fill_defs)

lemma has_shard_reflects_insertion_ok: "has_shard_reflects_insertion"
  by (simp add: has_shard_reflects_insertion_def has_shard_def ImageCache_new_def make_shard_def insert_defs
      or_insert_apply)

lemma fresh_cache:
  "shards ImageCache_new key = None" "block_k ImageCache_new key = None"
  "assembled_blocks ImageCache_new key = None" "total_blocks_expected ImageCache_new t = None"
  "complete ImageCache_new t = None"
  by (simp_all add: ImageCache_new_def)

lemma multi_block_requires_all_blocks_ok: "multi_block_requires_all_blocks"
  using image_complete_iff [of ImageCache_new 60 "[replicate 8 0, replicate 8 1, replicate 8 2]"
      "map (\<lambda>bid. (make_shard 60 bid 0 1 1)\<lparr>is_total_blocks := 3, is_data := replicate 8 bid\<rparr>) [0, 1, 2]"]
  by (simp add: multi_block_requires_all_blocks_def fresh_cache slice_def image_shard_def make_shard_def
      All_less_Suc Ex_less_Suc numeral_3_eq_3)

lemma multi_block_incomplete_without_all_blocks_ok: "multi_block_incomplete_without_all_blocks"
  using image_complete_iff [of ImageCache_new 70 "[replicate 16 0, replicate 16 0, replicate 16 0]"
      "map (\<lambda>bid. (make_shard 70 bid 0 1 1)\<lparr>is_total_blocks := 3\<rparr>) [0, 1]"]
  by (simp add: multi_block_incomplete_without_all_blocks_def fresh_cache image_shard_def make_shard_def
      All_less_Suc Ex_less_Suc numeral_3_eq_3)

section \<open>The wire crate\<close>

text \<open>\<^verbatim>\<open>msg_kind.rs\<close>, \<^verbatim>\<open>headers.rs\<close> and, of the link crate, the codec of priorities.\<close>

definition from_u8_round_trip :: bool where
  "from_u8_round_trip \<longleftrightarrow>
     list_all (\<lambda>v. case MsgKind_from_u8 v of None \<Rightarrow> False | Some k \<Rightarrow> MsgKind_as_u8 k = v) [0, 1, 2, 3, 4]
   \<and> MsgKind_from_u8 5 = None"

definition priority_from_u8_round_trip :: bool where
  "priority_from_u8_round_trip \<longleftrightarrow>
     list_all (\<lambda>v. case Priority_from_u8 v of None \<Rightarrow> False | Some p \<Rightarrow> Priority_as_u8 p = v) [0, 1, 2, 3]
   \<and> Priority_from_u8 4 = None"

definition sample_auth :: AuthHeader where
  "sample_auth =
     \<lparr>src_node = 1, dst_node = 2, msg_kind = Data, priority = Emergency, timestamp_ms = 1000000,
      nonce = replicate 12 0xAB, payload_hash = replicate 12 0xCD, auth_epoch = 7, payload_len = 128,
      fec_index = 0, fec_k = 1, fec_n = 4, fec_block_id = 0\<rparr>"

definition auth_header_round_trip :: bool where
  "auth_header_round_trip =
     (let h = sample_auth; bs = AuthHeader_to_bytes h in
      length bs = AUTH_HEADER_LEN \<and> AuthHeader_from_bytes bs = Inr h)"

definition routed_header_round_trip :: bool where
  "routed_header_round_trip =
     (let r = \<lparr>last_hop_id = 5, hops_taken = 2, flags = 1, reserved = 0\<rparr>;
          bs = RoutedHeader_to_bytes r
      in length bs = ROUTED_HEADER_LEN \<and> RoutedHeader_from_bytes bs = Inr r)"

lemma header_tests:
  "from_u8_round_trip" "priority_from_u8_round_trip" "auth_header_round_trip" "routed_header_round_trip"
proof -
  show from_u8_round_trip
    by (simp add: from_u8_round_trip_def MsgKind_from_u8_def)
  show priority_from_u8_round_trip
    by (simp add: priority_from_u8_round_trip_def Priority_from_u8_def)
  have "AuthHeader_wf sample_auth" by (simp add: AuthHeader_wf_def sample_auth_def)
  then show auth_header_round_trip
    by (simp add: auth_header_round_trip_def Let_def length_AuthHeader_to_bytes
        AuthHeader_from_to_bytes [of _ "[]", simplified])
  show routed_header_round_trip
    by (simp add: routed_header_round_trip_def RoutedHeader_to_bytes_def RoutedHeader_from_bytes_def
        header_len_defs)
qed

text \<open>\<^verbatim>\<open>nonce_cache.rs\<close>.\<close>

definition rejects_replay :: bool where
  "rejects_replay =
     (let nonce = replicate 12 0;
          (r1, cache) = check_and_insert NonceCache_new 1 1000 nonce 1000
      in r1 = Inr () \<and> fst (check_and_insert cache 1 1000 nonce 1000) = Inl ReplayedNonce)"

definition rejects_stale_timestamp :: bool where
  "rejects_stale_timestamp =
     (let now = 100000; old = now - TIME_WINDOW_MS - 1
      in fst (check_and_insert NonceCache_new 1 old (replicate 12 0) now) = Inl TimeWindowExpired)"

definition accepts_fresh_unique_nonce :: bool where
  "accepts_fresh_unique_nonce =
     (let nonce1 = replicate 12 0; nonce2 = nonce1[0 := 1]; now = 50000;
          (r1, cache) = check_and_insert NonceCache_new 1 now nonce1 now
      in r1 = Inr () \<and> fst (check_and_insert cache 1 now nonce2 now) = Inr ())"

definition evicts_old_entries :: bool where
  "evicts_old_entries =
     (let nonce = replicate 12 0;
          (r1, cache) = check_and_insert NonceCache_new 1 0 nonce 0;
          later = NONCE_CACHE_TTL_MS + 1
      in r1 = Inr () \<and> fst (check_and_insert cache 1 later nonce later) = Inr ())"

lemmas nonce_test_defs = check_and_insert_def NonceCache_new_def Let_def nonce_consts abs_diff_def
  saturating_sub_def retain_def

lemma replicate_12: "replicate 12 x = [x, x, x, x, x, x, x, x, x, x, x, x]"
  by (simp add: numeral_eq_Suc)

lemma nonce_tests:
  "rejects_replay" "rejects_stale_timestamp" "accepts_fresh_unique_nonce" "evicts_old_entries"
  by (simp_all add: rejects_replay_def rejects_stale_timestamp_def accepts_fresh_unique_nonce_def
      evicts_old_entries_def nonce_test_defs replicate_12)

text \<open>\<^verbatim>\<open>scheduler.rs\<close>: the pops until the queues are empty.\<close>

definition strict_priority_p0_before_p3 :: "LinkAdapter \<Rightarrow> bool" where
  "strict_priority_p0_before_p3 l =
     (let sched = enqueue (enqueue (enqueue (enqueue (TxScheduler_new l) [3] Bulk) [0] Emergency) [2] High) [1] Critical
      in case pop_next (queues sched) of Ret (Some (f0, _), q) \<Rightarrow>
         (case pop_next q of Ret (Some (f1, _), q) \<Rightarrow>
         (case pop_next q of Ret (Some (f2, _), q) \<Rightarrow>
         (case pop_next q of Ret (Some (f3, _), q) \<Rightarrow>
            (case pop_next q of Ret (None, _) \<Rightarrow> [f0, f1, f2, f3] = [[0], [1], [2], [3]] | _ \<Rightarrow> False)
         | _ \<Rightarrow> False) | _ \<Rightarrow> False) | _ \<Rightarrow> False) | _ \<Rightarrow> False)"

lemma strict_priority_p0_before_p3_ok: "strict_priority_p0_before_p3 l"
  by (simp add: strict_priority_p0_before_p3_def enqueue_def TxScheduler_new_def push_def Queues_new_def
      pop_next_def Let_def Priority_from_u8_def)

section \<open>The routing crate\<close>

text \<open>\<^verbatim>\<open>state.rs\<close>: link costs, the duplicate test and HELLO messages.\<close>

definition lq :: "u8 \<Rightarrow> i8 \<Rightarrow> u8 \<Rightarrow> LinkQuality" where
  "lq mcs rssi loss = \<lparr>lq_rssi_dbm = rssi, lq_loss_rate_x100 = loss, lq_mcs = mcs\<rparr>"

definition link_cost_mcs_base :: bool where
  "link_cost_mcs_base \<longleftrightarrow>
     link_cost (lq 0 (- 30) 0) = 100 \<and> link_cost (lq 1 (- 30) 0) = 90 \<and> link_cost (lq 2 (- 30) 0) = 80
   \<and> link_cost (lq 3 (- 30) 0) = 70 \<and> link_cost (lq 4 (- 30) 0) = 60 \<and> link_cost (lq 7 (- 30) 0) = 50"

definition link_cost_rssi_penalty :: bool where
  "link_cost_rssi_penalty \<longleftrightarrow> link_cost (lq 0 (- 50) 0) = 100 + 40 \<and> link_cost (lq 0 (- 20) 0) = 100"

definition link_cost_loss_penalty :: bool where
  "link_cost_loss_penalty \<longleftrightarrow> link_cost (lq 0 (- 30) 10) = 100 + 100"

definition link_cost_combined :: bool where
  "link_cost_combined \<longleftrightarrow> link_cost (lq 4 (- 50) 5) = 60 + 40 + 50"

lemma link_cost_tests:
  "link_cost_mcs_base" "link_cost_rssi_penalty" "link_cost_loss_penalty" "link_cost_combined"
  by (simp_all add: link_cost_mcs_base_def link_cost_rssi_penalty_def link_cost_loss_penalty_def
      link_cost_combined_def link_cost_def mcs_base_def lq_def Let_def)

definition test_tc :: "u8 \<Rightarrow> u16 \<Rightarrow> Tc" where
  "test_tc n sq = \<lparr>tc_sender = n, tc_seq = sq, advertised_neighbors = [], tc_sent_at_ms = 0\<rparr>"

definition tc_dedup_blocks_old_seq :: "iter_order \<Rightarrow> bool" where
  "tc_dedup_blocks_old_seq ord =
     (let (r1, s) = process_tc ord (test_tc 2 5) 0 (OlsrState_new 1);
          (r2, s) = process_tc ord (test_tc 2 5) 0 s;
          (r3, s) = process_tc ord (test_tc 2 3) 0 s;
          (r4, s) = process_tc ord (test_tc 2 6) 0 s
      in r1 \<and> \<not> r2 \<and> \<not> r3 \<and> r4)"

definition tc_dedup_handles_wraparound :: "iter_order \<Rightarrow> bool" where
  "tc_dedup_handles_wraparound ord =
     (let (r1, s) = process_tc ord (test_tc 2 65500) 0 (OlsrState_new 1);
          (r2, s) = process_tc ord (test_tc 2 3) 0 s
      in r1 \<and> r2)"

definition process_hello_updates_neighbors :: "iter_order \<Rightarrow> u64 \<Rightarrow> bool" where
  "process_hello_updates_neighbors ord now =
     (let hello = \<lparr>hello_sender = 2, hello_neighbors = [(1, lq 0 (- 40) 0)], hello_sent_at_ms = 1000\<rparr>;
          s = process_hello ord now hello 0 (- 45) (OlsrState_new 1)
      in case neighbors s 2 of
           None \<Rightarrow> False
         | Some entry \<Rightarrow> lq_rssi_dbm (link_quality entry) = - 45 \<and> lq_mcs (link_quality entry) = 0)"

lemma tc_dedup_tests: "tc_dedup_blocks_old_seq ord" "tc_dedup_handles_wraparound ord"
  by (simp_all add: tc_dedup_blocks_old_seq_def tc_dedup_handles_wraparound_def process_tc_def Let_def
      test_tc_def OlsrState_new_def tc_duplicate_def recompute_routes_def)

lemma process_hello_updates_neighbors_ok: "process_hello_updates_neighbors ord now"
  by (simp add: process_hello_updates_neighbors_def Let_def process_hello_neighbors OlsrState_new_def
      hello_mcs_def lq_def)

text \<open>\<^verbatim>\<open>forward.rs\<close>.\<close>

definition should_forward_tc_new_seq :: bool where
  "should_forward_tc_new_seq \<longleftrightarrow> should_forward_tc (OlsrState_new 1) (test_tc 2 5)"

definition should_forward_tc_same_seq_is_dup :: bool where
  "should_forward_tc_same_seq_is_dup \<longleftrightarrow>
     \<not> should_forward_tc ((OlsrState_new 1)\<lparr>last_tc_seq := [2 \<mapsto> 5]\<rparr>) (test_tc 2 5)"

definition should_forward_tc_local_sender_ignored :: bool where
  "should_forward_tc_local_sender_ignored \<longleftrightarrow> \<not> should_forward_tc (OlsrState_new 1) (test_tc 1 1)"

definition should_forward_tc_wraparound :: bool where
  "should_forward_tc_wraparound \<longleftrightarrow>
     should_forward_tc ((OlsrState_new 1)\<lparr>last_tc_seq := [2 \<mapsto> 65500]\<rparr>) (test_tc 2 10)"

lemma forward_tests:
  "should_forward_tc_new_seq" "should_forward_tc_same_seq_is_dup"
  "should_forward_tc_local_sender_ignored" "should_forward_tc_wraparound"
  by (simp_all add: should_forward_tc_new_seq_def should_forward_tc_same_seq_is_dup_def
      should_forward_tc_local_sender_ignored_def should_forward_tc_wraparound_def should_forward_tc_def
      test_tc_def OlsrState_new_def tc_duplicate_def)

section \<open>Frames, \<^verbatim>\<open>frame.rs\<close>\<close>

text \<open>
  The random keys, the random bytes of the nonce and the clocks of sender and receiver are
  arguments; the tests hold for clocks at most 30 s apart. \<open>b''hello mesh''\<close> is written \<open>ascii\<close>.
\<close>

definition make_env :: "crypto \<Rightarrow> bytes \<Rightarrow> bytes \<Rightarrow> Identity \<times> PubkeyStore \<times> NonceCache" where
  "make_env C sk key =
     (let i = Identity_generate C sk key 1
      in (i, PubkeyStore_insert PubkeyStore_new 1 (verifying_key i), NonceCache_new))"

definition build_and_parse_round_trip :: "crypto \<Rightarrow> bytes \<Rightarrow> bytes \<Rightarrow> bytes \<Rightarrow> u64 \<Rightarrow> u64 \<Rightarrow> bool" where
  "build_and_parse_round_trip C sk key random t now =
     (let (i, store, cache) = make_env C sk key;
          msg = \<lparr>kind = Data, payload = ascii ''hello mesh''\<rparr>;
          frame = build_frame C t random msg High BROADCAST i
      in case fst (parse_and_verify_frame C frame store cache now (id_session_key i)) of
           Inl _ \<Rightarrow> False
         | Inr parsed \<Rightarrow> plaintext parsed = payload msg \<and> src_node (auth parsed) = 1
             \<and> dst_node (auth parsed) = BROADCAST)"

definition replayed_frame_rejected :: "crypto \<Rightarrow> bytes \<Rightarrow> bytes \<Rightarrow> bytes \<Rightarrow> u64 \<Rightarrow> u64 \<Rightarrow> bool" where
  "replayed_frame_rejected C sk key random t now =
     (let (i, store, cache) = make_env C sk key;
          frame = build_frame C t random \<lparr>kind = Data, payload = ascii ''data''\<rparr> High BROADCAST i
      in case parse_and_verify_frame C frame store cache now (id_session_key i) of
           (Inl _, _) \<Rightarrow> False
         | (Inr _, cache) \<Rightarrow>
             fst (parse_and_verify_frame C frame store cache now (id_session_key i)) = Inl ReplayedNonce)"

definition route_frame_sets_last_hop :: "crypto \<Rightarrow> bytes \<Rightarrow> bytes \<Rightarrow> bytes \<Rightarrow> u64 \<Rightarrow> u64 \<Rightarrow> bool" where
  "route_frame_sets_last_hop C sk key random t now =
     (let (i, store, cache) = make_env C sk key;
          frame = build_frame_for_route C t random \<lparr>kind = OlsrHello, payload = [1, 2, 3]\<rparr> Critical 7 i 3
      in case fst (parse_and_verify_frame C frame store cache now (id_session_key i)) of
           Inl _ \<Rightarrow> False
         | Inr parsed \<Rightarrow> last_hop_id (routed parsed) = 3 \<and> dst_node (auth parsed) = 7)"

definition rebroadcast_frame_preserves_incremented_hops ::
  "crypto \<Rightarrow> bytes \<Rightarrow> bytes \<Rightarrow> bytes \<Rightarrow> u64 \<Rightarrow> u64 \<Rightarrow> bool" where
  "rebroadcast_frame_preserves_incremented_hops C sk key random t now =
     (let (i, store, cache) = make_env C sk key;
          frame = build_frame_for_rebroadcast C t random \<lparr>kind = Data, payload = ascii ''broadcast''\<rparr> Bulk i 2
      in case fst (parse_and_verify_frame C frame store cache now (id_session_key i)) of
           Inl _ \<Rightarrow> False
         | Inr parsed \<Rightarrow> last_hop_id (routed parsed) = id_node i \<and> hops_taken (routed parsed) = 2
             \<and> dst_node (auth parsed) = BROADCAST)"

definition truncated_frame_error :: "crypto \<Rightarrow> bytes \<Rightarrow> bytes \<Rightarrow> u64 \<Rightarrow> bool" where
  "truncated_frame_error C sk key now =
     (let (_, store, cache) = make_env C sk key; short = replicate (MIN_FRAME_LEN - 1) 0
      in fst (parse_and_verify_frame C short store cache now (replicate 32 0)) = Inl TruncatedFrame)"

lemma parse_built_rejected:
  assumes C: "crypto_ok C" and reg: "registered C ks i" and rnd: "length random = 5"
    and rej: "check_and_insert cache (id_node i) t (snd (build_nonce random (id_node i) t)) now
                = (Inl e, cache')"
  shows "parse_and_verify_frame C (build_frame_inner C t random msg prio dst i last_hop hops)
           ks cache now (id_session_key i) = (Inl e, cache')"
proof -
  note ok = crypto_okD [OF C]
  have "ed_verify C (verifying_key i) m (sign_auth C m i)" for m
    using ok(3) reg by (simp add: sign_verify_ok_def sign_auth_def registered_def Identity_wf_def)
  then show ?thesis
    unfolding build_frame_inner_eq parse_assembled [OF frame_auth_wf [OF ok(1) rnd] length_sign_auth [OF ok(2)]]
    using reg rej by (simp add: registered_def)
qed

lemma parse_in_env:
  assumes "crypto_ok C" and "length random = 5" and "abs_diff now t \<le> TIME_WINDOW_MS"
    and "make_env C sk key = (i, store, cache)"
  shows "\<exists>cache'. parse_and_verify_frame C (build_frame_inner C t random msg prio dst i last_hop hops)
      store cache now (id_session_key i) =
        (Inr \<lparr>routed = frame_routed last_hop hops, auth = frame_auth C t random msg prio dst i,
           plaintext = payload msg, pf_rssi_dbm = 0\<rparr>, cache')
      \<and> fst (parse_and_verify_frame C (build_frame_inner C t random msg prio dst i last_hop hops)
          store cache' now (id_session_key i)) = Inl ReplayedNonce"
    and "id_node i = 1"
proof -
  have i: "i = Identity_generate C sk key 1" and c: "cache = NonceCache_new"
    and st: "store = PubkeyStore_insert PubkeyStore_new 1 (verifying_key i)"
    using assms(4) by (auto simp: make_env_def Let_def)
  show id: "id_node i = 1" by (simp add: i Identity_generate_def)
  have reg: "registered C store i" by (simp add: registered_def id st) (simp add: i)
  obtain c' where c': "check_and_insert cache (id_node i) t (snd (build_nonce random (id_node i) t)) now = (Inr (), c')"
    using assms(3) by (auto simp: check_accept c NonceCache_new_def)
  have "check_and_insert c' (id_node i) t (snd (build_nonce random (id_node i) t)) now = (Inl ReplayedNonce, c')"
    using c' [unfolded check_accept] by (simp add: check_and_insert_def not_less)
  from parse_built [OF assms(1) reg assms(2) c'] parse_built_rejected [OF assms(1) reg assms(2) this]
  show "\<exists>cache'. parse_and_verify_frame C (build_frame_inner C t random msg prio dst i last_hop hops)
      store cache now (id_session_key i) =
        (Inr \<lparr>routed = frame_routed last_hop hops, auth = frame_auth C t random msg prio dst i,
           plaintext = payload msg, pf_rssi_dbm = 0\<rparr>, cache')
      \<and> fst (parse_and_verify_frame C (build_frame_inner C t random msg prio dst i last_hop hops)
          store cache' now (id_session_key i)) = Inl ReplayedNonce"
    by simp
qed

lemma frame_tests:
  assumes "crypto_ok C" and "length random = 5" and "abs_diff now t \<le> TIME_WINDOW_MS"
  shows "build_and_parse_round_trip C sk key random t now" "replayed_frame_rejected C sk key random t now"
    "route_frame_sets_last_hop C sk key random t now"
    "rebroadcast_frame_preserves_incremented_hops C sk key random t now"
proof -
  obtain i store cache where env: "make_env C sk key = (i, store, cache)" by (cases "make_env C sk key")
  note parse = parse_in_env [OF assms env]
  note frames = build_frame_def build_frame_for_route_def build_frame_for_rebroadcast_def frame_routed_def
  show "build_and_parse_round_trip C sk key random t now"
    using parse(1) [of "\<lparr>kind = Data, payload = ascii ''hello mesh''\<rparr>" High BROADCAST 1 0] parse(2)
    by (auto simp: build_and_parse_round_trip_def env Let_def frames)
  show "replayed_frame_rejected C sk key random t now"
    using parse(1) [of "\<lparr>kind = Data, payload = ascii ''data''\<rparr>" High BROADCAST 1 0] parse(2)
    by (auto simp: replayed_frame_rejected_def env Let_def frames)
  show "route_frame_sets_last_hop C sk key random t now"
    using parse(1) [of "\<lparr>kind = OlsrHello, payload = [1, 2, 3]\<rparr>" Critical 7 3 0] parse(2)
    by (auto simp: route_frame_sets_last_hop_def env Let_def frames)
  show "rebroadcast_frame_preserves_incremented_hops C sk key random t now"
    using parse(1) [of "\<lparr>kind = Data, payload = ascii ''broadcast''\<rparr>" Bulk BROADCAST 1 2] parse(2)
    by (auto simp: rebroadcast_frame_preserves_incremented_hops_def env Let_def frames)
qed

lemma truncated_frame_error_ok: "truncated_frame_error C sk key now"
  by (simp add: truncated_frame_error_def make_env_def Let_def parse_and_verify_frame_def frame_len_defs)

end
