(* ===== verification/ConformanceRoutes.thy ===== *)
theory ConformanceRoutes
  imports Conformance
begin

text \<open>
  The unit tests of \<^verbatim>\<open>tacticalmesh-olsr/src/state.rs\<close> for the route computation and the ageing of
  neighbours. The traversal of the hash maps is an argument: the tests hold for every order.
\<close>

definition test_neighbor :: "u8 \<Rightarrow> LinkQuality \<Rightarrow> u8 list \<Rightarrow> NeighborEntry" where
  "test_neighbor n q seen_by =
     \<lparr>nb_node_id = n, link_quality = q, last_hello_ms = 0, last_seen_neighbors = seen_by\<rparr>"

definition dijkstra_three_node_chain :: "iter_order \<Rightarrow> bool" where
  "dijkstra_three_node_chain ord =
     (let state = OlsrState_new 1;
          state = state\<lparr>neighbors := (neighbors state)(2 \<mapsto> test_neighbor 2 (lq 0 (- 30) 0) [1, 3])\<rparr>;
          n2_topo = [3 \<mapsto> lq 0 (- 30) 0];
          state = state\<lparr>topology := (topology state)(2 \<mapsto> n2_topo)\<rparr>;
          state = recompute_routes ord state
      in (case routes state 2 of
            None \<Rightarrow> False
          | Some r2 \<Rightarrow> next_hop r2 = 2 \<and> route_cost r2 = 100 \<and> hop_count r2 = 1)
       \<and> (case routes state 3 of
            None \<Rightarrow> False
          | Some r3 \<Rightarrow> next_hop r3 = 2 \<and> route_cost r3 = 200 \<and> hop_count r3 = 2))"

definition dijkstra_prefers_lower_cost_path :: "iter_order \<Rightarrow> bool" where
  "dijkstra_prefers_lower_cost_path ord =
     (let state = OlsrState_new 1;
          state = state\<lparr>neighbors := (neighbors state)(2 \<mapsto> test_neighbor 2 (lq 4 (- 30) 0) [1, 4])\<rparr>;
          state = state\<lparr>neighbors := (neighbors state)(3 \<mapsto> test_neighbor 3 (lq 0 (- 80) 0) [1, 4])\<rparr>;
          n2 = [4 \<mapsto> lq 4 (- 30) 0];
          n3 = [4 \<mapsto> lq 4 (- 30) 0];
          state = state\<lparr>topology := (topology state)(2 \<mapsto> n2)\<rparr>;
          state = state\<lparr>topology := (topology state)(3 \<mapsto> n3)\<rparr>;
          state = recompute_routes ord state
      in case routes state 4 of
           None \<Rightarrow> False
         | Some r4 \<Rightarrow> next_hop r4 = 2 \<and> route_cost r4 = 120 \<and> hop_count r4 = 2)"

text \<open>The test repeats the body of the ageing loop, but always ends by clearing the routes.\<close>

definition aging_removes_neighbor_and_clears_routes :: "iter_order \<Rightarrow> u64 \<Rightarrow> bool" where
  "aging_removes_neighbor_and_clears_routes ord now =
     (let state = OlsrState_new 1;
          state = state\<lparr>neighbors := (neighbors state)(2 \<mapsto> test_neighbor 2 (lq 0 (- 30) 0) [])\<rparr>;
          n2 = [3 \<mapsto> lq 0 (- 30) 0];
          state = state\<lparr>topology := (topology state)(2 \<mapsto> n2)\<rparr>;
          state = recompute_routes ord state;
          before = dom (routes state) \<noteq> {};
          stale = map fst (filter (\<lambda>(_, e). NEIGHBOR_TIMEOUT_MS < saturating_sub now (last_hello_ms e))
                             (entries (ord (local_id state)) (neighbors state)));
          state = foldl remove_neighbor state stale;
          state = state\<lparr>routes := Map.empty\<rparr>
      in before \<and> dom (neighbors state) = {} \<and> dom (routes state) = {})"

section \<open>They hold\<close>

lemma test_neighbor_simps [simp]: "last_hello_ms (test_neighbor n q ns) = 0" "link_quality (test_neighbor n q ns) = q"
  by (simp_all add: test_neighbor_def)

lemma entries_cong: "(\<And>k. k \<in> set ks \<Longrightarrow> m k = m' k) \<Longrightarrow> entries ks m = entries ks m'"
  by (induction ks) (simp_all add: entries_Cons split: option.splits)

lemma entries_pair:
  assumes "distinct ks" and "a \<in> set ks" and "b \<in> set ks" and "a \<noteq> b"
  shows "entries ks [a \<mapsto> x, b \<mapsto> y] \<in> {[(a, x), (b, y)], [(b, y), (a, x)]}"
proof -
  define m where "m = [a \<mapsto> x, b \<mapsto> y]"
  have m: "m a = Some x" "m b = Some y" "i \<noteq> a \<Longrightarrow> i \<noteq> b \<Longrightarrow> m i = None" for i
    using assms(4) by (simp_all add: m_def)
  have single: "entries ks m = [(c, z)]"
    if "distinct ks" "c \<in> set ks" "m c = Some z" "{c, k} = {a, b}" "k \<notin> set ks" for ks c k z
  proof -
    have "entries ks m = entries ks [c \<mapsto> z]" by (rule entries_cong) (use that m(3) in auto)
    then show ?thesis using entries_single [OF that(1,2), of z] by simp
  qed
  have "entries ks m \<in> {[(a, x), (b, y)], [(b, y), (a, x)]}"
    using assms(1-3)
  proof (induction ks)
    case (Cons k ks)
    consider "k = a" | "k = b" | "k \<noteq> a" "k \<noteq> b" by blast
    then show ?case
    proof cases
      case 1
      then have "entries ks m = [(b, y)]" using Cons.prems assms(4) m(2) by (intro single [of _ b _ a]) auto
      then show ?thesis using 1 m by (simp add: entries_Cons)
    next
      case 2
      then have "entries ks m = [(a, x)]" using Cons.prems assms(4) m(1) by (intro single [of _ a _ b]) auto
      then show ?thesis using 2 m by (simp add: entries_Cons)
    next
      case 3
      then show ?thesis using Cons m(3) by (simp add: entries_Cons)
    qed
  qed simp
  then show ?thesis by (simp add: m_def)
qed

lemma order_entries:
  assumes "order_ok ord"
  shows "entries (ord u) [k \<mapsto> v] = [(k, v)]"
    and "a \<noteq> b \<Longrightarrow> entries (ord u) [a \<mapsto> x, b \<mapsto> y] \<in> {[(a, x), (b, y)], [(b, y), (a, x)]}"
  using assms entries_single [of "ord u"] entries_pair [of "ord u"] by (simp_all add: order_ok_def)

lemma test_costs: "link_cost (lq 0 (- 30) 0) = 100" "link_cost (lq 4 (- 30) 0) = 60" "link_cost (lq 0 (- 80) 0) = 200"
  by (simp_all add: link_cost_def mcs_base_def lq_def Let_def)

lemma few_hops: "\<not> (8 :: u8) \<le> 1" "\<not> (8 :: u8) \<le> 2"
  by (simp_all add: word_le_nat_alt)

lemmas search_eval = few_hops shortest_def search_init_def search_loop.simps heap_push_def heap_pop_def relax_def
  saturating_add_def u32_MAX_def walk_back.simps OLSR_MAX_HOPS_def route_entry_def unwrap_or_def Let_def

lemma chain_edges:
  assumes "order_ok ord"
  shows "edges ord \<lparr>local_id = 1, neighbors = [2 \<mapsto> test_neighbor 2 (lq 0 (- 30) 0) ns], two_hop = th,
      topology = [2 \<mapsto> [3 \<mapsto> lq 0 (- 30) 0]], routes = rs, last_tc_seq = sq\<rparr>
    = (\<lambda>u. if u = 1 then [(2, 100)] else if u = 2 then [(3, 100)] else [])"
  by (auto simp: edges_def order_entries(1) [OF assms] test_costs)

lemma dijkstra_three_node_chain_ok: "order_ok ord \<Longrightarrow> dijkstra_three_node_chain ord"
  by (simp add: dijkstra_three_node_chain_def recompute_routes_def OlsrState_new_def chain_edges search_eval)

lemma aging_removes_neighbor_and_clears_routes_ok:
  assumes "order_ok ord" and "3000 < now"
  shows "aging_removes_neighbor_and_clears_routes ord now"
proof -
  let ?s = "\<lparr>local_id = 1, neighbors = [2 \<mapsto> test_neighbor 2 (lq 0 (- 30) 0) []], two_hop = Map.empty,
      topology = [2 \<mapsto> [3 \<mapsto> lq 0 (- 30) 0]], routes = Map.empty, last_tc_seq = Map.empty\<rparr>"
  have "routes (recompute_routes ord ?s) 2 \<noteq> None"
    by (simp add: recompute_routes_def chain_edges [OF assms(1)] search_eval)
  then have "routes (recompute_routes ord ?s) \<noteq> Map.empty" by metis
  then show ?thesis
    using assms(2)
    by (simp add: aging_removes_neighbor_and_clears_routes_def OlsrState_new_def order_entries(1) [OF assms(1)]
        remove_neighbor_def NEIGHBOR_TIMEOUT_MS_def saturating_sub_def Let_def)
qed

lemma diamond_edges:
  assumes "order_ok ord"
  shows "\<exists>es \<in> {[(2, 60), (3, 200)], [(3, 200), (2, 60)]}.
    edges ord \<lparr>local_id = 1, neighbors = [2 \<mapsto> test_neighbor 2 (lq 4 (- 30) 0) ns, 3 \<mapsto> test_neighbor 3 (lq 0 (- 80) 0) ms],
      two_hop = th, topology = [2 \<mapsto> [4 \<mapsto> lq 4 (- 30) 0], 3 \<mapsto> [4 \<mapsto> lq 4 (- 30) 0]], routes = rs, last_tc_seq = sq\<rparr>
    = (\<lambda>u. if u = 1 then es else if u = 2 \<or> u = 3 then [(4, 60)] else [])"
proof -
  let ?a = "test_neighbor 2 (lq 4 (- 30) 0) ns" and ?b = "test_neighbor 3 (lq 0 (- 80) 0) ms"
  have "entries (ord 1) [2 \<mapsto> ?a, 3 \<mapsto> ?b] \<in> {[(2, ?a), (3, ?b)], [(3, ?b), (2, ?a)]}"
    by (rule order_entries(2) [OF assms]) simp
  then show ?thesis
    by (auto simp: edges_def order_entries(1) [OF assms] test_costs fun_eq_iff)
qed

lemma dijkstra_prefers_lower_cost_path_ok:
  assumes "order_ok ord"
  shows "dijkstra_prefers_lower_cost_path ord"
  using diamond_edges [OF assms, of "[1, 4]" "[1, 4]" Map.empty Map.empty Map.empty]
  by (auto simp: dijkstra_prefers_lower_cost_path_def recompute_routes_def OlsrState_new_def search_eval)

end
