(* ===== verification/ConformanceCodecs.thy ===== *)
theory ConformanceCodecs
  imports Conformance ImageCodec Fec
begin

text \<open>
  The unit tests of the repository for code over an external crate. The crate's functions are
  arguments of a test; it holds for all that keep what their documentation promises: that a message
  that has been serialized is read back (\<open>codec_ok\<close>), the laws \<open>crypto_ok\<close>, \<open>image_lib_ok\<close> and those
  of the erasure code, and that the calls which the test expects to succeed do.
\<close>

section \<open>Application messages, \<^verbatim>\<open>tacticalmesh-app/src/messages.rs\<close>\<close>

type_synonym app_ser = "AppMsg \<Rightarrow> string + bytes"
type_synonym app_de = "bytes \<Rightarrow> string + AppMsg"

definition roundtrip :: "app_ser \<Rightarrow> app_de \<Rightarrow> AppMsg \<Rightarrow> AppMsg option" where
  "roundtrip ser de msg =
     (case ser msg of
        Inl e \<Rightarrow> None
      | Inr encoded \<Rightarrow> (case de encoded of Inl e \<Rightarrow> None | Inr m \<Rightarrow> Some m))"

text \<open>\<open>48.123\<close>, \<open>11.456\<close>, \<open>52\<close> and \<open>13\<close> as bit patterns.\<close>

definition roundtrip_target_detection :: "app_ser \<Rightarrow> app_de \<Rightarrow> bool" where
  "roundtrip_target_detection ser de =
     (case roundtrip ser de (Msg_TargetDetection \<lparr>td_target_id = 42, td_kind = Vehicle, td_lat = 0x42407DF4,
         td_lon = 0x41374BC7, td_detected_at_ms = 1000000, td_detector = 3\<rparr>) of
        Some (Msg_TargetDetection d) \<Rightarrow> td_target_id d = 42 \<and> td_detector d = 3
      | _ \<Rightarrow> False)"

definition roundtrip_command :: "app_ser \<Rightarrow> app_de \<Rightarrow> bool" where
  "roundtrip_command ser de =
     (case roundtrip ser de (Msg_Command \<lparr>cmd_target_id = 7, cmd_op = Engage, cmd_issued_by = 1\<rparr>) of
        Some (Msg_Command c) \<Rightarrow> cmd_target_id c = 7 \<and> cmd_issued_by c = 1
      | _ \<Rightarrow> False)"

definition roundtrip_bda :: "app_ser \<Rightarrow> app_de \<Rightarrow> bool" where
  "roundtrip_bda ser de =
     (case roundtrip ser de (Msg_Bda \<lparr>bda_target_id = 99, bda_result = BdaDestroyed, bda_at_ms = 5000\<rparr>) of
        Some (Msg_Bda b) \<Rightarrow> bda_target_id b = 99 \<and> bda_at_ms b = 5000
      | _ \<Rightarrow> False)"

definition roundtrip_state_report :: "app_ser \<Rightarrow> app_de \<Rightarrow> bool" where
  "roundtrip_state_report ser de =
     (case roundtrip ser de (Msg_StateReport \<lparr>sr_node_id = 2, sr_battery_pct = 75, sr_lat = 0x42500000,
         sr_lon = 0x41500000\<rparr>) of
        Some (Msg_StateReport s) \<Rightarrow> sr_node_id s = 2 \<and> sr_battery_pct s = 75
      | _ \<Rightarrow> False)"

definition roundtrip_image_shard :: "app_ser \<Rightarrow> app_de \<Rightarrow> bool" where
  "roundtrip_image_shard ser de =
     (case roundtrip ser de (Msg_ImageShard \<lparr>is_target_id = 10, is_total_blocks = 0, is_block_id = 0,
         is_index = 3, is_k = 8, is_n = 12, is_data = [0xAA, 0xBB, 0xCC]\<rparr>) of
        Some (Msg_ImageShard s) \<Rightarrow> is_target_id s = 10 \<and> is_index s = 3 \<and> is_data s = [0xAA, 0xBB, 0xCC]
      | _ \<Rightarrow> False)"

definition roundtrip_request_image :: "app_ser \<Rightarrow> app_de \<Rightarrow> bool" where
  "roundtrip_request_image ser de =
     (case roundtrip ser de (Msg_RequestImage \<lparr>ri_target_id = 5, ri_requester = 8\<rparr>) of
        Some (Msg_RequestImage r) \<Rightarrow> ri_target_id r = 5 \<and> ri_requester r = 8
      | _ \<Rightarrow> False)"

definition roundtrip_jam_alert :: "app_ser \<Rightarrow> app_de \<Rightarrow> bool" where
  "roundtrip_jam_alert ser de =
     (case roundtrip ser de (Msg_JamAlert \<lparr>ja_detected_by = 1, ja_channel = 6, ja_at_ms = 9999\<rparr>) of
        Some (Msg_JamAlert j) \<Rightarrow> ja_detected_by j = 1 \<and> ja_channel j = 6
      | _ \<Rightarrow> False)"

definition roundtrip_channel_hop :: "app_ser \<Rightarrow> app_de \<Rightarrow> bool" where
  "roundtrip_channel_hop ser de =
     (case roundtrip ser de (Msg_ChannelHop \<lparr>ch_new_channel = 11, ch_new_epoch = 42, ch_initiated_by = 0\<rparr>) of
        Some (Msg_ChannelHop c) \<Rightarrow> ch_new_channel c = 11 \<and> ch_new_epoch c = 42
      | _ \<Rightarrow> False)"

definition roundtrip_mayday :: "app_ser \<Rightarrow> app_de \<Rightarrow> bool" where
  "roundtrip_mayday ser de =
     (case roundtrip ser de (Msg_Mayday \<lparr>md_node_id = 4, md_at_ms = 123456\<rparr>) of
        Some (Msg_Mayday m) \<Rightarrow> md_node_id m = 4 \<and> md_at_ms m = 123456
      | _ \<Rightarrow> False)"

definition roundtrip_olsr :: "app_ser \<Rightarrow> app_de \<Rightarrow> bool" where
  "roundtrip_olsr ser de =
     (case roundtrip ser de (Msg_Olsr \<lparr>olsr_payload = [1, 2, 3, 4]\<rparr>) of
        Some (Msg_Olsr m) \<Rightarrow> olsr_payload m = [1, 2, 3, 4]
      | _ \<Rightarrow> False)"

definition roundtrip_ack :: "app_ser \<Rightarrow> app_de \<Rightarrow> bool" where
  "roundtrip_ack ser de =
     (case roundtrip ser de (Msg_Ack \<lparr>acked_seq = 0xDEADBEEF\<rparr>) of
        Some (Msg_Ack a) \<Rightarrow> acked_seq a = 0xDEADBEEF
      | _ \<Rightarrow> False)"

lemma roundtrip_same:
  assumes "codec_ok ser de" and "\<And>m. \<exists>b. ser m = Inr b"
  shows "roundtrip ser de m = Some m"
  using assms(2) [of m] codec_okD [OF assms(1)] by (auto simp: roundtrip_def)

lemma message_tests:
  assumes "codec_ok ser de" and "\<And>m. \<exists>b. ser m = Inr b"
  shows "roundtrip_target_detection ser de" "roundtrip_command ser de" "roundtrip_bda ser de"
    "roundtrip_state_report ser de" "roundtrip_image_shard ser de" "roundtrip_request_image ser de"
    "roundtrip_jam_alert ser de" "roundtrip_channel_hop ser de" "roundtrip_mayday ser de"
    "roundtrip_olsr ser de" "roundtrip_ack ser de"
  by (simp_all add: roundtrip_same [OF assms] roundtrip_target_detection_def roundtrip_command_def
      roundtrip_bda_def roundtrip_state_report_def roundtrip_image_shard_def roundtrip_request_image_def
      roundtrip_jam_alert_def roundtrip_channel_hop_def roundtrip_mayday_def roundtrip_olsr_def
      roundtrip_ack_def)

section \<open>Link adapter, \<^verbatim>\<open>tacticalmesh-link/src/lib.rs\<close>\<close>

definition priority_bincode_round_trip :: "(Priority \<Rightarrow> string + bytes) \<Rightarrow> (bytes \<Rightarrow> string + Priority) \<Rightarrow> bool" where
  "priority_bincode_round_trip ser de =
     list_all (\<lambda>p. case ser p of Inl e \<Rightarrow> False | Inr enc \<Rightarrow> de enc = Inr p) PRIORITIES"

text \<open>With the stub backend every call succeeds.\<close>

definition link_adapter_new_and_send :: "(bytes \<Rightarrow> bytes) \<Rightarrow> bool" where
  "link_adapter_new_and_send h =
     (case LinkAdapter_new h (\<lambda>_. True) (\<lambda>_. True) 1 (replicate 32 0) of
        Inl e \<Rightarrow> False
      | Inr link \<Rightarrow>
          (let (_, seq1, link) = LinkAdapter_send True link (ascii ''hello'') High;
               (_, seq2, link) = LinkAdapter_send True link (ascii ''world'') Bulk
           in seq1 = Inr 0 \<and> seq2 = Inr 1))"

definition epoch_rotation_changes_stream_ids :: "(bytes \<Rightarrow> bytes) \<Rightarrow> bool" where
  "epoch_rotation_changes_stream_ids h =
     (let key = replicate 32 5 in
      derive_stream_id h key 0 Emergency \<noteq> derive_stream_id h key 1 Emergency
      \<and> (case LinkAdapter_new h (\<lambda>_. True) (\<lambda>_. True) 1 key of
           Inl e \<Rightarrow> False
         | Inr link \<Rightarrow>
             (case rotate_epoch h (\<lambda>_. True) (\<lambda>_. True) link of
                (Inl e, _) \<Rightarrow> False
              | (Inr _, link') \<Rightarrow> epoch link = 0 \<and> epoch link' = 1)))"

lemma link_tests:
  "codec_ok ser de \<Longrightarrow> (\<And>p. \<exists>b. ser p = Inr b) \<Longrightarrow> priority_bincode_round_trip ser de"
  "link_adapter_new_and_send h"
  "derive_stream_id h (replicate 32 5) 0 Emergency \<noteq> derive_stream_id h (replicate 32 5) 1 Emergency
   \<Longrightarrow> epoch_rotation_changes_stream_ids h"
proof -
  assume c: "codec_ok ser de" "\<And>p. \<exists>b. ser p = Inr b"
  have "case ser p of Inl e \<Rightarrow> False | Inr enc \<Rightarrow> de enc = Inr p" for p
    using c(2) [of p] codec_okD [OF c(1), of p] by auto
  then show "priority_bincode_round_trip ser de" by (simp add: priority_bincode_round_trip_def list_all_iff)
next
  show "link_adapter_new_and_send h"
    by (simp add: link_adapter_new_and_send_def LinkAdapter_new_def LinkAdapter_send_def Tx_send_def
        list_all_iff Let_def)
next
  assume ne: "derive_stream_id h (replicate 32 5) 0 Emergency \<noteq> derive_stream_id h (replicate 32 5) 1 Emergency"
  obtain l where l: "LinkAdapter_new h (\<lambda>_. True) (\<lambda>_. True) 1 (replicate 32 5) = Inr l"
    by (simp add: LinkAdapter_new_def list_all_iff)
  then have "epoch l = 0" by (auto simp: LinkAdapter_new_def split: if_splits)
  obtain l' where "rotate_epoch h (\<lambda>_. True) (\<lambda>_. True) l = (Inr (), l')" "epoch l' = epoch l + 1"
    using rotate_epoch_sync [OF new_in_sync [OF l]] by blast
  then show "epoch_rotation_changes_stream_ids h"
    using ne l \<open>epoch l = 0\<close> by (simp add: epoch_rotation_changes_stream_ids_def)
qed

section \<open>Cryptography, \<^verbatim>\<open>tacticalmesh-wire/src/crypto.rs\<close>\<close>

definition xchacha20_round_trip :: "crypto \<Rightarrow> bool" where
  "xchacha20_round_trip C =
     (let key = replicate 32 0xAB;
          nonce24 = replicate 24 0x12;
          original = ascii ''hello tactical mesh'';
          data = xchacha20_apply C key nonce24 original;
          changed = data \<noteq> original;
          data = xchacha20_apply C key nonce24 data
      in changed \<and> data = original)"

definition sign_verify_works :: "crypto \<Rightarrow> bytes \<Rightarrow> bytes \<Rightarrow> bool" where
  "sign_verify_works C sk key =
     (let i = Identity_generate C sk key 1;
          msg = ascii ''auth header bytes'';
          sig = sign_auth C msg i
      in verify_auth C msg sig (verifying_key i) = Inr ())"

definition tampered_byte_bad_signature :: "crypto \<Rightarrow> bytes \<Rightarrow> bytes \<Rightarrow> bool" where
  "tampered_byte_bad_signature C sk key =
     (let i = Identity_generate C sk key 1;
          msg = ascii ''auth header bytes'';
          sig = sign_auth C msg i;
          tampered = ascii ''auth header XXXXX''
      in verify_auth C tampered sig (verifying_key i) = Inl BadSignature)"

definition nonce_build_and_restore :: "bytes \<Rightarrow> bool" where
  "nonce_build_and_restore random =
     (let (nonce24, stored) = build_nonce random 42 9876543210;
          restored = nonce24_from_stored stored
      in take 12 nonce24 = take 12 restored \<and> drop 12 restored = replicate 12 0)"

lemma xchacha20_round_trip_ok:
  assumes "cipher_ok C"
    and "xchacha20 C (replicate 32 0xAB) (replicate 24 0x12) (ascii ''hello tactical mesh'') \<noteq> ascii ''hello tactical mesh''"
  shows "xchacha20_round_trip C"
  using assms(2) xchacha20_apply_twice [OF assms(1)]
  by (simp add: xchacha20_round_trip_def xchacha20_apply_def Let_def)

lemma sign_verify_works_ok: "sign_verify_ok C \<Longrightarrow> sign_verify_works C sk key"
  using verify_sign_auth [of C "Identity_generate C sk key 1"] by (simp add: sign_verify_works_def Let_def)

text \<open>That no signature fits a second text is not among the laws; for these two it is assumed.\<close>

lemma tampered_byte_bad_signature_ok:
  assumes "\<not> ed_verify C (verifying_key (Identity_generate C sk key 1)) (ascii ''auth header XXXXX'')
      (sign_auth C (ascii ''auth header bytes'') (Identity_generate C sk key 1))"
  shows "tampered_byte_bad_signature C sk key"
  using assms by (simp add: tampered_byte_bad_signature_def verify_auth_def Let_def)

lemma nonce_build_and_restore_ok: "length random = 5 \<Longrightarrow> nonce_build_and_restore random"
  using build_nonce_stored [of random 42 9876543210]
  by (cases "build_nonce random 42 9876543210") (auto simp: nonce_build_and_restore_def nonce24_from_stored_def)

section \<open>Erasure code, \<^verbatim>\<open>tacticalmesh-wire/src/fec.rs\<close>\<close>

definition fec_test_data :: bytes where
  "fec_test_data = map of_nat [0..<2048]"

definition p3_encode_and_full_decode :: "rs_encoder \<Rightarrow> rs_decoder \<Rightarrow> bool" where
  "p3_encode_and_full_decode enc dec =
     (case fec_encode enc fec_test_data Bulk of
        Ret (Inr sent) \<Rightarrow>
          (let (k, n) = fec_params Bulk; wrapped = map Some sent
           in length sent = n \<and> fec_decode dec wrapped k n (length fec_test_data) = Ret (Inr fec_test_data))
      | _ \<Rightarrow> False)"

definition p3_corrupt_two_shards_reconstruct :: "rs_encoder \<Rightarrow> rs_decoder \<Rightarrow> bool" where
  "p3_corrupt_two_shards_reconstruct enc dec =
     (case fec_encode enc fec_test_data Bulk of
        Ret (Inr sent) \<Rightarrow>
          (let (k, n) = fec_params Bulk;
               wrapped = map (\<lambda>(i, s). if i = 3 \<or> i = 9 then None else Some s) (enumerate 0 sent)
           in fec_decode dec wrapped k n (length fec_test_data) = Ret (Inr fec_test_data))
      | _ \<Rightarrow> False)"

definition p0_encode_three_parity_shards :: "rs_encoder \<Rightarrow> bool" where
  "p0_encode_three_parity_shards enc =
     (let data = replicate 2000 0xDE in
      case fec_encode enc data Emergency of
        Ret (Inr sent) \<Rightarrow> (let (k, n) = fec_params Emergency in length sent = n \<and> k = 1)
      | _ \<Rightarrow> False)"

text \<open>The crate encodes shards of even length; those of the tests have 256 and 2000 bytes.\<close>

definition rs_total :: "rs_encoder \<Rightarrow> bool" where
  "rs_total enc \<longleftrightarrow>
     (\<forall>k r sz os. 0 < k \<and> length os = k \<and> 0 < sz \<and> even sz \<and> (\<forall>s \<in> set os. length s = sz)
        \<longrightarrow> (\<exists>rs. enc k r os = Inr rs))"

lemma fec_encode_total:
  assumes "rs_total enc" and p: "fec_params p = (k, n)" and "even (div_ceil (length data) k)" and "data \<noteq> []"
  shows "\<exists>sent. fec_encode enc data p = Ret (Inr sent)"
proof -
  define sz where "sz = div_ceil (length data) k"
  have k: "0 < k" using fec_params_bounds [OF p] by simp
  have le: "length data \<le> sz * k" unfolding sz_def using k by (rule div_ceil_mult)
  then have sz: "0 < sz" using assms(4) by (cases "sz = 0") auto
  have "length (resize data (sz * k) 0) = sz * k" using le by simp
  note C = chunks_exact [OF sz this]
  obtain rs where "enc k (n - k) (chunks sz (resize data (sz * k) 0)) = Inr rs"
    using assms(1,3) k sz C unfolding rs_total_def sz_def [symmetric] by blast
  then show ?thesis using sz by (simp add: fec_encode_def p sz_def [symmetric] Let_def)
qed

lemma fec_encode_length:
  assumes "rs_encodes enc" and "fec_params p = (k, n)" and "fec_encode enc data p = Ret (Inr sent)"
  shows "length sent = n"
proof -
  note shape = fec_encode_shape [OF assms(2,3)]
  have "length (drop k sent) = n - k"
    using assms(1) shape(3,5) unfolding rs_encodes_def by blast
  then show ?thesis using shape(2) fec_params_bounds [OF assms(2)] by (simp add: min_def split: if_splits)
qed

lemma fec_tests:
  assumes "rs_total enc" and "rs_encodes enc" and "rs_restores enc dec"
  shows "p3_encode_and_full_decode enc dec" "p3_corrupt_two_shards_reconstruct enc dec"
    "p0_encode_three_parity_shards enc"
proof -
  have bulk: "fec_params Bulk = (8, 12)" by simp
  have len: "length fec_test_data = 2048" "fec_test_data \<noteq> []" by (simp_all add: fec_test_data_def)
  obtain all where e: "fec_encode enc fec_test_data Bulk = Ret (Inr all)"
    using fec_encode_total [OF assms(1) bulk, of fec_test_data] len by (auto simp: div_ceil_def)
  note n = fec_encode_length [OF assms(2) bulk e] and D = fec_decode_encode [OF bulk e assms(2,3)]
  have "somes (map Some xs) = xs" for xs :: "bytes list" by (induction xs) simp_all
  then show "p3_encode_and_full_decode enc dec"
    using D [OF received_all] e n by (simp add: p3_encode_and_full_decode_def)
  let ?lost = "map (\<lambda>(i, s). if i = 3 \<or> i = 9 then None else Some s) (enumerate 0 all)"
  have "received all ?lost" by (auto simp: received_def nth_enumerate_eq)
  moreover have "8 \<le> length (somes ?lost)"
  proof -
    obtain a b c d e f g h i j k l where "all = [a, b, c, d, e, f, g, h, i, j, k, l]"
      using n by (auto simp: length_Suc_conv numeral_eq_Suc)
    then show ?thesis by simp
  qed
  ultimately show "p3_corrupt_two_shards_reconstruct enc dec"
    using D e n by (simp add: p3_corrupt_two_shards_reconstruct_def)
  have em: "fec_params Emergency = (1, 4)" by simp
  obtain all' where "fec_encode enc (replicate 2000 0xDE) Emergency = Ret (Inr all')"
    using fec_encode_total [OF assms(1) em, of "replicate 2000 0xDE"] by (auto simp: div_ceil_def)
  then show "p0_encode_three_parity_shards enc"
    using fec_encode_length [OF assms(2) em] by (simp add: p0_encode_three_parity_shards_def)
qed

section \<open>Image codec, \<^verbatim>\<open>tacticalmesh-app/src/image\_codec.rs\<close>\<close>

definition checkerboard :: "nat \<Rightarrow> nat \<Rightarrow> bytes" where
  "checkerboard w h =
     concat (map (\<lambda>y. map (\<lambda>x. if (x + y) mod 2 = 0 then 255 else 0) [0..<w]) [0..<h])"

definition roundtrip_preserves_dimensions :: "('gray, 'img) image_lib \<Rightarrow> bool" where
  "roundtrip_preserves_dimensions L =
     (case encode_jpeg L (checkerboard 320 240) 320 240 85 of
        None \<Rightarrow> False
      | Some jpeg \<Rightarrow> (case decode_jpeg L jpeg of None \<Rightarrow> False | Some (_, w, h) \<Rightarrow> (w, h) = (320, 240)))"

definition encode_wrong_size_returns_none :: "('gray, 'img) image_lib \<Rightarrow> bool" where
  "encode_wrong_size_returns_none L = (encode_jpeg L (replicate 10 0) 640 480 75 = None)"

text \<open>The loop over the chunks of the picture, which asserts that only the last one completes it.\<close>

fun pipeline_insert :: "nat \<Rightarrow> nat \<Rightarrow> bytes list \<Rightarrow> ImageCache \<Rightarrow> bool \<times> ImageCache" where
  "pipeline_insert block_id total_blocks [] cache = (True, cache)"
| "pipeline_insert block_id total_blocks (data # rest) cache =
     (let (completed, cache) = insert_shard cache
            \<lparr>is_target_id = 42, is_total_blocks = of_nat total_blocks, is_block_id = of_nat block_id, is_index = 0,
             is_k = 1, is_n = 1, is_data = data\<rparr>
      in if (of_nat block_id :: u8) + 1 < of_nat total_blocks \<and> completed then (False, cache)
         else pipeline_insert (block_id + 1) total_blocks rest cache)"

definition shard_pipeline_roundtrip :: "('gray, 'img) image_lib \<Rightarrow> bool" where
  "shard_pipeline_roundtrip L =
     (case encode_jpeg L (checkerboard 64 64) 64 64 85 of
        None \<Rightarrow> False
      | Some jpeg \<Rightarrow>
          (let pieces = chunks 200 jpeg;
               (ok, cache) = pipeline_insert 0 (length pieces) pieces ImageCache_new
           in jpeg \<noteq> [] \<and> ok
            \<and> (case get_complete cache 42 of
                 None \<Rightarrow> False
               | Some assembled \<Rightarrow>
                   (case decode_jpeg L assembled of
                      None \<Rightarrow> False
                    | Some (pixs, w, h) \<Rightarrow> (w, h) = (64, 64) \<and> length pixs = 64 * 64))))"

lemma length_checkerboard: "length (checkerboard w h) = h * w"
  unfolding checkerboard_def by (subst length_concat_rows [where n = w]) simp_all

lemma encode_wrong_size_returns_none_ok: "image_lib_ok L \<Longrightarrow> encode_wrong_size_returns_none L"
  by (simp add: encode_wrong_size_returns_none_def encode_jpeg_short pixels_def)

lemma encodes_board:
  assumes "image_lib_ok L" and "\<And>g q. \<exists>b. write_to_jpeg L g q = Inr b" and "pixels w h = n * m"
  shows "\<exists>buf. encode_jpeg L (checkerboard m n) w h q = Some buf"
  using assms(2) image_laws(1) [OF assms(1), of w h "checkerboard m n"] assms(3)
  by (auto simp: encode_jpeg_def length_checkerboard split: option.splits) (metis sum.case(2))

lemma roundtrip_preserves_dimensions_ok:
  assumes "image_lib_ok L" and "\<And>g q. \<exists>b. write_to_jpeg L g q = Inr b"
  shows "roundtrip_preserves_dimensions L"
proof -
  obtain buf where "encode_jpeg L (checkerboard 320 240) 320 240 85 = Some buf"
    using encodes_board [OF assms, of 320 240 240 320 85] by (auto simp: pixels_def)
  with encode_decode_size [OF assms(1) this] show ?thesis
    by (auto simp: roundtrip_preserves_dimensions_def)
qed

lemma pipeline_insert_run:
  assumes "received_blocks c 42 cs {..<i}" and "i + length rest = length cs" and "drop i cs = rest"
    and "length cs \<le> 255" and "0 < length cs"
  shows "fst (pipeline_insert i (length cs) rest c)
    \<and> received_blocks (snd (pipeline_insert i (length cs) rest c)) 42 cs {..<length cs}"
  using assms
proof (induction rest arbitrary: i c)
  case (Cons data rest)
  have i: "i < length cs" using Cons.prems(2) by simp
  have sh: "\<lparr>is_target_id = 42, is_total_blocks = of_nat (length cs), is_block_id = of_nat i, is_index = 0,
      is_k = 1, is_n = 1, is_data = data\<rparr> = image_shard 42 cs i"
    using Cons.prems(3) by (simp add: image_shard_def Cons_nth_drop_Suc [OF i, symmetric])
  note I = insert_image_shard [OF Cons.prems(1) i Cons.prems(4)]
  have "insert i {..<i} = {..<i + 1}" by auto
  note step = I [unfolded this]
  have "(of_nat i :: u8) + 1 < of_nat (length cs) \<longleftrightarrow> i + 1 < length cs"
    using i Cons.prems(4) by (simp add: word_less_nat_alt unat_word_ariths)
  then have "\<not> ((of_nat i :: u8) + 1 < of_nat (length cs) \<and> fst (insert_shard c (image_shard 42 cs i)))"
    using step(2) by auto
  moreover have "drop (i + 1) cs = rest" using Cons.prems(3) by (metis Suc_eq_plus1 drop_Suc list.sel(3) tl_drop)
  ultimately show ?case
    using Cons.IH [OF step(1)] Cons.prems sh
    by (cases "insert_shard c (image_shard 42 cs i)") (auto simp: Let_def)
qed simp

lemma shard_pipeline_roundtrip_ok:
  assumes "image_lib_ok L" and "\<And>g q. \<exists>b. write_to_jpeg L g q = Inr b"
    and "\<And>g q b. write_to_jpeg L g q = Inr b \<Longrightarrow> b \<noteq> [] \<and> length b \<le> 51000"
  shows "shard_pipeline_roundtrip L"
proof -
  obtain jpeg where jpeg: "encode_jpeg L (checkerboard 64 64) 64 64 85 = Some jpeg"
    using encodes_board [OF assms(1,2), of 64 64 64 64 85] by (auto simp: pixels_def)
  then obtain g where "write_to_jpeg L g 85 = Inr jpeg"
    by (auto simp: encode_jpeg_def split: option.splits sum.splits)
  then have len: "jpeg \<noteq> []" "length jpeg \<le> 51000" using assms(3) by blast+
  let ?cs = "chunks 200 jpeg"
  have "length ?cs = (length jpeg + 199) div 200" by (simp add: length_chunks)
  then have cs: "0 < length ?cs" "length ?cs \<le> 255" using len by (cases jpeg; simp)+
  then have "received_blocks ImageCache_new 42 ?cs {..<0}"
    by (auto simp: received_blocks_def ImageCache_new_def lessThan_empty_iff)
  from pipeline_insert_run [OF this _ _ cs(2,1), of ?cs]
  have "fst (pipeline_insert 0 (length ?cs) ?cs ImageCache_new)"
    and "get_complete (snd (pipeline_insert 0 (length ?cs) ?cs ImageCache_new)) 42 = Some jpeg"
    by (simp_all add: received_blocks_def get_complete_def concat_chunks)
  then show ?thesis
    using encode_decode_size [OF assms(1) jpeg] len(1) jpeg
    by (auto simp: shard_pipeline_roundtrip_def pixels_def Let_def split: prod.splits)
qed

end
