(* ===== verification/Spec2Isabelle.thy ===== *)
theory Spec2Isabelle
  imports FecFrames Render Deviations Demo Tools Main_Program Insider ConformanceRoutes ConformanceCodecs
begin

text \<open>
  Verification of TacticalMesh, a mesh network node in Rust (paths below are under \<^verbatim>\<open>src/\<close>).

  \<^bold>\<open>The program.\<close> A node sends and receives signed, encrypted frames over a radio link with four
  priorities (\<^verbatim>\<open>tacticalmesh-link\<close>). \<^verbatim>\<open>tacticalmesh-wire\<close> builds and verifies the frames, guards
  against replay, codes large payloads for forward error correction and schedules transmissions by
  priority. \<^verbatim>\<open>tacticalmesh-olsr\<close> keeps neighbour, two-hop and topology tables from HELLO and TC
  messages and computes least-cost routes. \<^verbatim>\<open>tacticalmesh-app\<close> has the application messages, the
  replicated target board, the image cache and the state shown on the terminal.
  \<^verbatim>\<open>tacticalmesh-bin\<close> runs it all as concurrent tasks on one shared state.

  \<^bold>\<open>Theories and what they model.\<close>
  \<^item> \<open>Prelude\<close>: integer types, saturating arithmetic, little-endian bytes, slices and chunks, map
    traversal, results that may panic, and the interfaces \<open>fixed_codec\<close>, \<open>u8_enum\<close> and
    \<open>event_machine\<close> that several components implement.
  \<^item> \<open>Link\<close> (\<^verbatim>\<open>tacticalmesh-link/src/lib.rs\<close>): priorities, streams derived from key and epoch, the
    UDP radio backend, reader threads with their filters, the adapter, rotation of the epoch.
    Shown: channels stay bounded and free of own frames (\<open>link_inv\<close>); a rotation keeps contact.
    \<open>Radio\<close>: the stub and the packet injection backend, the latter over a parameter for its crate, and
    the reader thread as a loop over the interface \<open>radio_rx\<close> that all three backends implement;
    for the UDP backend its deliveries and its end are exact for any stop flags and allow lists.
  \<^item> \<open>WireFormat\<close> (\<^verbatim>\<open>headers.rs\<close>, \<^verbatim>\<open>msg_kind.rs\<close>, \<^verbatim>\<open>errors.rs\<close>, \<^verbatim>\<open>message.rs\<close>): the headers are
    fixed-size codecs.
  \<^item> \<open>NonceCache\<close> (\<^verbatim>\<open>nonce_cache.rs\<close>): the interface \<open>replay_guard\<close> and the cache as an instance; its
    answers are exactly those of a log that forgets nothing.
  \<^item> \<open>Crypto\<close> (\<^verbatim>\<open>crypto.rs\<close>, \<^verbatim>\<open>identity.rs\<close>, \<^verbatim>\<open>pubkey_store.rs\<close>): nonces, hashes, signatures and
    identities over a parameter for the cryptographic crates, with their laws \<open>crypto_ok\<close>.
  \<^item> \<open>Fec\<close>, \<open>FecFrames\<close> (\<^verbatim>\<open>fec.rs\<close>, \<^verbatim>\<open>build_frames\<close>): coding into shards over a parameter for the
    Reed-Solomon crate; any sufficient subset of the frames gives the payload.
  \<^item> \<open>Frame\<close> (\<^verbatim>\<open>frame.rs\<close>): building, parsing and verification. Shown: round trip, authenticity of
    what is accepted, the exact replay protection, what the signature leaves open.
  \<^item> \<open>Scheduler\<close> (\<^verbatim>\<open>scheduler.rs\<close>): the interface \<open>strict_priority_queue\<close>, implemented by the array
    of four queues; the drain loop terminates and hands every frame to the link, in strict priority
    order: its output is the packets for the socket, and the counters of the link account for them.
  \<^item> \<open>Dijkstra\<close>, \<open>ShortestPath\<close>, \<open>Olsr\<close>, \<open>OlsrRouting\<close>, \<open>OlsrScenarios\<close> (\<^verbatim>\<open>tacticalmesh-olsr\<close>): the
    search of \<^verbatim>\<open>recompute_routes\<close> against least-cost walks (interfaces \<open>min_heap\<close> and \<open>link_graph\<close>),
    the tables and the periodic tasks. Shown: in every reachable router state the routes are the
    least-cost ones, next hops are right up to nine hops, the tables are consistent. \<open>Network\<close>: many
    routers at once; once they have exchanged their TC messages, forwarding from hop to hop follows
    loop-free least-cost paths.
  \<^item> \<open>Messages\<close>, \<open>TargetBoard\<close>, \<open>ImageCache\<close>, \<open>AppState\<close>, \<open>Render\<close> (\<^verbatim>\<open>tacticalmesh-app\<close>): message
    types; the board as an instance of the interface \<open>max_store\<close>, whose content is the first of the
    highest updates of each target, with convergence and its limits; reassembly of images, with
    \<open>ImageBlocks\<close> for the content of the cache as a function of all shards inserted; the display
    state and its log; every panel of the drawing code, over a
    parameter for the terminal library, with the proof that drawing never panics. \<open>ImageCodec\<close>
    (\<^verbatim>\<open>image_codec.rs\<close>, the test pattern of \<^verbatim>\<open>main.rs\<close>): over a parameter for the image crate with its
    laws \<open>image_lib_ok\<close>; a served picture always decodes to its announced size. \<open>TestPattern\<close>: the
    rings of the pattern in single precision, which no rounding changes. \<open>Demo\<close> (\<^verbatim>\<open>demo.rs\<close>,
    \<^verbatim>\<open>mock.rs\<close>): the two demonstration tasks and the pair of bounded channels, with their order.
  \<^item> \<open>Node\<close> (\<^verbatim>\<open>main.rs\<close>: \<open>Shared\<close>, \<^verbatim>\<open>handlers.rs\<close>), \<open>Receive\<close> (\<^verbatim>\<open>rx.rs\<close>), \<open>NodeLoops\<close>
    (\<^verbatim>\<open>loops.rs\<close>, \<^verbatim>\<open>tui_loop.rs\<close>, \<^verbatim>\<open>tui/mod.rs\<close>): every handler with the tasks it spawns, one round of
    the receive loop with jam detection, the outbound and display loops, every key of the terminal
    loop, spoofer and jammer. The channel that \<^verbatim>\<open>iw\<close> has tuned the interface to is kept beside the
    shared state (\<open>sh_radio\<close>), and the answer to a jam is the list of the states after its steps
    (\<open>jam_respond\<close>), between which other tasks can run.
    \<open>Terminal\<close> (\<^verbatim>\<open>tui/mod.rs\<close>, the frame of \<^verbatim>\<open>tui_loop.rs\<close>, the panic hook): raw mode and alternate
    screen, read errors, the rounds of the loop up to its end.
  \<^item> \<open>Behaviour\<close>: delivery of messages, what a control broadcast makes a node queue and how often it
    is passed on (\<open>passed_on\<close>), the jam window, the hop before the alert, unverifiable frames.
  \<^item> \<open>NodeMachine\<close> (\<^verbatim>\<open>main.rs\<close>): start-up, and \<open>node_step\<close>, the interleaving of all tasks. Shown: the
    invariant of the whole node, that the node implements the router of \<open>OlsrRouting\<close>, and that the
    handling of messages terminates. \<open>NodeConfig\<close>: what no step of the node ever changes, with the
    consequence that its streams never rotate and running nodes always hear each other.
    \<open>Main_Program\<close>: the command line, the log and the exit, around start-up and terminal loop.
  \<^item> \<open>Discovery\<close>, \<open>ImageTransfer\<close>, \<open>Delivery\<close>: a HELLO and an image from one node to another through
    every layer, and a message over several forwarding nodes of a converged network.
  \<^item> \<open>Mesh\<close>, \<open>MeshMessages\<close>, \<open>Insider\<close>: any number of running nodes, the air, and the adversary of the
    threat model in \<^verbatim>\<open>OVERVIEW.md\<close>. Shown: without the pre-shared key nothing can be injected, since
    a frame that a node accepts, and so every message that it handles, has been built and sent by
    its source; with the key one member can sign as any other.
  \<^item> \<open>Tools\<close> (\<^verbatim>\<open>link_test.rs\<close>, \<^verbatim>\<open>pcap_sniff.rs\<close>): the diagnostic programs over the outcome of their
    system calls; the printed lines are results.
  \<^item> \<open>NodeScenarios\<close>, \<open>ConfigScenarios\<close>, \<open>MeshScenarios\<close>: concrete nodes to which the properties of the
    node are applied. \<open>Conformance\<close>, \<open>ConformanceRoutes\<close>, \<open>ConformanceCodecs\<close>: the unit tests of the
    repository, which hold of the model. \<open>Deviations\<close>:
    where the code differs from its comments and documents.

  \<^bold>\<open>Conventions.\<close> Structs are records, enums datatypes, integers words of their width; hash maps
  are partial functions, and the order of a traversal is an argument. The clock, random bytes, the
  outcome of system calls and of the serializer, the image crate and the cryptographic crates are
  arguments (\<open>step_io\<close>, \<open>node_env\<close>, \<open>crypto\<close>, \<open>image_lib\<close>, \<open>wfb_lib\<close>); laws about them are named
  hypotheses (\<open>crypto_ok\<close>, \<open>codec_ok\<close>, \<open>order_ok\<close>, \<open>image_lib_ok\<close>, \<open>f32_rounding\<close>), which
  \<open>demo_crypto\<close>, \<open>demo_env\<close>, \<open>id_order\<close>, \<open>demo_image_lib\<close> and exact arithmetic satisfy. Text is
  its UTF-8 bytes, a float its bit pattern. A function that locks the state is one step. A task
  that sleeps returns its continuation. Arithmetic is that of the release profile; panics are
  results of type \<open>rust\<close>.

  \<^bold>\<open>Loops.\<close> All recursion is total: the search by the sum of the labels, draining by the number of
  queued frames, the walk back by the hop limit, chunks by length. \<open>run_chain\<close> takes one element of
  its list per round and is shown to finish when the list is longer than the number of chunks plus
  one. \<open>recv_timeout\<close> gives \<open>None\<close> when the socket results it is given are used up. The reader
  thread, the terminal loop and the tools consume one element of a list of outcomes per round; what
  they have done after a list of rounds is stated for any list, and whether they have ended. The bound of ten nodes in \<open>Network\<close> and
  \<open>Delivery\<close> is that of the walk back: longer routes can name a wrong next hop
  (\<open>ten_hop_next_hop_not_neighbor\<close>).

  \<^bold>\<open>Not modelled.\<close> Timers, threads and the tokio runtime, whose effect is the order of the steps; the
  parsing of the command line, which a derive macro generates from \<open>Cli\<close>, and the log output apart
  from that of \<^verbatim>\<open>main.rs\<close>; the terminal library's division of areas and
  the decimal form of positions, which are parameters; serialization, hashing, signatures, the
  stream cipher, the erasure code, the image formats and packet injection themselves, which belong
  to other crates; the build files. A reader thread takes a frame from its channel only when the
  frame channel has room; in the program it may hold one frame while it waits.
\<close>

end
